(* ===== verification/Prelude.thy ===== *)
theory Prelude
  imports Main "HOL-Library.Word" "HOL-Library.Sublist" "HOL-Library.Char_ord"
    "HOL-Library.List_Lexorder"
begin

text \<open>
  What every theory of the development shares: the collections its automation uses, the
  types that stand for Go values, and generic lemmas on lists, options and folds.

  A Go string or \<open>[]byte\<close> is a sequence of bytes and is modelled as \<open>string\<close>, the list of
  8-bit characters of HOL. A Go \<open>error\<close> is a value of a datatype where the code inspects it
  and a \<open>string\<close> (its message) where the code only passes it on. A nil pointer is \<open>None\<close>.
\<close>

named_theorems go_strings \<open>evaluation rules for the model of package strings\<close>
named_theorems go_io \<open>rules for the model of buffered readers\<close>
named_theorems go_http \<open>rules for the model of requests, headers and response writers\<close>
named_theorems go_state \<open>rules for the state of connections, hubs and stores\<close>

section \<open>Values\<close>

text \<open>The bytes the code names by an escape sequence.\<close>

abbreviation LF :: char where "LF \<equiv> CHR 0x0A"
abbreviation CR :: char where "CR \<equiv> CHR 0x0D"
abbreviation SP :: char where "SP \<equiv> CHR 0x20"
abbreviation NUL :: char where "NUL \<equiv> CHR 0x00"
abbreviation QUOTE :: char where "QUOTE \<equiv> CHR 0x22"

type_synonym bytes = string

text \<open>
  The outcome of a call that may panic: a Go panic unwinds the stack and is a value here, so
  that a deferred function and \<open>recover\<close> can be written down.
\<close>

datatype outcome = Returned | Panicked string

text \<open>
  A channel of type \<open>chan struct{}\<close> used as a signal: nil, open, or closed. Receiving from it
  proceeds exactly when it is closed; closing it panics when it is nil or closed already.
\<close>

datatype chan = NilChan | OpenChan | ClosedChan

definition close_chan :: "chan \<Rightarrow> outcome \<times> chan" where
  "close_chan c = (case c of
     NilChan \<Rightarrow> (Panicked ''close of nil channel'', NilChan)
   | OpenChan \<Rightarrow> (Returned, ClosedChan)
   | ClosedChan \<Rightarrow> (Panicked ''close of closed channel'', ClosedChan))"

text \<open>
  The writer of the library \<open>gocurrent\<close> that serialises what goroutines send on a connection. The
  library is not part of the repository: a connection's writer is the list of the calls made to
  it, and a nil writer is \<open>None\<close>.
\<close>

datatype 'm writer_call = WSend 'm | WStop

text \<open>The messages among the calls.\<close>

definition sends :: "'m writer_call list \<Rightarrow> 'm list" where
  "sends ks = List.map_filter (\<lambda>k. case k of WSend m \<Rightarrow> Some m | WStop \<Rightarrow> None) ks"

lemma sends_simps [simp]:
  "sends [] = []" "sends (WSend m # ks) = m # sends ks" "sends (WStop # ks) = sends ks"
  "sends (ks @ ks') = sends ks @ sends ks'"
  by (simp_all add: sends_def List.map_filter_def)

lemma set_sends: "m \<in> set (sends ks) \<longleftrightarrow> WSend m \<in> set ks"
  by (induction ks) (auto simp: sends_def List.map_filter_def split: writer_call.splits)

text \<open>The range of Go's \<open>int\<close> and \<open>int64\<close> on a 64-bit platform.\<close>

definition int64_range :: "int \<Rightarrow> bool" where
  "int64_range n \<longleftrightarrow> - (2 ^ 63) \<le> n \<and> n < 2 ^ 63"

section \<open>Generic lemmas\<close>

lemma dropWhile_all: "list_all P xs \<Longrightarrow> dropWhile P xs = []"
  by (induction xs) auto

lemma last_not: "xs \<noteq> [] \<Longrightarrow> x \<notin> set xs \<Longrightarrow> last xs \<noteq> x"
  by auto

lemma dropWhile_head: "xs = [] \<or> \<not> P (hd xs) \<Longrightarrow> dropWhile P xs = xs"
  by (cases xs) auto

lemma hd_rev_last: "xs \<noteq> [] \<Longrightarrow> hd (rev xs) = last xs"
  by (cases xs rule: rev_cases) auto

lemma takeWhile_append_stop:
  "list_all P xs \<Longrightarrow> \<not> P y \<Longrightarrow> takeWhile P (xs @ y # ys) = xs"
  by (induction xs) auto

lemma fold_fun_upd_other:
  "x \<notin> f ` set ks \<Longrightarrow> fold (\<lambda>k h. h(f k := g k (h (f k)))) ks h x = h x"
  by (induction ks arbitrary: h) auto

lemma fold_fun_upd_at:
  assumes "distinct ks" and "inj_on f (set ks)" and "k \<in> set ks"
  shows "fold (\<lambda>k h. h(f k := g k (h (f k)))) ks h (f k) = g k (h (f k))"
  using assms
proof (induction ks arbitrary: h)
  case Nil
  then show ?case by simp
next
  case (Cons a ks)
  show ?case
  proof (cases "k = a")
    case True
    then have "f a \<notin> f ` set ks"
      using Cons.prems by (auto simp: inj_on_def)
    then show ?thesis
      using True fold_fun_upd_other [of "f a" f ks g "h(f a := g a (h (f a)))"]
      by (simp del: fun_upd_apply) simp
  next
    case False
    then have "f k \<noteq> f a" using Cons.prems by (auto simp: inj_on_def)
    then show ?thesis using Cons False by simp
  qed
qed

lemma drop_eq_append_last:
  "n \<le> length xs \<Longrightarrow> drop n (xs @ [x]) = drop n xs @ [x]"
  by simp

end
