(* ===== verification/GoStrings.thy ===== *)
theory GoStrings
  imports Prelude
begin

text \<open>
  The functions of Go's packages \<open>strings\<close>, \<open>bytes\<close>, \<open>strconv\<close> and \<open>encoding/hex\<close> that the
  repository calls, under their Go names, with the lemmas about them that the components
  share. An index result of \<open>-1\<close> is \<open>None\<close>.
\<close>

section \<open>Prefixes and suffixes\<close>

definition HasPrefix :: "string \<Rightarrow> string \<Rightarrow> bool" where
  "HasPrefix s p \<longleftrightarrow> take (length p) s = p"

definition HasSuffix :: "string \<Rightarrow> string \<Rightarrow> bool" where
  "HasSuffix s p \<longleftrightarrow> drop (length s - length p) s = p"

definition TrimPrefix :: "string \<Rightarrow> string \<Rightarrow> string" where
  "TrimPrefix s p = (if HasPrefix s p then drop (length p) s else s)"

definition TrimSuffix :: "string \<Rightarrow> string \<Rightarrow> string" where
  "TrimSuffix s p = (if HasSuffix s p then take (length s - length p) s else s)"

lemma HasPrefix_append [simp, go_strings]: "HasPrefix (p @ s) p"
  by (simp add: HasPrefix_def)

lemma HasPrefix_Nil [simp, go_strings]: "HasPrefix s []"
  by (simp add: HasPrefix_def)

lemma HasPrefix_Cons [go_strings]:
  "HasPrefix s (c # p) \<longleftrightarrow> (case s of [] \<Rightarrow> False | d # t \<Rightarrow> d = c \<and> HasPrefix t p)"
  by (cases s) (auto simp: HasPrefix_def)

lemma HasPrefix_iff: "HasPrefix s p \<longleftrightarrow> (\<exists>t. s = p @ t)"
  by (metis HasPrefix_append HasPrefix_def append_take_drop_id)

lemma HasSuffix_iff: "HasSuffix s p \<longleftrightarrow> (\<exists>t. s = t @ p)"
proof
  assume "HasSuffix s p"
  then have "s = take (length s - length p) s @ p"
    by (metis HasSuffix_def append_take_drop_id)
  then show "\<exists>t. s = t @ p" ..
next
  assume "\<exists>t. s = t @ p"
  then show "HasSuffix s p" by (auto simp: HasSuffix_def)
qed

lemma TrimPrefix_append [simp, go_strings]: "TrimPrefix (p @ s) p = s"
  by (simp add: TrimPrefix_def)

section \<open>Searching\<close>

fun IndexByte :: "string \<Rightarrow> char \<Rightarrow> nat option" where
  "IndexByte [] c = None"
| "IndexByte (x # xs) c = (if x = c then Some 0 else map_option Suc (IndexByte xs c))"

fun LastIndexByte :: "string \<Rightarrow> char \<Rightarrow> nat option" where
  "LastIndexByte [] c = None"
| "LastIndexByte (x # xs) c =
     (case LastIndexByte xs c of
        Some i \<Rightarrow> Some (Suc i)
      | None \<Rightarrow> if x = c then Some 0 else None)"

fun Index :: "string \<Rightarrow> string \<Rightarrow> nat option" where
  "Index [] sub = (if sub = [] then Some 0 else None)"
| "Index (x # xs) sub =
     (if HasPrefix (x # xs) sub then Some 0 else map_option Suc (Index xs sub))"

definition Contains :: "string \<Rightarrow> string \<Rightarrow> bool" where
  "Contains s sub \<longleftrightarrow> Index s sub \<noteq> None"

text \<open>\<open>strings.IndexAny\<close> for a set of ASCII bytes.\<close>

fun IndexAny :: "string \<Rightarrow> string \<Rightarrow> nat option" where
  "IndexAny [] cs = None"
| "IndexAny (x # xs) cs = (if x \<in> set cs then Some 0 else map_option Suc (IndexAny xs cs))"

text \<open>\<open>strings.ContainsRune\<close> for an ASCII rune.\<close>

definition ContainsRune :: "string \<Rightarrow> char \<Rightarrow> bool" where
  "ContainsRune s c \<longleftrightarrow> c \<in> set s"

lemma IndexByte_None_iff: "IndexByte s c = None \<longleftrightarrow> c \<notin> set s"
  by (induction s) auto

lemma IndexByte_append_hit [go_strings]:
  "c \<notin> set xs \<Longrightarrow> IndexByte (xs @ c # ys) c = Some (length xs)"
  by (induction xs) auto

lemma IndexByte_SomeD:
  "IndexByte s c = Some i \<Longrightarrow> i < length s \<and> s ! i = c \<and> c \<notin> set (take i s)"
  by (induction s arbitrary: i) (auto split: if_splits)

lemma IndexByte_split:
  "IndexByte s c = Some i \<Longrightarrow> s = take i s @ c # drop (Suc i) s"
  by (metis IndexByte_SomeD id_take_nth_drop)

lemma LastIndexByte_None_iff: "LastIndexByte s c = None \<longleftrightarrow> c \<notin> set s"
  by (induction s) (auto split: option.splits if_splits)

lemma LastIndexByte_append_hit [go_strings]:
  "c \<notin> set ys \<Longrightarrow> LastIndexByte (xs @ c # ys) c = Some (length xs)"
  by (induction xs) (auto simp: LastIndexByte_None_iff split: option.splits)

lemma LastIndexByte_SomeD:
  "LastIndexByte s c = Some i \<Longrightarrow> i < length s \<and> s ! i = c \<and> c \<notin> set (drop (Suc i) s)"
  by (induction s arbitrary: i)
     (auto simp: LastIndexByte_None_iff split: option.splits if_splits)

lemma Index_Some_bound: "Index s sub = Some i \<Longrightarrow> i + length sub \<le> length s"
proof (induction s arbitrary: i)
  case Nil
  then show ?case by (auto split: if_splits)
next
  case (Cons x xs)
  show ?case
  proof (cases "HasPrefix (x # xs) sub")
    case True
    then have "length sub \<le> length (x # xs)"
      by (metis HasPrefix_iff le_add1 length_append)
    then show ?thesis using Cons.prems True by simp
  next
    case False
    then show ?thesis using Cons by auto
  qed
qed

lemma Index_HasPrefix: "Index s sub = Some i \<Longrightarrow> HasPrefix (drop i s) sub"
  by (induction s arbitrary: i) (auto split: if_splits simp: HasPrefix_def)

lemma Index_singleton [go_strings]: "Index s [c] = IndexByte s c"
  by (induction s) (auto simp: HasPrefix_def)

lemma IndexAny_None_iff: "IndexAny s cs = None \<longleftrightarrow> set s \<inter> set cs = {}"
  by (induction s) auto

lemma IndexAny_append_hit [go_strings]:
  "set xs \<inter> set cs = {} \<Longrightarrow> c \<in> set cs \<Longrightarrow> IndexAny (xs @ c # ys) cs = Some (length xs)"
  by (induction xs) auto

section \<open>Splitting and joining\<close>

text \<open>\<open>strings.Split\<close> and \<open>bytes.Split\<close> with a separator of one byte.\<close>

fun Split :: "string \<Rightarrow> char \<Rightarrow> string list" where
  "Split [] c = [[]]"
| "Split (x # xs) c =
     (if x = c then [] # Split xs c
      else (case Split xs c of [] \<Rightarrow> [[x]] | l # ls \<Rightarrow> (x # l) # ls))"

text \<open>\<open>strings.SplitN(s, sep, 2)\<close> with a separator of one byte.\<close>

definition SplitN2 :: "string \<Rightarrow> char \<Rightarrow> string list" where
  "SplitN2 s c = (case IndexByte s c of
      None \<Rightarrow> [s]
    | Some i \<Rightarrow> [take i s, drop (Suc i) s])"

fun Join :: "string list \<Rightarrow> string \<Rightarrow> string" where
  "Join [] sep = []"
| "Join [x] sep = x"
| "Join (x # y # zs) sep = x @ sep @ Join (y # zs) sep"

lemma Split_not_Nil [simp]: "Split s c \<noteq> []"
  by (cases s) (auto split: list.splits)

lemma Join_Cons: "zs \<noteq> [] \<Longrightarrow> Join (x # zs) sep = x @ sep @ Join zs sep"
  by (cases zs) auto

lemma Join_Split: "Join (Split s c) [c] = s"
proof (induction s)
  case Nil
  then show ?case by simp
next
  case (Cons x xs)
  obtain l ls where ls: "Split xs c = l # ls"
    by (meson Split_not_Nil neq_Nil_conv)
  show ?case
  proof (cases "x = c")
    case True
    then show ?thesis using Cons.IH by (simp add: Join_Cons)
  next
    case False
    then show ?thesis using Cons.IH ls by (cases ls) auto
  qed
qed

lemma Split_no_sep: "l \<in> set (Split s c) \<Longrightarrow> c \<notin> set l"
proof (induction s arbitrary: l)
  case Nil
  then show ?case by simp
next
  case (Cons x xs)
  obtain m ms where ms: "Split xs c = m # ms"
    by (meson Split_not_Nil neq_Nil_conv)
  then have "l = [] \<and> x = c \<or> l \<in> set (Split xs c) \<or> (l = x # m \<and> x \<noteq> c)"
    using Cons.prems by (auto split: if_splits)
  then show ?case using Cons.IH ms by auto
qed

lemma Split_single: "c \<notin> set s \<Longrightarrow> Split s c = [s]"
  by (induction s) auto

lemma Split_append_sep: "c \<notin> set a \<Longrightarrow> Split (a @ c # b) c = a # Split b c"
  by (induction a) auto

lemma SplitN2_hit: "c \<notin> set a \<Longrightarrow> SplitN2 (a @ c # b) c = [a, b]"
  by (simp add: SplitN2_def IndexByte_append_hit)

section \<open>Trimming\<close>

text \<open>\<open>strings.TrimLeft\<close>, \<open>TrimRight\<close> and \<open>Trim\<close> with a cutset of ASCII bytes.\<close>

definition TrimLeft :: "string \<Rightarrow> string \<Rightarrow> string" where
  "TrimLeft s cs = dropWhile (\<lambda>c. c \<in> set cs) s"

definition TrimRight :: "string \<Rightarrow> string \<Rightarrow> string" where
  "TrimRight s cs = rev (dropWhile (\<lambda>c. c \<in> set cs) (rev s))"

definition Trim :: "string \<Rightarrow> string \<Rightarrow> string" where
  "Trim s cs = TrimRight (TrimLeft s cs) cs"

lemma TrimRight_Nil [simp]: "TrimRight [] cs = []"
  by (simp add: TrimRight_def)

lemma TrimRight_append_cut: "set ys \<subseteq> set cs \<Longrightarrow> TrimRight (xs @ ys) cs = TrimRight xs cs"
  by (simp add: TrimRight_def, subst dropWhile_append2) auto

lemma TrimRight_id: "xs = [] \<or> last xs \<notin> set cs \<Longrightarrow> TrimRight xs cs = xs"
  by (cases xs rule: rev_cases) (auto simp: TrimRight_def)

lemma TrimRight_empty_iff: "TrimRight s cs = [] \<longleftrightarrow> set s \<subseteq> set cs"
  by (auto simp: TrimRight_def)

lemma TrimRight_prefix: "\<exists>t. s = TrimRight s cs @ t \<and> set t \<subseteq> set cs"
proof (intro exI conjI)
  let ?t = "rev (takeWhile (\<lambda>c. c \<in> set cs) (rev s))"
  have "rev (takeWhile (\<lambda>c. c \<in> set cs) (rev s) @ dropWhile (\<lambda>c. c \<in> set cs) (rev s)) = s"
    by (simp only: takeWhile_dropWhile_id rev_rev_ident)
  then show "s = TrimRight s cs @ ?t" by (simp only: TrimRight_def rev_append)
  show "set ?t \<subseteq> set cs" by (auto dest: set_takeWhileD)
qed

text \<open>
  \<open>strings.TrimSpace\<close> cuts the runes with Unicode's White Space property: six ASCII bytes, and
  the UTF-8 encodings of U+0085, U+00A0, U+1680, U+2000 to U+200A, U+2028, U+2029, U+202F,
  U+205F and U+3000.
\<close>

definition space_runes :: "string list" where
  "space_runes =
     [[CHR 0x09], [CHR 0x0A], [CHR 0x0B], [CHR 0x0C], [CHR 0x0D], [CHR 0x20],
      [CHR 0xC2, CHR 0x85], [CHR 0xC2, CHR 0xA0], [CHR 0xE1, CHR 0x9A, CHR 0x80],
      [CHR 0xE2, CHR 0x80, CHR 0x80], [CHR 0xE2, CHR 0x80, CHR 0x81],
      [CHR 0xE2, CHR 0x80, CHR 0x82], [CHR 0xE2, CHR 0x80, CHR 0x83],
      [CHR 0xE2, CHR 0x80, CHR 0x84], [CHR 0xE2, CHR 0x80, CHR 0x85],
      [CHR 0xE2, CHR 0x80, CHR 0x86], [CHR 0xE2, CHR 0x80, CHR 0x87],
      [CHR 0xE2, CHR 0x80, CHR 0x88], [CHR 0xE2, CHR 0x80, CHR 0x89],
      [CHR 0xE2, CHR 0x80, CHR 0x8A], [CHR 0xE2, CHR 0x80, CHR 0xA8],
      [CHR 0xE2, CHR 0x80, CHR 0xA9], [CHR 0xE2, CHR 0x80, CHR 0xAF],
      [CHR 0xE2, CHR 0x81, CHR 0x9F], [CHR 0xE3, CHR 0x80, CHR 0x80]]"

text \<open>The number of bytes of the rune of a list that begins the string, 0 if there is none.\<close>

fun lead_len :: "string list \<Rightarrow> string \<Rightarrow> nat" where
  "lead_len [] s = 0"
| "lead_len (r # rs) s = (if HasPrefix s r then length r else lead_len rs s)"

function strip_runes :: "string list \<Rightarrow> string \<Rightarrow> string" where
  "strip_runes rs s =
     (if s = [] \<or> lead_len rs s = 0 then s else strip_runes rs (drop (lead_len rs s) s))"
  by pat_completeness auto
termination
  by (relation "measure (\<lambda>(rs, s). length s)") auto

declare strip_runes.simps [simp del]

definition TrimSpace :: "string \<Rightarrow> string" where
  "TrimSpace s = rev (strip_runes (map rev space_runes) (rev (strip_runes space_runes s)))"

lemma strip_runes_id: "s = [] \<or> lead_len rs s = 0 \<Longrightarrow> strip_runes rs s = s"
  by (simp add: strip_runes.simps [of rs s])

text \<open>The bytes with which no white space rune begins or ends: the visible ASCII bytes.\<close>

definition visible :: "char \<Rightarrow> bool" where
  "visible c \<longleftrightarrow> 0x21 \<le> (of_char c :: nat) \<and> (of_char c :: nat) \<le> 0x7E"

lemma lead_len_visible:
  "\<forall>r \<in> set rs. r \<noteq> [] \<and> hd r \<noteq> c \<Longrightarrow> lead_len rs (c # s) = 0"
  by (induction rs) (auto simp: HasPrefix_def neq_Nil_conv)

lemma space_runes_visible: "visible c \<Longrightarrow> r \<in> set space_runes \<Longrightarrow> r \<noteq> [] \<and> hd r \<noteq> c \<and> last r \<noteq> c"
  by (auto simp: space_runes_def visible_def)

lemma TrimSpace_visible:
  assumes "s = [] \<or> visible (hd s) \<and> visible (last s)"
  shows "TrimSpace s = s"
proof (cases s)
  case Nil
  then show ?thesis by (simp add: TrimSpace_def strip_runes_id)
next
  case (Cons a t)
  then have vis: "visible a" "visible (last s)" using assms by auto
  have l: "strip_runes space_runes s = s"
    using Cons vis(1) space_runes_visible by (intro strip_runes_id disjI2) (auto intro!: lead_len_visible)
  obtain u where u: "rev s = last s # u"
    using Cons by (metis append_butlast_last_id list.distinct(1) rev.simps(2) rev_append rev_rev_ident singleton_rev_conv append_Cons append_Nil)
  have "lead_len (map rev space_runes) (rev s) = 0"
    unfolding u using vis(2) space_runes_visible
    by (intro lead_len_visible) (auto simp: hd_rev_last)
  then show ?thesis using l by (simp add: TrimSpace_def strip_runes_id)
qed

lemma TrimSpace_Nil [simp, go_strings]: "TrimSpace [] = []"
  by (simp add: TrimSpace_visible)

text \<open>
  \<open>strings.Fields\<close>: the maximal runs between white space runes. The scan is by bytes, as no
  encoding of a white space rune begins inside the encoding of another rune.
\<close>

function fields_from :: "string \<Rightarrow> string \<Rightarrow> string list" where
  "fields_from cur [] = (if cur = [] then [] else [rev cur])"
| "fields_from cur (c # s) =
     (if lead_len space_runes (c # s) = 0 then fields_from (c # cur) s
      else (if cur = [] then [] else [rev cur])
           @ fields_from [] (drop (lead_len space_runes (c # s)) (c # s)))"
  by pat_completeness auto
termination
  by (relation "measure (\<lambda>(cur, s). length s)") auto

definition Fields :: "string \<Rightarrow> string list" where
  "Fields s = fields_from [] s"

lemma visible_no_lead: "visible c \<Longrightarrow> lead_len space_runes (c # s) = 0"
  using space_runes_visible by (intro lead_len_visible) auto

lemma fields_from_visible:
  "list_all visible w \<Longrightarrow> fields_from cur (w @ s) = fields_from (rev w @ cur) s"
  by (induction w arbitrary: cur) (auto simp: visible_no_lead)

lemma lead_len_SP: "lead_len space_runes (SP # s) = 1"
  by (simp add: space_runes_def HasPrefix_def)

lemma Fields_Join:
  assumes "\<forall>w \<in> set ws. w \<noteq> [] \<and> list_all visible w"
  shows "Fields (Join ws [SP]) = ws"
  using assms
proof (induction ws)
  case Nil
  then show ?case by (simp add: Fields_def)
next
  case (Cons w ws)
  then have w: "w \<noteq> []" "list_all visible w" and ws: "Fields (Join ws [SP]) = ws" by auto
  show ?case
  proof (cases ws)
    case Nil
    then show ?thesis using w fields_from_visible [of w "[]" "[]"] by (simp add: Fields_def)
  next
    case (Cons v vs)
    have "Fields (Join (w # ws) [SP]) = fields_from (rev w) (SP # Join ws [SP])"
      using Cons w fields_from_visible [of w "[]"] by (simp add: Fields_def)
    then show ?thesis using w ws by (simp add: lead_len_SP Fields_def)
  qed
qed

section \<open>Case folding\<close>

definition to_lower :: "char \<Rightarrow> char" where
  "to_lower c = (let n = (of_char c :: nat) in
     if 65 \<le> n \<and> n \<le> 90 then char_of (n + 32) else c)"

definition to_upper :: "char \<Rightarrow> char" where
  "to_upper c = (let n = (of_char c :: nat) in
     if 97 \<le> n \<and> n \<le> 122 then char_of (n - 32) else c)"

text \<open>
  \<open>strings.EqualFold(s, t)\<close> for an ASCII string \<open>t\<close> (both calls of the repository pass an ASCII
  literal). Under Unicode's simple folding the letter k also equals the Kelvin sign U+212A and
  the letter s the long s U+017F.
\<close>

fun EqualFold :: "string \<Rightarrow> string \<Rightarrow> bool" where
  "EqualFold s [] = (s = [])"
| "EqualFold s (t # ts) = (case s of
      [] \<Rightarrow> False
    | c # cs \<Rightarrow>
        if to_lower c = to_lower t then EqualFold cs ts
        else if to_lower t = CHR ''k'' \<and> take 3 s = [CHR 0xE2, CHR 0x84, CHR 0xAA]
          then EqualFold (drop 3 s) ts
        else if to_lower t = CHR ''s'' \<and> take 2 s = [CHR 0xC5, CHR 0xBF]
          then EqualFold (drop 2 s) ts
        else False)"

lemma EqualFold_refl [simp, go_strings]: "EqualFold s s"
  by (induction s) auto

section \<open>Numbers\<close>

definition is_digit :: "char \<Rightarrow> bool" where
  "is_digit c \<longleftrightarrow> 48 \<le> (of_char c :: nat) \<and> (of_char c :: nat) \<le> 57"

definition digit_val :: "char \<Rightarrow> nat" where
  "digit_val c = of_char c - 48"

definition digit_char :: "nat \<Rightarrow> char" where
  "digit_char d = char_of (48 + d)"

fun digits_val :: "nat \<Rightarrow> string \<Rightarrow> nat" where
  "digits_val acc [] = acc"
| "digits_val acc (c # cs) = digits_val (10 * acc + digit_val c) cs"

text \<open>\<open>strconv.Atoi\<close>: an optional sign, decimal digits, and a result that fits \<open>int\<close>.\<close>

definition Atoi :: "string \<Rightarrow> int option" where
  "Atoi s =
     (let neg = (s \<noteq> [] \<and> hd s = CHR ''-'');
          ds = (if s \<noteq> [] \<and> (hd s = CHR ''-'' \<or> hd s = CHR ''+'') then tl s else s)
      in if ds = [] \<or> \<not> list_all is_digit ds then None
         else let v = (if neg then - int (digits_val 0 ds) else int (digits_val 0 ds))
              in if int64_range v then Some v else None)"

text \<open>The decimal digits of a number, as \<open>%d\<close> and \<open>strconv.FormatInt(n, 10)\<close> print it.\<close>

fun dec_nat :: "nat \<Rightarrow> string" where
  "dec_nat n = (if n < 10 then [digit_char n] else dec_nat (n div 10) @ [digit_char (n mod 10)])"

declare dec_nat.simps [simp del]

definition dec_int :: "int \<Rightarrow> string" where
  "dec_int n = (if n < 0 then CHR ''-'' # dec_nat (nat (- n)) else dec_nat (nat n))"

lemma of_digit_char: "d < 10 \<Longrightarrow> (of_char (digit_char d) :: nat) = 48 + d"
  by (simp add: digit_char_def)

lemma is_digit_digit_char [simp]: "d < 10 \<Longrightarrow> is_digit (digit_char d)"
  by (simp add: is_digit_def of_digit_char)

lemma digit_val_digit_char [simp]: "d < 10 \<Longrightarrow> digit_val (digit_char d) = d"
  by (simp add: digit_val_def of_digit_char)

lemma dec_nat_not_Nil [simp]: "dec_nat n \<noteq> []"
  by (subst dec_nat.simps) simp

lemma dec_nat_digits: "list_all is_digit (dec_nat n)"
proof (induction n rule: dec_nat.induct)
  case (1 n)
  then show ?case by (subst dec_nat.simps) auto
qed

lemma digits_val_append:
  "digits_val acc (xs @ ys) = digits_val (digits_val acc xs) ys"
  by (induction xs arbitrary: acc) auto

lemma digits_val_dec_nat [simp]: "digits_val 0 (dec_nat n) = n"
proof (induction n rule: dec_nat.induct)
  case (1 n)
  then show ?case by (subst dec_nat.simps) (auto simp: digits_val_append)
qed

lemma dec_nat_inj: "dec_nat m = dec_nat n \<Longrightarrow> m = n"
  by (metis digits_val_dec_nat)

lemma hd_dec_nat_digit: "is_digit (hd (dec_nat n))"
  by (metis dec_nat_digits dec_nat_not_Nil list.pred_set list.set_sel(1))

lemma Atoi_dec_nat: "int n < 2 ^ 63 \<Longrightarrow> Atoi (dec_nat n) = Some (int n)"
proof -
  assume "int n < 2 ^ 63"
  then have r: "int64_range (int n)" by (simp add: int64_range_def)
  have "hd (dec_nat n) \<noteq> CHR ''-''" "hd (dec_nat n) \<noteq> CHR ''+''"
    using hd_dec_nat_digit [of n] by (auto simp: is_digit_def)
  then show ?thesis using r dec_nat_digits [of n] by (simp add: Atoi_def)
qed

lemma dec_int_inj: "dec_int m = dec_int n \<Longrightarrow> m = n"
proof -
  assume eq: "dec_int m = dec_int n"
  have minus: "CHR ''-'' # xs \<noteq> dec_nat k" for xs k
  proof
    assume "CHR ''-'' # xs = dec_nat k"
    then have "hd (dec_nat k) = CHR ''-''" by (metis list.sel(1))
    then show False using hd_dec_nat_digit [of k] by (simp add: is_digit_def)
  qed
  have "m < 0 \<longleftrightarrow> n < 0"
    using eq minus by (auto simp: dec_int_def dest: sym split: if_splits)
  moreover have "nat (- m) = nat (- n)" if "m < 0" "n < 0"
    using eq that by (auto simp: dec_int_def intro: dec_nat_inj)
  moreover have "nat m = nat n" if "\<not> m < 0" "\<not> n < 0"
    using eq that by (auto simp: dec_int_def intro: dec_nat_inj)
  ultimately show "m = n" by linarith
qed

lemma Atoi_range: "Atoi s = Some v \<Longrightarrow> int64_range v"
  by (auto simp: Atoi_def Let_def split: if_splits)

lemma Atoi_digits_nonneg: "list_all is_digit s \<Longrightarrow> Atoi s = Some v \<Longrightarrow> 0 \<le> v"
  by (cases s) (auto simp: Atoi_def Let_def is_digit_def split: if_splits)

text \<open>\<open>hex.EncodeToString\<close>: two lower-case digits for each byte.\<close>

definition hex_char :: "nat \<Rightarrow> char" where
  "hex_char d = (if d < 10 then char_of (48 + d) else char_of (87 + d))"

definition hex_byte :: "char \<Rightarrow> string" where
  "hex_byte c = (let n = (of_char c :: nat) in [hex_char (n div 16), hex_char (n mod 16)])"

definition hex_encode :: "bytes \<Rightarrow> string" where
  "hex_encode bs = concat (map hex_byte bs)"

lemma length_hex_encode: "length (hex_encode bs) = 2 * length bs"
  by (induction bs) (auto simp: hex_encode_def hex_byte_def Let_def)

lemma hex_char_inj: "a < 16 \<Longrightarrow> b < 16 \<Longrightarrow> hex_char a = hex_char b \<Longrightarrow> a = b"
  by (auto simp: hex_char_def split: if_splits dest: arg_cong [where f = "of_char :: char \<Rightarrow> nat"])

lemma hex_byte_inj: "hex_byte a = hex_byte b \<Longrightarrow> a = b"
proof -
  assume h: "hex_byte a = hex_byte b"
  let ?n = "of_char :: char \<Rightarrow> nat"
  have lt: "?n c div 16 < 16" "?n c mod 16 < 16" for c
    using nat_of_char_less_256 [of c] by (auto simp: less_mult_imp_div_less)
  have "?n a div 16 = ?n b div 16" "?n a mod 16 = ?n b mod 16"
    using h lt by (auto simp: hex_byte_def Let_def intro: hex_char_inj)
  then have "?n a = ?n b" by (metis div_mult_mod_eq)
  then show "a = b" by simp
qed

lemma hex_encode_inj: "hex_encode as = hex_encode bs \<Longrightarrow> as = bs"
proof (induction as arbitrary: bs)
  case Nil
  then show ?case by (cases bs) (auto simp: hex_encode_def hex_byte_def Let_def)
next
  case (Cons a as)
  then obtain b bs' where bs: "bs = b # bs'"
    by (cases bs) (auto simp: hex_encode_def hex_byte_def Let_def)
  have "hex_byte a = hex_byte b" "hex_encode as = hex_encode bs'"
    using Cons.prems unfolding bs by (auto simp: hex_encode_def hex_byte_def Let_def)
  then show ?case using Cons.IH bs hex_byte_inj by blast
qed

end
