(* ===== verification/Bufio.thy ===== *)
theory Bufio
  imports GoStrings
begin

text \<open>
  The part of Go's \<open>bufio.Reader\<close> and \<open>io.ReadFull\<close> that the SSE event reader
  (\<open>http/sse_reader.go\<close>) and the LSP frame reader (\<open>http/lsp_framing.go\<close>) call. A source is the
  list of bytes it will still deliver and the error it reports after the last of them; the
  error is sticky, as end of file is. A read that would block has no counterpart: the bytes of
  the source are all the bytes that ever arrive.
\<close>

datatype io_err = EOF | UnexpectedEOF | IOErr string

record source =
  pending :: bytes
  fault :: io_err

definition source_of :: "bytes \<Rightarrow> source" where
  "source_of bs = \<lparr>pending = bs, fault = EOF\<rparr>"

text \<open>
  \<open>ReadString(delim)\<close> returns the bytes up to and including the first delimiter, or all the
  remaining bytes together with the error when there is none.
\<close>

definition ReadString :: "char \<Rightarrow> source \<Rightarrow> string \<times> io_err option \<times> source" where
  "ReadString d s = (case IndexByte (pending s) d of
      Some i \<Rightarrow> (take (Suc i) (pending s), None, s\<lparr>pending := drop (Suc i) (pending s)\<rparr>)
    | None \<Rightarrow> (pending s, Some (fault s), s\<lparr>pending := []\<rparr>))"

text \<open>\<open>Peek(n)\<close> and \<open>Discard(n)\<close>: \<open>Peek\<close> fails when fewer than \<open>n\<close> bytes are left.\<close>

definition Peek :: "nat \<Rightarrow> source \<Rightarrow> io_err + bytes" where
  "Peek n s = (if n \<le> length (pending s) then Inr (take n (pending s)) else Inl (fault s))"

definition Discard :: "nat \<Rightarrow> source \<Rightarrow> source" where
  "Discard n s = s\<lparr>pending := drop n (pending s)\<rparr>"

text \<open>
  \<open>io.ReadFull\<close> into a buffer of \<open>n\<close> bytes: end of file before the first byte is \<open>EOF\<close>, in the
  middle it is \<open>ErrUnexpectedEOF\<close>.
\<close>

definition ReadFull :: "nat \<Rightarrow> source \<Rightarrow> (io_err + bytes) \<times> source" where
  "ReadFull n s =
     (if n \<le> length (pending s)
      then (Inr (take n (pending s)), s\<lparr>pending := drop n (pending s)\<rparr>)
      else (Inl (if pending s \<noteq> [] \<and> fault s = EOF then UnexpectedEOF else fault s),
            s\<lparr>pending := []\<rparr>))"

lemma source_of_simps [simp, go_io]: "pending (source_of bs) = bs" "fault (source_of bs) = EOF"
  by (simp_all add: source_of_def)

text \<open>A line that is complete: it is returned with its delimiter, and only it is consumed.\<close>

lemma ReadString_line [go_io]:
  "d \<notin> set l \<Longrightarrow> pending s = l @ d # t \<Longrightarrow>
   ReadString d s = (l @ [d], None, s\<lparr>pending := t\<rparr>)"
  by (simp add: ReadString_def IndexByte_append_hit)

lemma ReadString_tail [go_io]:
  "d \<notin> set (pending s) \<Longrightarrow> ReadString d s = (pending s, Some (fault s), s\<lparr>pending := []\<rparr>)"
  by (simp add: ReadString_def IndexByte_None_iff [THEN iffD2])

lemma ReadString_cases [case_names line tail]:
  obtains (line) l t where "pending s = l @ d # t" and "d \<notin> set l"
    and "ReadString d s = (l @ [d], None, s\<lparr>pending := t\<rparr>)"
  | (tail) "d \<notin> set (pending s)"
    and "ReadString d s = (pending s, Some (fault s), s\<lparr>pending := []\<rparr>)"
  by (metis ReadString_line ReadString_tail in_set_conv_decomp_first)

lemma ReadString_progress:
  "ReadString d s = (l, e, s') \<Longrightarrow> \<not> (l = [] \<and> e \<noteq> None) \<Longrightarrow>
   length (pending s') < length (pending s)"
  by (cases d s rule: ReadString_cases) auto

lemma ReadString_append:
  "ReadString d s = (l, None, s') \<Longrightarrow>
   ReadString d (s\<lparr>pending := pending s @ t\<rparr>) = (l, None, s'\<lparr>pending := pending s' @ t\<rparr>)"
  by (cases d s rule: ReadString_cases) (auto simp: ReadString_line)

lemma ReadString_fault: "ReadString d s = (l, e, s') \<Longrightarrow> fault s' = fault s"
  by (cases d s rule: ReadString_cases) auto

lemma ReadFull_exact [go_io]:
  "pending s = b @ t \<Longrightarrow> ReadFull (length b) s = (Inr b, s\<lparr>pending := t\<rparr>)"
  by (simp add: ReadFull_def)

lemma ReadFull_short:
  "length (pending s) < n \<Longrightarrow>
   ReadFull n s = (Inl (if pending s \<noteq> [] \<and> fault s = EOF then UnexpectedEOF else fault s),
                   s\<lparr>pending := []\<rparr>)"
  by (simp add: ReadFull_def)

end
