(* ===== verification/LspFraming.thy ===== *)
theory LspFraming
  imports Bufio
begin

text \<open>
  Content-Length framing of \<open>http/lsp_framing.go\<close>: \<open>WriteFrame\<close> over any \<open>io.Writer\<close>, the header
  loop and the body read of \<open>ReadFrame\<close> over a buffered source, and the round trip.
\<close>

section \<open>Operations\<close>

text \<open>
  An \<open>io.Writer\<close> is the parameter \<open>write\<close>: it takes the writer and the bytes and returns an
  error or none, and the writer after the call.
\<close>

definition frame_header :: "nat \<Rightarrow> bytes" where
  "frame_header n = ''Content-Length: '' @ dec_nat n @ [CR, LF, CR, LF]"

definition WriteFrame ::
  "('w \<Rightarrow> bytes \<Rightarrow> string option \<times> 'w) \<Rightarrow> 'w \<Rightarrow> bytes \<Rightarrow> string option \<times> 'w" where
  "WriteFrame write w data =
     (case write w (frame_header (length data)) of
        (Some e, w') \<Rightarrow> (Some e, w')
      | (None, w') \<Rightarrow> write w' data)"

datatype frame_error =
    ReadErr io_err
  | MalformedHeader string
  | InvalidContentLength string
  | NegativeContentLength int
  | MissingContentLength
  | BodyErr int io_err

text \<open>
  The result of \<open>ReadFrame\<close>: the body, an error, or the run-time panic of \<open>make([]byte, n)\<close> for
  an \<open>n\<close> above the largest allocation of the platform, the parameter \<open>limit\<close>.
\<close>

datatype frame_result = Frame bytes | FrameErr frame_error | AllocPanic

function header_loop :: "source \<Rightarrow> int \<Rightarrow> (frame_error + int) \<times> source" where
  "header_loop src contentLength =
     (case ReadString LF src of (raw, err, src') \<Rightarrow>
        (case err of
           Some e \<Rightarrow> (Inl (ReadErr e), src')
         | None \<Rightarrow>
             let line = TrimRight raw [CR, LF] in
             if line = [] then (Inr contentLength, src')
             else (case SplitN2 line CHR '':'' of
                 [a, b] \<Rightarrow>
                   let name = TrimSpace a; v = TrimSpace b in
                   if EqualFold name ''Content-Length'' then
                     (case Atoi v of
                        None \<Rightarrow> (Inl (InvalidContentLength v), src')
                      | Some n \<Rightarrow>
                          if n < 0 then (Inl (NegativeContentLength n), src')
                          else header_loop src' n)
                   else header_loop src' contentLength
               | _ \<Rightarrow> (Inl (MalformedHeader line), src'))))"
  by pat_completeness auto
termination
  by (relation "measure (\<lambda>(src, n). length (pending src))")
     (auto dest: ReadString_progress [OF sym])

declare header_loop.simps [simp del]

definition ReadFrame :: "int \<Rightarrow> source \<Rightarrow> frame_result \<times> source" where
  "ReadFrame limit src =
     (case header_loop src (-1) of
        (Inl e, src') \<Rightarrow> (FrameErr e, src')
      | (Inr n, src') \<Rightarrow>
          if n < 0 then (FrameErr MissingContentLength, src')
          else if limit < n then (AllocPanic, src')
          else (case ReadFull (nat n) src' of
              (Inr body, src'') \<Rightarrow> (Frame body, src'')
            | (Inl e, src'') \<Rightarrow> (FrameErr (BodyErr n e), src'')))"

section \<open>One header line\<close>

lemma strip_runes_SP: "strip_runes space_runes (SP # s) = strip_runes space_runes s"
  by (simp add: strip_runes.simps [of space_runes "SP # s"] lead_len_SP)

lemma TrimSpace_SP: "TrimSpace (SP # s) = TrimSpace s"
  by (simp add: TrimSpace_def strip_runes_SP)

lemma digit_visible: "is_digit c \<Longrightarrow> visible c"
  by (simp add: is_digit_def visible_def)

lemma TrimSpace_dec_nat [simp]: "TrimSpace (dec_nat n) = dec_nat n"
proof -
  have "\<forall>c \<in> set (dec_nat n). visible c"
    using dec_nat_digits digit_visible by (auto simp: list_all_iff)
  then show ?thesis by (intro TrimSpace_visible disjI2) simp
qed

text \<open>A line with a name and a value, each without line breaks, is read as that field.\<close>

lemma header_loop_line:
  assumes "LF \<notin> set name" and "LF \<notin> set v" and "CHR '':'' \<notin> set name" and "v = [] \<or> last v \<noteq> CR"
    and "pending src = name @ CHR '':'' # SP # v @ CR # LF # t"
  shows "header_loop src n =
    (if EqualFold (TrimSpace name) ''Content-Length'' then
       (case Atoi (TrimSpace v) of
          None \<Rightarrow> (Inl (InvalidContentLength (TrimSpace v)), src\<lparr>pending := t\<rparr>)
        | Some k \<Rightarrow> if k < 0 then (Inl (NegativeContentLength k), src\<lparr>pending := t\<rparr>)
                   else header_loop (src\<lparr>pending := t\<rparr>) k)
     else header_loop (src\<lparr>pending := t\<rparr>) n)"
proof -
  let ?line = "name @ CHR '':'' # SP # v"
  have "pending src = (?line @ [CR]) @ LF # t" "LF \<notin> set (?line @ [CR])"
    using assms by auto
  then have rd: "ReadString LF src = ((?line @ [CR]) @ [LF], None, src\<lparr>pending := t\<rparr>)"
    by (intro ReadString_line) auto
  have "v = [] \<or> last v \<notin> set [CR, LF]"
    using assms(2,4) last_not [of v LF] by auto
  then have "TrimRight ?line [CR, LF] = ?line"
    by (intro TrimRight_id) auto
  then have tr: "TrimRight ((?line @ [CR]) @ [LF]) [CR, LF] = ?line"
    using TrimRight_append_cut [of "[CR, LF]" "[CR, LF]" ?line] by simp
  show ?thesis
    using assms(3) rd tr
    by (subst header_loop.simps)
      (simp add: SplitN2_hit Let_def TrimSpace_SP del: EqualFold.simps cong: option.case_cong)
qed

lemma header_loop_end:
  assumes "pending src = CR # LF # t"
  shows "header_loop src n = (Inr n, src\<lparr>pending := t\<rparr>)"
  using ReadString_line [of LF "[CR]" src t] assms
  by (subst header_loop.simps) (simp add: TrimRight_def)

lemma header_loop_frame:
  assumes "int n < 2 ^ 63" and "pending src = frame_header n @ t"
  shows "header_loop src m = (Inr (int n), src\<lparr>pending := t\<rparr>)"
proof -
  have dig: "\<forall>c \<in> set (dec_nat n). is_digit c"
    using dec_nat_digits by (simp add: list_all_iff)
  then have no: "LF \<notin> set (dec_nat n)" "CR \<notin> set (dec_nat n)"
    by (auto simp: is_digit_def)
  note d = no(1) last_not [OF dec_nat_not_Nil no(2)]
  have "TrimSpace ''Content-Length'' = ''Content-Length''"
    by (rule TrimSpace_visible) (simp add: visible_def)
  then show ?thesis
    using assms d header_loop_line [of "''Content-Length''" "dec_nat n" src "CR # LF # t" m]
      header_loop_end [of "src\<lparr>pending := CR # LF # t\<rparr>" t "int n"] Atoi_dec_nat [of n]
    by (simp add: frame_header_def)
qed

section \<open>Round trips\<close>

text \<open>The bytes of one frame, and a writer that collects what is written to it.\<close>

definition frame :: "bytes \<Rightarrow> bytes" where
  "frame body = frame_header (length body) @ body"

definition buffer_write :: "bytes \<Rightarrow> bytes \<Rightarrow> string option \<times> bytes" where
  "buffer_write buf b = (None, buf @ b)"

lemma WriteFrame_buffer: "WriteFrame buffer_write buf body = (None, buf @ frame body)"
  by (simp add: WriteFrame_def buffer_write_def frame_def)

lemma ReadFrame_frame:
  assumes "int (length body) < 2 ^ 63" and "int (length body) \<le> limit"
    and "pending src = frame body @ t"
  shows "ReadFrame limit src = (Frame body, src\<lparr>pending := t\<rparr>)"
  using assms header_loop_frame [of "length body" src "body @ t" "-1"]
    ReadFull_exact [of "src\<lparr>pending := body @ t\<rparr>" body t]
  by (simp add: ReadFrame_def frame_def)

lemma ReadFrame_truncated:
  assumes "int n < 2 ^ 63" and "int n \<le> limit" and "length part < n"
    and "pending src = frame_header n @ part"
  shows "ReadFrame limit src =
    (FrameErr (BodyErr (int n) (if part \<noteq> [] \<and> fault src = EOF then UnexpectedEOF else fault src)),
     src\<lparr>pending := []\<rparr>)"
  using assms header_loop_frame [of n src part "-1"] ReadFull_short [of "src\<lparr>pending := part\<rparr>" n]
  by (simp add: ReadFrame_def)

lemma ReadFrame_empty:
  "pending src = [] \<Longrightarrow> ReadFrame limit src = (FrameErr (ReadErr (fault src)), src)"
  by (simp add: ReadFrame_def header_loop.simps [of src] ReadString_tail)

text \<open>A frame that is read consumes at least the line that ends its header.\<close>

lemma header_loop_step:
  assumes "ReadString LF src = (raw, None, src')"
    and "P (Inr n, src')" and "\<And>e. P (Inl e, src')" and "\<And>k. P (header_loop src' k)"
  shows "P (header_loop src n)"
  using assms
  by (simp add: header_loop.simps [of src n] Let_def del: EqualFold.simps split: list.split option.split)

lemma header_loop_progress:
  "header_loop src n = (Inr m, src') \<Longrightarrow> length (pending src') < length (pending src)"
proof (induction "length (pending src)" arbitrary: src n rule: less_induct)
  case less
  show ?case
  proof (cases LF src rule: ReadString_cases)
    case (line l t)
    let ?P = "\<lambda>r. r = (Inr m, src') \<longrightarrow> length (pending src') < length (pending src)"
    have lt: "length (pending (src\<lparr>pending := t\<rparr>)) < length (pending src)"
      using line by simp
    have "?P (header_loop (src\<lparr>pending := t\<rparr>) k)" for k
      using less.hyps [OF lt, of k] lt less_trans by blast
    then have "?P (header_loop src n)"
      using lt by (intro header_loop_step [OF line(3), of ?P]) auto
    then show ?thesis using less.prems by blast
  next
    case tail
    then show ?thesis using less.prems by (simp add: header_loop.simps [of src n])
  qed
qed

lemma ReadFrame_progress:
  "ReadFrame limit src = (Frame body, src') \<Longrightarrow> length (pending src') < length (pending src)"
  by (auto simp: ReadFrame_def ReadFull_def dest!: header_loop_progress
      split: prod.splits sum.splits if_splits)

text \<open>Reading frames until the first one that is not returned.\<close>

function ReadFrames :: "int \<Rightarrow> source \<Rightarrow> bytes list \<times> frame_result \<times> source" where
  "ReadFrames limit src = (case ReadFrame limit src of
      (Frame body, src') \<Rightarrow> (case ReadFrames limit src' of (bs, res) \<Rightarrow> (body # bs, res))
    | res \<Rightarrow> ([], res))"
  by pat_completeness auto
termination
  by (relation "measure (\<lambda>(limit, src). length (pending src))")
     (auto dest: ReadFrame_progress [OF sym])

declare ReadFrames.simps [simp del]

lemma ReadFrames_frames:
  assumes "\<forall>b \<in> set bodies. int (length b) < 2 ^ 63 \<and> int (length b) \<le> limit"
    and "pending src = concat (map frame bodies)"
  shows "ReadFrames limit src = (bodies, FrameErr (ReadErr (fault src)), src\<lparr>pending := []\<rparr>)"
  using assms
proof (induction bodies arbitrary: src)
  case Nil
  then show ?case by (subst ReadFrames.simps) (simp add: ReadFrame_empty)
next
  case (Cons b bs)
  then have "ReadFrame limit src = (Frame b, src\<lparr>pending := concat (map frame bs)\<rparr>)"
    by (intro ReadFrame_frame) simp_all
  then show ?case using Cons by (subst ReadFrames.simps) simp
qed

section \<open>Properties\<close>

text \<open>
  C12: Frames survive a byte stream. Messages written one after the other by WriteFrame into a
  buffer are read back by ReadFrame one by one, unchanged and in order, and then the reader
  reports a clean end of file and has consumed every byte; the bodies may hold any bytes.
\<close>

theorem lsp_frames_roundtrip:
  assumes "\<forall>b \<in> set bodies. int (length b) < 2 ^ 63 \<and> int (length b) \<le> limit"
  shows "ReadFrames limit (source_of (snd (fold (\<lambda>b (e, buf). WriteFrame buffer_write buf b) bodies (None, [])))) =
    (bodies, FrameErr (ReadErr EOF), source_of [])"
proof -
  have "fold (\<lambda>b (e, buf). WriteFrame buffer_write buf b) bodies (None, buf) =
    (None, buf @ concat (map frame bodies))" for buf
    by (induction bodies arbitrary: buf) (simp_all add: WriteFrame_buffer)
  then show ?thesis
    using ReadFrames_frames [OF assms, of "source_of (concat (map frame bodies))"]
    by (simp add: source_of_def)
qed

theorem lsp_frames_roundtrip_witness:
  "ReadFrames 1000 (source_of (snd (fold (\<lambda>b (e, buf). WriteFrame buffer_write buf b)
     [''{}'', [], [LF, CR, NUL]] (None, [])))) =
   ([''{}'', [], [LF, CR, NUL]], FrameErr (ReadErr EOF), source_of [])"
  by (rule lsp_frames_roundtrip) simp

text \<open>
  A body that is cut short is an error, never a shorter message: when fewer bytes than the
  header announces are left, ReadFrame returns no body but reports the announced length with an
  unexpected end of file in the middle of the body, or with the reader's own error.
\<close>

theorem lsp_truncated_body:
  assumes "int n < 2 ^ 63" and "int n \<le> limit" and "length part < n"
    and "pending src = frame_header n @ part"
  shows "fst (ReadFrame limit src) =
    FrameErr (BodyErr (int n) (if part \<noteq> [] \<and> fault src = EOF then UnexpectedEOF else fault src))"
  using ReadFrame_truncated [OF assms] by simp

theorem lsp_truncated_body_witness:
  "fst (ReadFrame 1000 (source_of (frame_header 3 @ ''ab''))) = FrameErr (BodyErr 3 UnexpectedEOF)"
  using lsp_truncated_body [of 3 1000 "''ab''" "source_of (frame_header 3 @ ''ab'')"] by simp

section \<open>The length is trusted\<close>

text \<open>
  The announced length is not checked against a maximum before the buffer is made: a header
  alone, with a length above what the platform can allocate, ends the call in a panic.
\<close>

lemma lsp_length_panics:
  assumes "int n < 2 ^ 63" and "limit < int n" and "pending src = frame_header n @ t"
  shows "fst (ReadFrame limit src) = AllocPanic"
  using assms header_loop_frame [of n src t "-1"] by (simp add: ReadFrame_def)

end
