(* ===== verification/EventStore.thy ===== *)
theory EventStore
  imports Prelude
begin

text \<open>
  The event store of \<open>http/event_store.go\<close>: the interface \<open>EventStore\<close> as the locale
  \<open>event_store\<close>, its bounded extension, and \<open>MemoryEventStore\<close> with the interpretation that
  shows it keeps the contract. The mutex makes each method atomic, so a run is the sequence of
  the methods in the order they take the lock.
\<close>

section \<open>Data\<close>

record stored_event =
  ev_ID :: string
  ev_Event :: string
  ev_Data :: bytes

text \<open>The error result of a method: the in-memory store never fails.\<close>

type_synonym store_error = "string option"

record memory_event_store =
  streams :: "string \<Rightarrow> stored_event list option"
  maxPerStream :: int

section \<open>The interface\<close>

text \<open>
  What follows the first event with the given id, and the whole list when no event has it.
\<close>

fun after_anchor :: "stored_event list \<Rightarrow> string \<Rightarrow> stored_event list option" where
  "after_anchor [] ident = None"
| "after_anchor (e # es) ident = (if ev_ID e = ident then Some es else after_anchor es ident)"

definition replay_spec :: "stored_event list \<Rightarrow> string \<Rightarrow> stored_event list" where
  "replay_spec es ident = (case after_anchor es ident of Some r \<Rightarrow> r | None \<Rightarrow> es)"

lemma after_anchor_None_iff: "after_anchor es ident = None \<longleftrightarrow> ident \<notin> ev_ID ` set es"
  by (induction es) auto

lemma after_anchor_hit:
  "ident \<notin> ev_ID ` set xs \<Longrightarrow> ev_ID e = ident \<Longrightarrow> after_anchor (xs @ e # ys) ident = Some ys"
  by (induction xs) auto

lemma replay_spec_hit:
  "ident \<notin> ev_ID ` set xs \<Longrightarrow> ev_ID e = ident \<Longrightarrow> replay_spec (xs @ e # ys) ident = ys"
  by (simp add: replay_spec_def after_anchor_hit)

lemma replay_spec_miss: "ident \<notin> ev_ID ` set es \<Longrightarrow> replay_spec es ident = es"
  using after_anchor_None_iff [of es ident] by (simp add: replay_spec_def)

text \<open>The newest \<open>b\<close> events of a history: what a bounded store may still hold.\<close>

definition window :: "nat \<Rightarrow> 'a list \<Rightarrow> 'a list" where
  "window b es = drop (length es - b) es"

lemma length_window [simp]: "length (window b es) = min b (length es)"
  by (simp add: window_def)

lemma window_id: "length es \<le> b \<Longrightarrow> window b es = es"
  by (simp add: window_def)

lemma window_snoc: "drop (Suc (length (window b es)) - b) (window b es @ [e]) = window b (es @ [e])"
  by (cases "length es \<le> b") (auto simp: window_def Suc_diff_le)

lemma window_window_snoc: "window b (window b es @ [e]) = window b (es @ [e])"
  using window_snoc [of b es e] by (simp add: window_def [of b "window b es @ [e]"])

lemma drop_snoc_drop:
  "m \<le> length (drop n h) \<Longrightarrow> \<exists>j. drop m (drop n h) @ [e] = drop j (h @ [e])"
proof (cases "n \<le> length h")
  case True
  assume "m \<le> length (drop n h)"
  then have "drop m (drop n h) @ [e] = drop (m + n) (h @ [e])" using True by simp
  then show ?thesis ..
next
  case False
  then have "drop m (drop n h) @ [e] = drop (length h) (h @ [e])" by simp
  then show ?thesis ..
qed

text \<open>Storing a list of events into one stream, through any store operation.\<close>

definition store_all ::
  "('s \<Rightarrow> string \<Rightarrow> stored_event \<Rightarrow> 's \<times> store_error) \<Rightarrow> 's \<Rightarrow> string \<Rightarrow> stored_event list \<Rightarrow> 's"
where
  "store_all put s k es = fold (\<lambda>e s. fst (put s k e)) es s"

lemma store_all_simps [simp]:
  "store_all put s k [] = s"
  "store_all put s k (e # es) = store_all put (fst (put s k e)) k es"
  "store_all put s k (es @ [e]) = fst (put (store_all put s k es) k e)"
  by (simp_all add: store_all_def)

text \<open>
  The contract of an \<open>EventStore\<close>. \<open>contents s k\<close> is what the store holds for stream \<open>k\<close>;
  storing may evict old events of that stream but never the one just stored and never an event
  of another stream.
\<close>

locale event_store =
  fixes store :: "'s \<Rightarrow> string \<Rightarrow> stored_event \<Rightarrow> 's \<times> store_error"
    and replay :: "'s \<Rightarrow> string \<Rightarrow> string \<Rightarrow> stored_event list \<times> store_error"
    and trim :: "'s \<Rightarrow> string \<Rightarrow> 's \<times> store_error"
    and contents :: "'s \<Rightarrow> string \<Rightarrow> stored_event list"
    and inv :: "'s \<Rightarrow> bool"
  assumes inv_store: "inv s \<Longrightarrow> inv (fst (store s k e))"
    and inv_trim: "inv s \<Longrightarrow> inv (fst (trim s k))"
    and contents_store:
      "inv s \<Longrightarrow> \<exists>n \<le> length (contents s k). contents (fst (store s k e)) k = drop n (contents s k) @ [e]"
    and contents_store_other:
      "k' \<noteq> k \<Longrightarrow> contents (fst (store s k e)) k' = contents s k'"
    and contents_trim: "contents (fst (trim s k)) = (contents s)(k := [])"
    and replay_contents: "fst (replay s k ident) = replay_spec (contents s k) ident"
    and no_error: "snd (store s k e) = None" "snd (replay s k ident) = None" "snd (trim s k) = None"
begin

lemma inv_store_all: "inv s \<Longrightarrow> inv (store_all store s k es)"
  by (induction es arbitrary: s) (simp_all add: inv_store)

lemma contents_store_all:
  "inv s \<Longrightarrow> \<exists>n. contents (store_all store s k es) k = drop n (contents s k @ es)"
proof (induction es rule: rev_induct)
  case Nil
  show ?case using drop_0 [of "contents s k"] by (metis append_Nil2 store_all_simps(1))
next
  case (snoc e es)
  then obtain n where n: "contents (store_all store s k es) k = drop n (contents s k @ es)" by blast
  obtain m where m: "m \<le> length (contents (store_all store s k es) k)"
    "contents (store_all store s k (es @ [e])) k = drop m (contents (store_all store s k es) k) @ [e]"
    using contents_store [OF inv_store_all [OF snoc.prems], of k es k e] by auto
  have "\<exists>j. drop m (drop n (contents s k @ es)) @ [e] = drop j ((contents s k @ es) @ [e])"
    using m(1) n by (intro drop_snoc_drop) simp
  then show ?case using m(2) n by simp
qed

text \<open>
  Resumption: a client that saw a stream up to the event \<open>a\<close> and reconnects with its id gets
  every later event that the store still holds after \<open>a\<close>, or everything it still holds when \<open>a\<close>
  was evicted; with distinct ids it never gets an event twice.
\<close>

lemma resume_exact:
  assumes "inv s" and "distinct (map ev_ID (contents s k @ seen @ a # missed))"
    and "a \<in> set (contents (store_all store s k (seen @ a # missed)) k)"
  shows "fst (replay (store_all store s k (seen @ a # missed)) k (ev_ID a)) = missed"
proof -
  let ?h = "contents s k @ seen"
  obtain n where n: "contents (store_all store s k (seen @ a # missed)) k = drop n (?h @ a # missed)"
    using contents_store_all [OF assms(1), of k "seen @ a # missed"] by auto
  have dist: "ev_ID a \<notin> ev_ID ` set ?h" "ev_ID a \<notin> ev_ID ` set missed" "a \<notin> set missed"
    using assms(2) by auto
  have "n \<le> length ?h"
  proof (rule ccontr)
    assume "\<not> n \<le> length ?h"
    then obtain j where "n = length ?h + Suc j" by (metis add_Suc_right less_imp_Suc_add not_le)
    then have "drop n (?h @ a # missed) = drop j missed" by simp
    then show False using assms(3) n dist(3) in_set_dropD by metis
  qed
  then have "contents (store_all store s k (seen @ a # missed)) k = drop n ?h @ a # missed"
    using n by simp
  moreover have "ev_ID a \<notin> ev_ID ` set (drop n ?h)" using dist(1) in_set_dropD by fastforce
  ultimately show ?thesis
    using replay_spec_hit [of "ev_ID a" "drop n ?h" a missed] by (simp add: replay_contents del: drop_append)
qed

lemma resume_evicted:
  assumes "ident \<notin> ev_ID ` set (contents s k)"
  shows "fst (replay s k ident) = contents s k"
  using assms by (simp add: replay_contents replay_spec_miss)

end

text \<open>A store that bounds each stream, and keeps the newest events up to the bound.\<close>

locale bounded_event_store = event_store store replay trim contents inv
  for store :: "'s \<Rightarrow> string \<Rightarrow> stored_event \<Rightarrow> 's \<times> store_error"
    and replay :: "'s \<Rightarrow> string \<Rightarrow> string \<Rightarrow> stored_event list \<times> store_error"
    and trim :: "'s \<Rightarrow> string \<Rightarrow> 's \<times> store_error"
    and contents :: "'s \<Rightarrow> string \<Rightarrow> stored_event list"
    and inv :: "'s \<Rightarrow> bool" +
  fixes bound :: "'s \<Rightarrow> nat"
  assumes bound_store: "bound (fst (store s k e)) = bound s"
    and bound_trim: "bound (fst (trim s k)) = bound s"
    and store_newest:
      "inv s \<Longrightarrow> contents (fst (store s k e)) k = window (bound s) (contents s k @ [e])"
    and contents_bound: "inv s \<Longrightarrow> length (contents s k) \<le> bound s"
begin

lemma bound_store_all: "bound (store_all store s k es) = bound s"
  by (induction es arbitrary: s) (simp_all add: bound_store)

lemma store_all_newest:
  assumes "inv s"
  shows "contents (store_all store s k es) k = window (bound s) (contents s k @ es)"
proof (induction es rule: rev_induct)
  case Nil
  then show ?case using contents_bound [OF assms, of k] by (simp add: window_id)
next
  case (snoc e es)
  have "contents (store_all store s k (es @ [e])) k =
      window (bound s) (window (bound s) (contents s k @ es) @ [e])"
    using store_newest [OF inv_store_all [OF assms]] snoc.IH by (simp add: bound_store_all)
  then show ?case by (simp only: window_window_snoc append_assoc)
qed

lemma recent_in_contents:
  assumes "inv s" and "length missed < bound s"
  shows "a \<in> set (contents (store_all store s k (seen @ a # missed)) k)"
proof -
  let ?h = "contents s k @ seen"
  have eq: "contents (store_all store s k (seen @ a # missed)) k =
    drop (length (?h @ a # missed) - bound s) (?h @ a # missed)"
    unfolding window_def [symmetric] using store_all_newest [OF assms(1), of k "seen @ a # missed"] by simp
  have "length (?h @ a # missed) - bound s \<le> length ?h"
    using assms(2) by simp
  then show ?thesis unfolding eq by simp
qed

end

section \<open>The in-memory store\<close>

definition NewMemoryEventStore :: "int \<Rightarrow> memory_event_store" where
  "NewMemoryEventStore n =
     \<lparr>streams = Map.empty, maxPerStream = (if n \<le> 0 then 1000 else n)\<rparr>"

text \<open>Reading a missing key of a Go map gives the zero value, the empty slice.\<close>

definition events_of :: "memory_event_store \<Rightarrow> string \<Rightarrow> stored_event list" where
  "events_of s k = (case streams s k of None \<Rightarrow> [] | Some es \<Rightarrow> es)"

definition Store ::
  "memory_event_store \<Rightarrow> string \<Rightarrow> stored_event \<Rightarrow> memory_event_store \<times> store_error" where
  "Store s streamID event =
     (let events = events_of s streamID @ [event];
          events = (if maxPerStream s < int (length events)
                    then drop (nat (int (length events) - maxPerStream s)) events
                    else events)
      in (s\<lparr>streams := (streams s)(streamID \<mapsto> events)\<rparr>, None))"

text \<open>
  \<open>replay_scan\<close> is the loop of \<open>Replay\<close>: it looks for the anchor from index \<open>i\<close> on.
\<close>

function replay_scan :: "stored_event list \<Rightarrow> string \<Rightarrow> nat \<Rightarrow> stored_event list" where
  "replay_scan events lastEventID i =
     (if i < length events then
        (if ev_ID (events ! i) = lastEventID then
           (if length events \<le> i + 1 then [] else drop (i + 1) events)
         else replay_scan events lastEventID (i + 1))
      else events)"
  by pat_completeness auto
termination
  by (relation "measure (\<lambda>(events, lastEventID, i). length events - i)") auto

declare replay_scan.simps [simp del]

definition Replay ::
  "memory_event_store \<Rightarrow> string \<Rightarrow> string \<Rightarrow> stored_event list \<times> store_error" where
  "Replay s streamID lastEventID =
     (let events = events_of s streamID in
      if length events = 0 then ([], None)
      else (replay_scan events lastEventID 0, None))"

definition TrimStream :: "memory_event_store \<Rightarrow> string \<Rightarrow> memory_event_store \<times> store_error" where
  "TrimStream s streamID = (s\<lparr>streams := (streams s)(streamID := None)\<rparr>, None)"

section \<open>The in-memory store keeps the contract\<close>

definition store_inv :: "memory_event_store \<Rightarrow> bool" where
  "store_inv s \<longleftrightarrow> 0 < maxPerStream s \<and> (\<forall>k. int (length (events_of s k)) \<le> maxPerStream s)"

lemma store_inv_New: "store_inv (NewMemoryEventStore n)"
  by (simp add: store_inv_def NewMemoryEventStore_def events_of_def)

lemma events_of_Store [simp, go_state]:
  "events_of (fst (Store s k e)) k' =
     (if k' = k then drop (nat (int (Suc (length (events_of s k))) - maxPerStream s)) (events_of s k @ [e])
      else events_of s k')"
  by (auto simp: Store_def Let_def events_of_def)

lemma events_of_TrimStream [simp, go_state]:
  "events_of (fst (TrimStream s k)) = (events_of s)(k := [])"
  by (auto simp: TrimStream_def events_of_def)

lemma maxPerStream_frame [simp, go_state]:
  "maxPerStream (fst (Store s k e)) = maxPerStream s"
  "maxPerStream (fst (TrimStream s k)) = maxPerStream s"
  by (simp_all add: Store_def TrimStream_def Let_def)

lemma store_inv_Store: "store_inv s \<Longrightarrow> store_inv (fst (Store s k e))"
  by (auto simp: store_inv_def)

lemma store_inv_TrimStream: "store_inv s \<Longrightarrow> store_inv (fst (TrimStream s k))"
  by (simp add: store_inv_def)

lemma replay_scan_spec:
  "i \<le> length events \<Longrightarrow> ident \<notin> ev_ID ` set (take i events) \<Longrightarrow>
   replay_scan events ident i = replay_spec events ident"
proof (induction "length events - i" arbitrary: i)
  case 0
  then have "i = length events" by simp
  then show ?case using 0 replay_spec_miss [of ident events]
    by (subst replay_scan.simps) simp
next
  case (Suc d)
  then have lt: "i < length events" by simp
  then have split: "events = take i events @ events ! i # drop (i + 1) events"
    by (simp add: id_take_nth_drop)
  show ?case
  proof (cases "ev_ID (events ! i) = ident")
    case True
    then have "replay_spec events ident = drop (i + 1) events"
      using Suc.prems(2) split replay_spec_hit by metis
    then show ?thesis using lt True by (subst replay_scan.simps) simp
  next
    case False
    then have "replay_scan events ident (i + 1) = replay_spec events ident"
      using Suc lt by (intro Suc.hyps) (auto simp: take_Suc_conv_app_nth)
    then show ?thesis using lt False by (subst replay_scan.simps) simp
  qed
qed

lemma Replay_spec: "fst (Replay s k ident) = replay_spec (events_of s k) ident"
  by (simp add: Replay_def Let_def replay_scan_spec replay_spec_def)

interpretation mem: bounded_event_store Store Replay TrimStream events_of store_inv
  "\<lambda>s. nat (maxPerStream s)"
proof unfold_locales
  fix s :: memory_event_store and k k' :: string and e :: stored_event and ident :: string
  show "store_inv s \<Longrightarrow> store_inv (fst (Store s k e))" by (rule store_inv_Store)
  show "store_inv s \<Longrightarrow> store_inv (fst (TrimStream s k))" by (rule store_inv_TrimStream)
  show "fst (Replay s k ident) = replay_spec (events_of s k) ident" by (rule Replay_spec)
  show "snd (Store s k e) = None" "snd (Replay s k ident) = None" "snd (TrimStream s k) = None"
    by (simp_all add: Store_def Replay_def TrimStream_def Let_def)
  show "k' \<noteq> k \<Longrightarrow> events_of (fst (Store s k e)) k' = events_of s k'" by simp
  show "events_of (fst (TrimStream s k)) = (events_of s)(k := [])" by simp
  show "nat (maxPerStream (fst (Store s k e))) = nat (maxPerStream s)"
    "nat (maxPerStream (fst (TrimStream s k))) = nat (maxPerStream s)" by simp_all
  assume inv: "store_inv s"
  then have m: "0 < maxPerStream s" "int (length (events_of s k)) \<le> maxPerStream s"
    by (simp_all add: store_inv_def)
  then show "length (events_of s k) \<le> nat (maxPerStream s)" by simp
  from m have d: "nat (int (Suc (length (events_of s k))) - maxPerStream s)
    = Suc (length (events_of s k)) - nat (maxPerStream s)" by simp
  then show "events_of (fst (Store s k e)) k =
    window (nat (maxPerStream s)) (events_of s k @ [e])" by (simp add: window_def)
  show "\<exists>n \<le> length (events_of s k). events_of (fst (Store s k e)) k = drop n (events_of s k) @ [e]"
    using m d by (intro exI [of _ "Suc (length (events_of s k)) - nat (maxPerStream s)"]) simp
qed

section \<open>Runs\<close>

datatype store_op = OpStore string stored_event | OpReplay string string | OpTrim string

fun store_step :: "memory_event_store \<Rightarrow> store_op \<Rightarrow> memory_event_store" where
  "store_step s (OpStore k e) = fst (Store s k e)"
| "store_step s (OpReplay k ident) = s"
| "store_step s (OpTrim k) = fst (TrimStream s k)"

definition run_store :: "memory_event_store \<Rightarrow> store_op list \<Rightarrow> memory_event_store" where
  "run_store s ops = fold (\<lambda>op s. store_step s op) ops s"

text \<open>
  The abstract store is unbounded: the history of each stream since it was last trimmed.
\<close>

fun history_step ::
  "(string \<Rightarrow> stored_event list) \<Rightarrow> store_op \<Rightarrow> string \<Rightarrow> stored_event list" where
  "history_step h (OpStore k e) = h(k := h k @ [e])"
| "history_step h (OpReplay k ident) = h"
| "history_step h (OpTrim k) = h(k := [])"

definition history :: "store_op list \<Rightarrow> string \<Rightarrow> stored_event list" where
  "history ops = fold (\<lambda>op h. history_step h op) ops (\<lambda>_. [])"

definition refines :: "memory_event_store \<Rightarrow> (string \<Rightarrow> stored_event list) \<Rightarrow> bool" where
  "refines s h \<longleftrightarrow> store_inv s \<and> (\<forall>k. events_of s k = window (nat (maxPerStream s)) (h k))"

lemma refines_step:
  assumes "refines s h"
  shows "refines (store_step s op) (history_step h op)"
proof (cases op)
  case (OpStore k e)
  have "events_of (fst (Store s k e)) k = window (nat (maxPerStream s)) (events_of s k @ [e])"
    using assms mem.store_newest unfolding refines_def by blast
  also have "\<dots> = window (nat (maxPerStream s)) (h k @ [e])"
    using assms by (simp add: refines_def window_window_snoc)
  finally show ?thesis
    using assms mem.inv_store mem.contents_store_other unfolding OpStore
    by (simp add: refines_def del: events_of_Store)
next
  case (OpTrim k)
  then show ?thesis using assms mem.inv_trim by (simp add: refines_def window_def)
qed (use assms in simp)

lemma refines_run:
  "refines s h \<Longrightarrow>
   refines (run_store s ops) (fold (\<lambda>op h. history_step h op) ops h)"
  by (induction ops arbitrary: s h) (simp_all add: run_store_def refines_step)

lemma run_store_refines: "refines (run_store (NewMemoryEventStore n) ops) (history ops)"
  unfolding history_def
  by (rule refines_run)
     (simp add: refines_def store_inv_New window_def, simp add: NewMemoryEventStore_def events_of_def)

lemma maxPerStream_run: "maxPerStream (run_store s ops) = maxPerStream s"
proof -
  have "maxPerStream (store_step s op) = maxPerStream s" for s op by (cases op) auto
  then show ?thesis by (induction ops arbitrary: s) (simp_all add: run_store_def)
qed

section \<open>Properties\<close>

text \<open>
  C10: The bounded store is the window of the unbounded one. After any sequence of Store, Replay
  and Trim calls on a new store, every stream holds exactly the newest maxPerStream events stored
  since it was last trimmed, in order, and Replay answers from that window: what follows the
  first event with the given id, or the whole window when the id is not in it.
\<close>

theorem event_store_refines_history:
  "events_of (run_store (NewMemoryEventStore n) ops) k =
     window (if n \<le> 0 then 1000 else nat n) (history ops k) \<and>
   Replay (run_store (NewMemoryEventStore n) ops) k ident =
     (replay_spec (window (if n \<le> 0 then 1000 else nat n) (history ops k)) ident, None)"
proof -
  let ?s = "run_store (NewMemoryEventStore n) ops"
  have "nat (maxPerStream ?s) = (if n \<le> 0 then 1000 else nat n)"
    by (simp add: maxPerStream_run NewMemoryEventStore_def)
  then have "events_of ?s k = window (if n \<le> 0 then 1000 else nat n) (history ops k)"
    using run_store_refines [of n ops] by (simp add: refines_def)
  then show ?thesis
    using Replay_spec [of ?s k ident] mem.no_error(2) [of ?s k ident]
    by (metis prod.collapse)
qed

text \<open>
  A client resumes without loss and without repetition. If the ids of a stream are distinct
  and fewer than maxPerStream events were stored after the last one the client saw, Replay with
  the id of that event returns exactly the events the client missed, in order.
\<close>

theorem event_store_resume:
  assumes "store_inv s" and "distinct (map ev_ID (events_of s k @ seen @ a # missed))"
    and "int (length missed) < maxPerStream s"
  shows "fst (Replay (store_all Store s k (seen @ a # missed)) k (ev_ID a)) = missed"
proof -
  have "a \<in> set (events_of (store_all Store s k (seen @ a # missed)) k)"
    using assms(1,3) by (intro mem.recent_in_contents) auto
  with assms(1,2) show ?thesis by (rule mem.resume_exact)
qed

theorem event_store_resume_witness:
  "let ev = (\<lambda>i. \<lparr>ev_ID = i, ev_Event = [], ev_Data = i\<rparr>) in
   fst (Replay (store_all Store (NewMemoryEventStore 2) ''s'' ([ev ''1'', ev ''2''] @ ev ''3'' # [ev ''4''])) ''s'' ''3'')
     = [ev ''4'']"
  unfolding Let_def
  using event_store_resume [of "NewMemoryEventStore 2" "''s''"
      "[\<lparr>ev_ID = ''1'', ev_Event = [], ev_Data = ''1''\<rparr>, \<lparr>ev_ID = ''2'', ev_Event = [], ev_Data = ''2''\<rparr>]"
      "\<lparr>ev_ID = ''3'', ev_Event = [], ev_Data = ''3''\<rparr>"
      "[\<lparr>ev_ID = ''4'', ev_Event = [], ev_Data = ''4''\<rparr>]"] store_inv_New [of 2]
  by (simp add: NewMemoryEventStore_def events_of_def)

end
