(* ===== verification/HttpModel.thy ===== *)
theory HttpModel
  imports GoStrings Complex_Main
begin

text \<open>
  The part of Go's \<open>net/http\<close> that the repository calls: canonical header maps, requests, the
  response a handler writes, contexts, and handlers as functions from a request and the world to
  an outcome and the next world. The world holds what the handlers of one server share: the
  response being written, the structured log, the clock, the random source, the connection
  counters and rate limiters by address, and the application's own state.
\<close>

section \<open>Headers\<close>

text \<open>\<open>textproto.CanonicalMIMEHeaderKey\<close>: a name with a byte that is no token byte is kept.\<close>

definition is_token_char :: "char \<Rightarrow> bool" where
  "is_token_char c \<longleftrightarrow>
     c \<in> set ''!#$%&'' \<or> c \<in> {CHR 0x27, CHR 0x2A, CHR 0x2B, CHR 0x2D, CHR 0x2E, CHR 0x5E, CHR 0x5F,
       CHR 0x60, CHR 0x7C, CHR 0x7E} \<or> is_digit c \<or> to_lower c \<noteq> c \<or> to_upper c \<noteq> c"

fun canon :: "bool \<Rightarrow> string \<Rightarrow> string" where
  "canon up [] = []"
| "canon up (c # cs) = (if up then to_upper c else to_lower c) # canon (c = CHR ''-'') cs"

definition canonical_key :: "string \<Rightarrow> string" where
  "canonical_key k = (if list_all is_token_char k then canon True k else k)"

lemma length_canonical_key: "length (canonical_key k) = length k"
proof -
  have "length (canon up s) = length s" for up s by (induction up s rule: canon.induct) simp_all
  then show ?thesis by (simp add: canonical_key_def)
qed

lemma canonical_key_neq: "length a \<noteq> length b \<Longrightarrow> canonical_key a \<noteq> canonical_key b"
  using length_canonical_key by metis

type_synonym header = "string \<Rightarrow> string list option"

definition header_get :: "header \<Rightarrow> string \<Rightarrow> string" where
  "header_get h k = (case h (canonical_key k) of Some (v # vs) \<Rightarrow> v | _ \<Rightarrow> [])"

definition header_set :: "string \<Rightarrow> string \<Rightarrow> header \<Rightarrow> header" where
  "header_set k v h = h(canonical_key k \<mapsto> [v])"

definition header_add :: "string \<Rightarrow> string \<Rightarrow> header \<Rightarrow> header" where
  "header_add k v h = h(canonical_key k \<mapsto> (case h (canonical_key k) of Some vs \<Rightarrow> vs | None \<Rightarrow> []) @ [v])"

definition header_del :: "string \<Rightarrow> header \<Rightarrow> header" where
  "header_del k h = h(canonical_key k := None)"

lemma header_get_set [simp, go_http]:
  "header_get (header_set k v h) k' = (if canonical_key k' = canonical_key k then v else header_get h k')"
  by (simp add: header_get_def header_set_def)

lemma header_get_del [simp, go_http]:
  "header_get (header_del k h) k' = (if canonical_key k' = canonical_key k then [] else header_get h k')"
  by (simp add: header_get_def header_del_def)

lemma header_get_cong: "h (canonical_key k) = h' (canonical_key k) \<Longrightarrow> header_get h k = header_get h' k"
  by (simp add: header_get_def)

section \<open>Requests\<close>

text \<open>
  A request body: raw bytes, or the reader that \<open>http.MaxBytesReader\<close> puts around a body.
  \<open>body_read_all\<close> is what reading it to the end gives: the bytes, and whether it ended with an
  error instead of the end of file.
\<close>

datatype body = RawBody bytes | MaxBytes int body

fun body_read_all :: "body \<Rightarrow> bytes \<times> bool" where
  "body_read_all (RawBody b) = (b, False)"
| "body_read_all (MaxBytes n b) =
     (case body_read_all b of (bs, e) \<Rightarrow>
        if int (length bs) \<le> max 0 n then (bs, e) else (take (nat n) bs, True))"

datatype ctx_key = RequestIDKey | AppKey string

record request =
  Method :: string
  Path :: string
  RemoteAddr :: string
  Host :: string
  Header :: header
  Body :: body
  Ctx :: "(ctx_key \<times> string) list"

text \<open>The parsed query of a request: \<open>r.URL.Query().Get(key)\<close> is the first value, or empty.\<close>

type_synonym query_values = "string \<rightharpoonup> string list"

definition Query_Get :: "query_values \<Rightarrow> string \<Rightarrow> string" where
  "Query_Get q key = (case q key of Some (v # vs) \<Rightarrow> v | _ \<Rightarrow> [])"

section \<open>The world of a server\<close>

text \<open>
  \<open>can_flush\<close> says whether the response writer the handler got implements \<open>http.Flusher\<close>.
  \<open>recorded\<close> is the last status passed to \<open>WriteHeader\<close> through a wrapper that records it.
\<close>

datatype level = Info | Warn | Error

datatype attr = AStr string | AInt int | ADuration int

datatype log_entry = LogEntry level string "(string \<times> attr) list"

record ('b, 'x) world =
  resp_header :: header
  sent :: "(int \<times> header) option"
  resp_body :: bytes
  can_flush :: bool
  recorded :: "int option"
  log :: "log_entry list"
  clock :: int
  random_bytes :: "nat \<Rightarrow> char"
  conn_active :: "nat \<Rightarrow> int"
  buckets :: "nat \<Rightarrow> 'b option"
  key_buckets :: "nat \<Rightarrow> string \<Rightarrow> ('b \<times> int) option"
  app :: 'x

text \<open>A world in which nothing has happened yet.\<close>

definition fresh_world :: "'x \<Rightarrow> ('b, 'x) world" where
  "fresh_world a = \<lparr>resp_header = (\<lambda>k. None), sent = None, resp_body = [], can_flush = True, recorded = None,
     log = [], clock = 0, random_bytes = (\<lambda>i. NUL), conn_active = (\<lambda>i. 0), buckets = (\<lambda>i. None),
     key_buckets = (\<lambda>i k. None), app = a\<rparr>"

lemma fresh_world_simps [simp]:
  "sent (fresh_world a) = None" "resp_body (fresh_world a) = []" "can_flush (fresh_world a)"
  "log (fresh_world a) = []" "app (fresh_world a) = a" "conn_active (fresh_world a) = (\<lambda>i. 0)"
  "resp_header (fresh_world a) = (\<lambda>k. None)"
  by (simp_all add: fresh_world_def)

type_synonym ('b, 'x) handler = "request \<Rightarrow> ('b, 'x) world \<Rightarrow> outcome \<times> ('b, 'x) world"
type_synonym ('b, 'x) middleware = "('b, 'x) handler \<Rightarrow> ('b, 'x) handler"

section \<open>Writing the response\<close>

text \<open>
  \<open>WriteHeader\<close> of the server's response writer: the first final status is sent with a snapshot
  of the header; later calls are ignored, and an informational status is not the response.
  \<open>WriteHeader\<close> is the call a handler makes, which a wrapper sees; the implicit one of the first
  \<open>Write\<close> happens inside the server's writer.
\<close>

definition send_header :: "int \<Rightarrow> ('b, 'x) world \<Rightarrow> ('b, 'x) world" where
  "send_header code w =
     (if sent w \<noteq> None \<or> 100 \<le> code \<and> code \<le> 199 \<and> code \<noteq> 101 then w
      else w\<lparr>sent := Some (code, resp_header w)\<rparr>)"

definition WriteHeader :: "int \<Rightarrow> ('b, 'x) world \<Rightarrow> ('b, 'x) world" where
  "WriteHeader code w = send_header code (w\<lparr>recorded := Some code\<rparr>)"

definition body_allowed :: "int \<Rightarrow> bool" where
  "body_allowed code \<longleftrightarrow> \<not> (100 \<le> code \<and> code \<le> 199) \<and> code \<noteq> 204 \<and> code \<noteq> 304"

definition Write_resp :: "bytes \<Rightarrow> ('b, 'x) world \<Rightarrow> ('b, 'x) world" where
  "Write_resp b w =
     (let w = send_header 200 w in
      case sent w of
        Some (code, h) \<Rightarrow> if body_allowed code then w\<lparr>resp_body := resp_body w @ b\<rparr> else w
      | None \<Rightarrow> w)"

definition SetHeader :: "string \<Rightarrow> string \<Rightarrow> ('b, 'x) world \<Rightarrow> ('b, 'x) world" where
  "SetHeader k v w = w\<lparr>resp_header := header_set k v (resp_header w)\<rparr>"

text \<open>\<open>http.Error\<close> and \<open>http.NotFound\<close>.\<close>

definition http_Error :: "string \<Rightarrow> int \<Rightarrow> ('b, 'x) world \<Rightarrow> ('b, 'x) world" where
  "http_Error msg code w =
     (let w = w\<lparr>resp_header := header_del ''Content-Length'' (resp_header w)\<rparr>;
          w = SetHeader ''Content-Type'' ''text/plain; charset=utf-8'' w;
          w = SetHeader ''X-Content-Type-Options'' ''nosniff'' w;
          w = WriteHeader code w
      in Write_resp (msg @ [LF]) w)"

definition http_NotFound :: "('b, 'x) world \<Rightarrow> ('b, 'x) world" where
  "http_NotFound w = http_Error ''404 page not found'' 404 w"

definition slog :: "level \<Rightarrow> string \<Rightarrow> (string \<times> attr) list \<Rightarrow> ('b, 'x) world \<Rightarrow> ('b, 'x) world" where
  "slog l msg as w = w\<lparr>log := log w @ [LogEntry l msg as]\<rparr>"

text \<open>The status the client sees when the handler has returned: 200 when none was written.\<close>

definition final_status :: "('b, 'x) world \<Rightarrow> int" where
  "final_status w = (case sent w of Some (code, h) \<Rightarrow> code | None \<Rightarrow> 200)"

lemma send_header_fresh:
  "sent w = None \<Longrightarrow> 200 \<le> code \<Longrightarrow> send_header code w = w\<lparr>sent := Some (code, resp_header w)\<rparr>"
  by (simp add: send_header_def)

lemma WriteHeader_fresh:
  "sent w = None \<Longrightarrow> 200 \<le> code \<Longrightarrow>
   WriteHeader code w = w\<lparr>recorded := Some code, sent := Some (code, resp_header w)\<rparr>"
  by (simp add: WriteHeader_def send_header_fresh)

lemma send_header_sent: "sent w \<noteq> None \<Longrightarrow> send_header code w = w"
  by (simp add: send_header_def)

lemma send_header_frame [simp, go_http]:
  "resp_header (send_header c w) = resp_header w" "resp_body (send_header c w) = resp_body w"
  "can_flush (send_header c w) = can_flush w" "log (send_header c w) = log w"
  "clock (send_header c w) = clock w" "random_bytes (send_header c w) = random_bytes w"
  "conn_active (send_header c w) = conn_active w" "buckets (send_header c w) = buckets w"
  "key_buckets (send_header c w) = key_buckets w" "app (send_header c w) = app w"
  "recorded (send_header c w) = recorded w"
  by (simp_all add: send_header_def)

lemma WriteHeader_frame [simp, go_http]:
  "resp_header (WriteHeader c w) = resp_header w" "resp_body (WriteHeader c w) = resp_body w"
  "can_flush (WriteHeader c w) = can_flush w" "log (WriteHeader c w) = log w"
  "clock (WriteHeader c w) = clock w" "random_bytes (WriteHeader c w) = random_bytes w"
  "conn_active (WriteHeader c w) = conn_active w" "buckets (WriteHeader c w) = buckets w"
  "key_buckets (WriteHeader c w) = key_buckets w" "app (WriteHeader c w) = app w"
  "recorded (WriteHeader c w) = Some c"
  by (simp_all add: WriteHeader_def)

lemma Write_resp_frame [simp, go_http]:
  "resp_header (Write_resp b w) = resp_header w" "can_flush (Write_resp b w) = can_flush w"
  "log (Write_resp b w) = log w" "clock (Write_resp b w) = clock w"
  "random_bytes (Write_resp b w) = random_bytes w" "conn_active (Write_resp b w) = conn_active w"
  "buckets (Write_resp b w) = buckets w" "key_buckets (Write_resp b w) = key_buckets w"
  "app (Write_resp b w) = app w" "recorded (Write_resp b w) = recorded w"
  "sent (Write_resp b w) = sent (send_header 200 w)"
  by (simp_all add: Write_resp_def Let_def split: option.split)

lemma SetHeader_frame [simp, go_http]:
  "resp_body (SetHeader k v w) = resp_body w" "can_flush (SetHeader k v w) = can_flush w"
  "log (SetHeader k v w) = log w" "clock (SetHeader k v w) = clock w"
  "random_bytes (SetHeader k v w) = random_bytes w" "conn_active (SetHeader k v w) = conn_active w"
  "buckets (SetHeader k v w) = buckets w" "key_buckets (SetHeader k v w) = key_buckets w"
  "app (SetHeader k v w) = app w" "sent (SetHeader k v w) = sent w"
  "recorded (SetHeader k v w) = recorded w"
  "resp_header (SetHeader k v w) = header_set k v (resp_header w)"
  by (simp_all add: SetHeader_def)

lemma slog_frame [simp, go_http]:
  "resp_header (slog l m as w) = resp_header w" "resp_body (slog l m as w) = resp_body w"
  "can_flush (slog l m as w) = can_flush w" "clock (slog l m as w) = clock w"
  "random_bytes (slog l m as w) = random_bytes w" "conn_active (slog l m as w) = conn_active w"
  "buckets (slog l m as w) = buckets w" "key_buckets (slog l m as w) = key_buckets w"
  "app (slog l m as w) = app w" "sent (slog l m as w) = sent w"
  "recorded (slog l m as w) = recorded w"
  "log (slog l m as w) = log w @ [LogEntry l m as]"
  by (simp_all add: slog_def)

lemma http_Error_frame [simp, go_http]:
  "can_flush (http_Error m c w) = can_flush w" "log (http_Error m c w) = log w"
  "clock (http_Error m c w) = clock w" "random_bytes (http_Error m c w) = random_bytes w"
  "conn_active (http_Error m c w) = conn_active w" "buckets (http_Error m c w) = buckets w"
  "key_buckets (http_Error m c w) = key_buckets w" "app (http_Error m c w) = app w"
  "recorded (http_Error m c w) = Some c"
  by (simp_all add: http_Error_def Let_def)

lemma final_status_http_Error [simp, go_http]:
  "200 \<le> c \<Longrightarrow> final_status (http_Error m c w) = (if sent w = None then c else final_status w)"
  by (auto simp: http_Error_def final_status_def Let_def WriteHeader_def send_header_def split: option.split)

lemma final_status_simps [simp, go_http]:
  "200 \<le> c \<Longrightarrow> final_status (WriteHeader c w) = (if sent w = None then c else final_status w)"
  "final_status (Write_resp b w) = final_status w"
  "final_status (SetHeader k v w) = final_status w"
  by (cases "sent w"; simp add: final_status_def WriteHeader_def send_header_def)+

lemma resp_body_http_Error:
  "200 \<le> c \<Longrightarrow> body_allowed c \<Longrightarrow> sent w = None \<Longrightarrow>
   resp_body (http_Error m c w) = resp_body w @ m @ [LF]"
  by (simp add: http_Error_def Let_def Write_resp_def WriteHeader_def send_header_def)

lemma final_status_slog [simp, go_http]: "final_status (slog l m as w) = final_status w"
  by (simp add: final_status_def)

text \<open>A response whose header went out keeps its status whatever is written later.\<close>

lemma sent_stays:
  "sent w = Some s \<Longrightarrow> sent (WriteHeader c w) = Some s"
  "sent w = Some s \<Longrightarrow> sent (Write_resp b w) = Some s"
  "sent w = Some s \<Longrightarrow> sent (http_Error m c w) = Some s"
  by (simp_all add: WriteHeader_def send_header_def http_Error_def Let_def)

end
