(* ===== verification/AuthRetry.thy ===== *)
theory AuthRetry
  imports HttpModel Bufio
begin

text \<open>
  \<open>http/www_authenticate.go\<close> and \<open>http/auth_retry.go\<close>: the parser of Bearer challenges, and the
  retry loop on 401 and 403 with its budget. What the caller passes in (\<open>buildReq\<close>, \<open>do\<close> and
  the three callbacks) are parameters over the caller's state.
\<close>

section \<open>Challenges\<close>

function param_loop :: "string \<Rightarrow> string \<Rightarrow> nat \<Rightarrow> nat option" where
  "param_loop header name idx =
     (if idx = 0 \<or> header ! (idx - 1) = SP \<or> header ! (idx - 1) = CHR '','' then Some idx
      else (case Index (drop (idx + 1) header) (name @ ''='') of
          None \<Rightarrow> None
        | Some nxt \<Rightarrow> param_loop header name (idx + 1 + nxt)))"
  by pat_completeness auto
termination
  by (relation "measure (\<lambda>(header, name, idx). Suc (length header) - idx)")
     (auto dest!: Index_Some_bound)

declare param_loop.simps [simp del]

definition param_value :: "string \<Rightarrow> string" where
  "param_value rest =
     (if rest \<noteq> [] \<and> hd rest = QUOTE
      then (case Index (tl rest) [QUOTE] of None \<Rightarrow> tl rest | Some e \<Rightarrow> take e (tl rest))
      else (case IndexAny rest '', '' of None \<Rightarrow> rest | Some e \<Rightarrow> take e rest))"

definition extractWWWAuthParam :: "string \<Rightarrow> string \<Rightarrow> string" where
  "extractWWWAuthParam header name =
     (case Index header (name @ ''='') of
        None \<Rightarrow> []
      | Some idx \<Rightarrow>
          (case param_loop header name idx of
             None \<Rightarrow> []
           | Some idx \<Rightarrow> param_value (drop (idx + length (name @ ''='')) header)))"

definition ParseWWWAuthenticate :: "string \<Rightarrow> string \<times> string list" where
  "ParseWWWAuthenticate header =
     (let header = TrimSpace header;
          header = (if HasPrefix header ''Bearer '' then drop (length ''Bearer '') header else header);
          resourceMetadata = extractWWWAuthParam header ''resource_metadata'';
          scopeStr = extractWWWAuthParam header ''scope''
      in (resourceMetadata, if scopeStr \<noteq> [] then Fields scopeStr else []))"

section \<open>The parameter search against its specification\<close>

text \<open>
  A position is proper when the name and its equals sign stand there, at the start of the header
  or after a space or a comma.
\<close>

definition proper :: "string \<Rightarrow> string \<Rightarrow> nat \<Rightarrow> bool" where
  "proper header name i \<longleftrightarrow> HasPrefix (drop i header) (name @ ''='') \<and>
     (i = 0 \<or> header ! (i - 1) = SP \<or> header ! (i - 1) = CHR '','')"

lemma Index_least:
  "sub \<noteq> [] \<Longrightarrow> Index s sub = Some i \<Longrightarrow> j < i \<Longrightarrow> \<not> HasPrefix (drop j s) sub"
proof (induction s arbitrary: i j)
  case (Cons x xs)
  then show ?case by (cases j) (auto split: if_splits)
qed simp

lemma Index_none:
  "sub \<noteq> [] \<Longrightarrow> Index s sub = None \<Longrightarrow> \<not> HasPrefix (drop j s) sub"
proof (induction s arbitrary: j)
  case Nil
  then show ?case by (simp add: HasPrefix_def)
next
  case (Cons x xs)
  then show ?case by (cases j) (auto split: if_splits)
qed

lemma param_loop_spec:
  assumes "HasPrefix (drop idx header) (name @ ''='')" and "\<forall>i < idx. \<not> proper header name i"
  shows "case param_loop header name idx of
      None \<Rightarrow> \<forall>i. \<not> proper header name i
    | Some j \<Rightarrow> proper header name j \<and> (\<forall>i < j. \<not> proper header name i)"
  using assms
proof (induction header name idx rule: param_loop.induct)
  case (1 header name idx)
  let ?s = "name @ ''=''"
  show ?case
  proof (cases "idx = 0 \<or> header ! (idx - 1) = SP \<or> header ! (idx - 1) = CHR '',''")
    case True
    then show ?thesis using 1 by (simp add: param_loop.simps [of header name idx] proper_def)
  next
    case no: False
    then have np: "\<not> proper header name i" if "i < Suc idx" for i
      using 1(3) that by (auto simp: proper_def less_Suc_eq)
    show ?thesis
    proof (cases "Index (drop (idx + 1) header) ?s")
      case None
      then have "\<not> HasPrefix (drop (Suc idx + k) header) ?s" for k
        using Index_none [of ?s "drop (idx + 1) header" k] by (simp add: ac_simps)
      then have "\<not> proper header name i" for i
        using np [of i] by (cases "i < Suc idx") (auto simp: proper_def not_less le_iff_add)
      then show ?thesis using None no by (simp add: param_loop.simps [of header name idx])
    next
      case (Some nxt)
      have hit: "HasPrefix (drop (idx + 1 + nxt) header) ?s"
        using Index_HasPrefix [OF Some] by (simp add: ac_simps)
      have "\<not> proper header name i" if "i < idx + 1 + nxt" for i
      proof (cases "i < Suc idx")
        case False
        then show ?thesis
          using Index_least [OF _ Some, of "i - Suc idx"] that by (simp add: proper_def)
      qed (rule np)
      then have "case param_loop header name (idx + 1 + nxt) of
          None \<Rightarrow> \<forall>i. \<not> proper header name i
        | Some j \<Rightarrow> proper header name j \<and> (\<forall>i < j. \<not> proper header name i)"
        using 1(1) [OF no Some] hit by blast
      then show ?thesis using no Some by (simp add: param_loop.simps [of header name idx])
    qed
  qed
qed

text \<open>The parameter of a header whose first proper position is known.\<close>

lemma extract_at:
  assumes "proper header name j" and "\<And>i. i < j \<Longrightarrow> \<not> proper header name i"
  shows "extractWWWAuthParam header name = param_value (drop (j + length name + 1) header)"
proof -
  let ?s = "name @ ''=''"
  have "HasPrefix (drop j header) ?s" using assms(1) by (simp add: proper_def)
  then obtain idx where idx: "Index header ?s = Some idx"
    using Index_none [of ?s header j] by auto
  have "case param_loop header name idx of
      None \<Rightarrow> \<forall>i. \<not> proper header name i
    | Some k \<Rightarrow> proper header name k \<and> (\<forall>i < k. \<not> proper header name i)"
    using Index_HasPrefix [OF idx] Index_least [OF _ idx]
    by (intro param_loop_spec) (auto simp: proper_def)
  then have "param_loop header name idx = Some j"
    using assms by (auto split: option.splits) (metis linorder_neqE_nat)
  then show ?thesis using idx by (simp add: extractWWWAuthParam_def)
qed

lemma extract_none:
  assumes "\<And>i. \<not> proper header name i"
  shows "extractWWWAuthParam header name = []"
proof (cases "Index header (name @ ''='')")
  case (Some idx)
  then show ?thesis
    using param_loop_spec [of idx header name] Index_HasPrefix [OF Some] assms
    by (auto simp: extractWWWAuthParam_def split: option.splits)
qed (simp add: extractWWWAuthParam_def)

lemma param_value_quoted: "QUOTE \<notin> set v \<Longrightarrow> param_value (QUOTE # v @ QUOTE # rest) = v"
  by (simp add: param_value_def Index_singleton IndexByte_append_hit)

lemma param_value_bare:
  "v \<noteq> [] \<Longrightarrow> hd v \<noteq> QUOTE \<Longrightarrow> SP \<notin> set v \<Longrightarrow> CHR '','' \<notin> set v \<Longrightarrow>
   param_value (v @ CHR '','' # rest) = v"
  by (simp add: param_value_def IndexAny_append_hit)

text \<open>Nothing is found inside a first parameter without spaces and commas.\<close>

lemma proper_skip:
  assumes "name \<noteq> []" and "pre \<noteq> []" and "hd name \<noteq> hd pre" and "hd name \<noteq> SP"
    and "SP \<notin> set pre" and "CHR '','' \<notin> set pre" and "i < length pre + 2"
  shows "\<not> proper (pre @ CHR '','' # SP # rest) name i"
proof (cases "i = 0 \<or> i = Suc (length pre)")
  case True
  then show ?thesis
    using assms(1-4) by (cases name; cases pre) (auto simp: proper_def HasPrefix_def)
next
  case False
  then have i: "0 < i" "i - 1 < length pre" using assms(7) by auto
  then have "pre ! (i - 1) \<noteq> SP" "pre ! (i - 1) \<noteq> CHR '',''"
    using assms(5,6) nth_mem [OF i(2)] by metis+
  then show ?thesis using i by (simp add: proper_def nth_append)
qed

lemma proper_after_comma:
  "proper (pre @ CHR '','' # SP # name @ CHR ''='' # rest) name (length pre + 2)"
  by (simp add: proper_def HasPrefix_def nth_append)

lemma extract_second:
  assumes "name \<noteq> []" and "pre \<noteq> []" and "hd name \<noteq> hd pre" and "hd name \<noteq> SP"
    and "SP \<notin> set pre" and "CHR '','' \<notin> set pre"
  shows "extractWWWAuthParam (pre @ CHR '','' # SP # name @ CHR ''='' # rest) name = param_value rest"
  using extract_at [OF proper_after_comma proper_skip [OF assms]]
  by (simp add: eval_nat_numeral)

lemma extract_first:
  "extractWWWAuthParam (name @ CHR ''='' # rest) name = param_value rest"
  using extract_at [of "name @ CHR ''='' # rest" name 0] by (simp add: proper_def HasPrefix_def)

text \<open>The search is \<open>find\<close> over the positions of the header.\<close>

lemma extract_find:
  "extractWWWAuthParam header name =
     (case find (proper header name) [0..<length header] of
        None \<Rightarrow> []
      | Some i \<Rightarrow> param_value (drop (i + length name + 1) header))"
proof (cases "find (proper header name) [0..<length header]")
  case None
  then have "\<not> proper header name i" if "i < length header" for i
    using that by (auto simp: find_None_iff)
  moreover have "\<not> proper header name i" if "\<not> i < length header" for i
    using that by (simp add: proper_def HasPrefix_def)
  ultimately have "\<not> proper header name i" for i by blast
  then show ?thesis using None extract_none [of header name] by simp
next
  case (Some j)
  then have "proper header name j" "\<And>i. i < j \<Longrightarrow> \<not> proper header name i"
    by (auto simp: find_Some_iff)
  then show ?thesis using Some extract_at by simp
qed

text \<open>A Bearer challenge with a metadata URL and a list of scopes.\<close>

definition challenge :: "string \<Rightarrow> string list \<Rightarrow> string" where
  "challenge url scopes =
     ''Bearer '' @ ''resource_metadata'' @ CHR ''='' # QUOTE # url @ QUOTE # CHR '','' # SP #
       ''scope'' @ CHR ''='' # QUOTE # Join scopes [SP] @ [QUOTE]"

lemma TrimSpace_challenge: "TrimSpace (challenge url scopes) = challenge url scopes"
  by (intro TrimSpace_visible disjI2) (simp add: challenge_def visible_def)

lemma Join_set: "set (Join ws [SP]) \<subseteq> insert SP (\<Union> (set ` set ws))"
  by (induction ws "[SP]" rule: Join.induct) auto

lemma ParseWWWAuthenticate_challenge:
  assumes "QUOTE \<notin> set url" "SP \<notin> set url" "CHR '','' \<notin> set url"
    and "\<forall>w \<in> set scopes. w \<noteq> [] \<and> list_all visible w \<and> QUOTE \<notin> set w"
  shows "ParseWWWAuthenticate (challenge url scopes) = (url, scopes)"
proof -
  let ?params = "''resource_metadata'' @ CHR ''='' # QUOTE # url @ QUOTE # CHR '','' # SP #
       ''scope'' @ CHR ''='' # QUOTE # Join scopes [SP] @ [QUOTE]"
  let ?pre = "''resource_metadata'' @ CHR ''='' # QUOTE # url @ [QUOTE]"
  have q: "QUOTE \<notin> set (Join scopes [SP])"
    using assms(4) Join_set [of scopes] by auto
  have url: "extractWWWAuthParam ?params ''resource_metadata'' = url"
    using assms(1) by (simp only: extract_first [of "''resource_metadata''"]) (rule param_value_quoted)
  have "extractWWWAuthParam (?pre @ CHR '','' # SP # ''scope'' @ CHR ''='' # QUOTE # Join scopes [SP] @ [QUOTE]) ''scope'' =
      param_value (QUOTE # Join scopes [SP] @ [QUOTE])"
    using assms(2,3) by (intro extract_second) simp_all
  then have scope: "extractWWWAuthParam ?params ''scope'' = Join scopes [SP]"
    using param_value_quoted [OF q, of "[]"] by simp
  have "ParseWWWAuthenticate (challenge url scopes) =
      (extractWWWAuthParam ?params ''resource_metadata'',
       if extractWWWAuthParam ?params ''scope'' \<noteq> [] then Fields (extractWWWAuthParam ?params ''scope'') else [])"
    unfolding ParseWWWAuthenticate_def TrimSpace_challenge unfolding challenge_def
    by (simp add: HasPrefix_def Let_def)
  moreover have "(if Join scopes [SP] \<noteq> [] then Fields (Join scopes [SP]) else []) = scopes"
  proof -
    have "Fields (Join scopes [SP]) = scopes" using assms(4) by (intro Fields_Join) blast
    moreover have "Fields [] = []" by (simp add: Fields_def)
    ultimately show ?thesis by metis
  qed
  ultimately show ?thesis
    using url scope by (simp only:)
qed

section \<open>The retry loop\<close>

definition MaxErrorBodySize :: nat where
  "MaxErrorBodySize = push_bit 10 16"

text \<open>
  A response as the client sees it. \<open>resp_closed\<close> records that the body was closed; the body of a
  401 or 403 is closed before the callback sees the response.
\<close>

record http_response =
  StatusCode :: int
  resp_hdr :: header
  resp_src :: source
  resp_closed :: bool

record auth_retry_error =
  are_StatusCode :: int
  are_Message :: string
  are_WWWAuthenticate :: string
  are_RequiredScopes :: "string list"
  are_Cause :: "string option"

definition Error_auth :: "auth_retry_error \<Rightarrow> string" where
  "Error_auth e =
     ''auth error '' @ dec_int (are_StatusCode e) @ '': '' @ are_Message e @
     (case are_Cause e of Some c \<Rightarrow> '': '' @ c | None \<Rightarrow> [])"

definition Unwrap :: "auth_retry_error \<Rightarrow> string option" where
  "Unwrap e = are_Cause e"

definition newAuthRetryError :: "int \<Rightarrow> string \<Rightarrow> string \<Rightarrow> string option \<Rightarrow> auth_retry_error" where
  "newAuthRetryError statusCode body wwa cause =
     \<lparr>are_StatusCode = statusCode, are_Message = body, are_WWWAuthenticate = wwa,
      are_RequiredScopes = (if wwa \<noteq> [] then snd (ParseWWWAuthenticate wwa) else []),
      are_Cause = cause\<rparr>"

text \<open>
  The configuration: each callback is optional and runs on the caller's state \<open>'s\<close>;
  \<open>SetAuth\<close> changes the request it is given.
\<close>

record ('q, 's) auth_retry_config =
  SetAuth :: "('q \<Rightarrow> 's \<Rightarrow> string option \<times> 'q \<times> 's) option"
  OnUnauthorized :: "(http_response \<Rightarrow> 's \<Rightarrow> string option \<times> 's) option"
  OnForbidden :: "(http_response \<Rightarrow> 's \<Rightarrow> string option \<times> 's) option"

datatype retry_error = PlainErr string | SetAuthErr string | RetryErr auth_retry_error

text \<open>What the loop did, in order: the requests it sent and the callbacks it ran.\<close>

datatype auth_step = Requested int | Closed int | AskedUnauthorized | AskedForbidden

definition call_SetAuth ::
  "('q, 's) auth_retry_config option \<Rightarrow> 'q \<Rightarrow> 's \<Rightarrow> string option \<times> 'q \<times> 's" where
  "call_SetAuth cfg req s =
     (case cfg of
        Some c \<Rightarrow> (case SetAuth c of Some f \<Rightarrow> f req s | None \<Rightarrow> (None, req, s))
      | None \<Rightarrow> (None, req, s))"

text \<open>The error body: at most \<open>MaxErrorBodySize\<close> bytes are read, then the body is closed.\<close>

definition error_message :: "http_response \<Rightarrow> string" where
  "error_message resp = TrimSpace (take MaxErrorBodySize (pending (resp_src resp)))"

definition drained :: "http_response \<Rightarrow> http_response" where
  "drained resp = resp\<lparr>resp_src := Discard MaxErrorBodySize (resp_src resp), resp_closed := True\<rparr>"

text \<open>
  The arm of the switch for 401 or 403: an error when the retry was used up, when there is no
  callback or when the callback fails, and none when the loop continues.
\<close>

definition retry_arm ::
  "int \<Rightarrow> auth_step \<Rightarrow> bool \<Rightarrow> (http_response \<Rightarrow> 's \<Rightarrow> string option \<times> 's) option \<Rightarrow>
   http_response \<Rightarrow> 's \<Rightarrow> auth_retry_error option \<times> auth_step list \<times> 's"
where
  "retry_arm code asked tried callback resp s =
     (let msg = error_message resp;
          wwa = header_get (resp_hdr resp) ''Www-Authenticate''
      in case (if tried then None else callback) of
           None \<Rightarrow> (Some (newAuthRetryError code msg wwa None), [Requested code, Closed code], s)
         | Some f \<Rightarrow>
             (case f (drained resp) s of
                (Some e, s) \<Rightarrow> (Some (newAuthRetryError code msg wwa (Some e)),
                                 [Requested code, Closed code, asked], s)
              | (None, s) \<Rightarrow> (None, [Requested code, Closed code, asked], s)))"

lemma retry_arm_cases:
  assumes "retry_arm code asked tried cb resp s = (e, tr, s')"
  obtains (stop) x where "e = Some x" "are_StatusCode x = code"
      "are_RequiredScopes x = (if are_WWWAuthenticate x \<noteq> [] then snd (ParseWWWAuthenticate (are_WWWAuthenticate x)) else [])"
      "tr = [Requested code, Closed code] \<or> tr = [Requested code, Closed code, asked] \<and> \<not> tried"
  | (go) "e = None" "tr = [Requested code, Closed code, asked]" "\<not> tried"
  using assms
  by (auto simp: retry_arm_def Let_def newAuthRetryError_def split: prod.splits option.splits if_splits)

function auth_loop ::
  "('q, 's) auth_retry_config option \<Rightarrow> ('s \<Rightarrow> (string + 'q) \<times> 's) \<Rightarrow>
   ('q \<Rightarrow> 's \<Rightarrow> (string + http_response) \<times> 's) \<Rightarrow> bool \<Rightarrow> bool \<Rightarrow> 's \<Rightarrow>
   (retry_error + http_response) \<times> auth_step list \<times> 's"
where
  "auth_loop cfg buildReq send tried401 tried403 s =
     (case buildReq s of
        (Inl e, s) \<Rightarrow> (Inl (PlainErr e), [], s)
      | (Inr req, s) \<Rightarrow>
     (case call_SetAuth cfg req s of
        (Some e, req, s) \<Rightarrow> (Inl (SetAuthErr e), [], s)
      | (None, req, s) \<Rightarrow>
     (case send req s of
        (Inl e, s) \<Rightarrow> (Inl (PlainErr e), [], s)
      | (Inr resp, s) \<Rightarrow>
          if StatusCode resp = 401 then
            (case retry_arm 401 AskedUnauthorized tried401 (Option.bind cfg OnUnauthorized) resp s of
               (Some e, tr, s) \<Rightarrow> (Inl (RetryErr e), tr, s)
             | (None, tr, s) \<Rightarrow>
                 (case auth_loop cfg buildReq send True tried403 s of (res, tr', s) \<Rightarrow> (res, tr @ tr', s)))
          else if StatusCode resp = 403 then
            (case retry_arm 403 AskedForbidden tried403 (Option.bind cfg OnForbidden) resp s of
               (Some e, tr, s) \<Rightarrow> (Inl (RetryErr e), tr, s)
             | (None, tr, s) \<Rightarrow>
                 (case auth_loop cfg buildReq send tried401 True s of (res, tr', s) \<Rightarrow> (res, tr @ tr', s)))
          else (Inr resp, [Requested (StatusCode resp)], s))))"
  by pat_completeness auto
termination
  by (relation "measure (\<lambda>(cfg, b, d, t401, t403, s). of_bool (\<not> t401) + of_bool (\<not> t403))")
     (auto elim!: retry_arm_cases [OF sym])

declare auth_loop.simps [simp del]

definition DoWithAuthRetry ::
  "('q, 's) auth_retry_config option \<Rightarrow> ('s \<Rightarrow> (string + 'q) \<times> 's) \<Rightarrow>
   ('q \<Rightarrow> 's \<Rightarrow> (string + http_response) \<times> 's) \<Rightarrow> 's \<Rightarrow>
   (retry_error + http_response) \<times> auth_step list \<times> 's"
where
  "DoWithAuthRetry cfg buildReq send s = auth_loop cfg buildReq send False False s"

definition requests :: "auth_step list \<Rightarrow> nat" where
  "requests tr = length (filter (\<lambda>x. \<exists>c. x = Requested c) tr)"

lemma requests_simps [simp]:
  "requests [] = 0" "requests (Requested c # tr) = Suc (requests tr)"
  "requests (Closed c # tr) = requests tr" "requests (AskedUnauthorized # tr) = requests tr"
  "requests (AskedForbidden # tr) = requests tr"
  by (simp_all add: requests_def)

definition auth_status :: "int \<Rightarrow> bool" where
  "auth_status c \<longleftrightarrow> c = 401 \<or> c = 403"

text \<open>What holds of every outcome of one pass over the loop holds of the loop.\<close>

lemma auth_loop_pass:
  assumes "\<And>e s'. \<nexists>x. e = RetryErr x \<Longrightarrow> P (Inl e, [], s')"
    and "\<And>resp s1 e tr s'. retry_arm 401 AskedUnauthorized t401 (Option.bind cfg OnUnauthorized) resp s1 = (Some e, tr, s') \<Longrightarrow>
      P (Inl (RetryErr e), tr, s')"
    and "\<And>resp s1 e tr s'. retry_arm 403 AskedForbidden t403 (Option.bind cfg OnForbidden) resp s1 = (Some e, tr, s') \<Longrightarrow>
      P (Inl (RetryErr e), tr, s')"
    and "\<And>resp s1 tr s2 res tr' s'.
      retry_arm 401 AskedUnauthorized t401 (Option.bind cfg OnUnauthorized) resp s1 = (None, tr, s2) \<Longrightarrow>
      auth_loop cfg b d True t403 s2 = (res, tr', s') \<Longrightarrow> P (res, tr @ tr', s')"
    and "\<And>resp s1 tr s2 res tr' s'.
      retry_arm 403 AskedForbidden t403 (Option.bind cfg OnForbidden) resp s1 = (None, tr, s2) \<Longrightarrow>
      auth_loop cfg b d t401 True s2 = (res, tr', s') \<Longrightarrow> P (res, tr @ tr', s')"
    and "\<And>resp s'. \<not> auth_status (StatusCode resp) \<Longrightarrow> P (Inr resp, [Requested (StatusCode resp)], s')"
  shows "P (auth_loop cfg b d t401 t403 s)"
proof -
  obtain built s1 where b: "b s = (built, s1)" by (cases "b s")
  show ?thesis
  proof (cases built)
    case (Inl e)
    then show ?thesis using b assms(1) [of "PlainErr e"] by (subst auth_loop.simps) simp
  next
    case (Inr req)
    obtain err req' s2 where a: "call_SetAuth cfg req s1 = (err, req', s2)" by (cases "call_SetAuth cfg req s1")
    obtain r s3 where d: "d req' s2 = (r, s3)" by (cases "d req' s2")
    consider (seterr) x where "err = Some x" | (dofail) e where "err = None" "r = Inl e"
      | (resp) resp where "err = None" "r = Inr resp"
      by (cases err; cases r) auto
    then show ?thesis
    proof cases
      case seterr
      then show ?thesis using b a Inr assms(1) [of "SetAuthErr x"] by (subst auth_loop.simps) simp
    next
      case dofail
      then show ?thesis using b a d Inr assms(1) [of "PlainErr e"] by (subst auth_loop.simps) simp
    next
      case resp
      note pass = auth_loop.simps [of cfg b d t401 t403 s] b a d Inr resp
      consider (u) "StatusCode resp = 401" | (f) "StatusCode resp = 403" | (n) "\<not> auth_status (StatusCode resp)"
        by (auto simp: auth_status_def)
      then show ?thesis
      proof cases
        case u
        show ?thesis using pass u assms(2,4) [of resp s3] by (auto split: prod.split option.split)
      next
        case f
        show ?thesis using pass f assms(3,5) [of resp s3] by (auto split: prod.split option.split)
      next
        case n
        then show ?thesis using pass assms(6) [of resp s3] by (simp add: auth_status_def)
      qed
    qed
  qed
qed

definition budget_ok :: "bool \<Rightarrow> bool \<Rightarrow> auth_step list \<Rightarrow> bool" where
  "budget_ok t401 t403 tr \<longleftrightarrow>
     count_list tr AskedUnauthorized \<le> of_bool (\<not> t401) \<and>
     count_list tr AskedForbidden \<le> of_bool (\<not> t403) \<and>
     requests tr \<le> 1 + count_list tr AskedUnauthorized + count_list tr AskedForbidden"

definition closed_ok :: "auth_step list \<Rightarrow> bool" where
  "closed_ok tr \<longleftrightarrow> (\<forall>c. auth_status c \<longrightarrow> count_list tr (Closed c) = count_list tr (Requested c))"

definition scopes_ok :: "auth_retry_error \<Rightarrow> bool" where
  "scopes_ok x \<longleftrightarrow> are_RequiredScopes x =
     (if are_WWWAuthenticate x \<noteq> [] then snd (ParseWWWAuthenticate (are_WWWAuthenticate x)) else [])"

fun result_ok :: "(retry_error + http_response) \<Rightarrow> auth_step list \<Rightarrow> bool" where
  "result_ok (Inr resp) tr \<longleftrightarrow>
     \<not> auth_status (StatusCode resp) \<and> tr \<noteq> [] \<and> last tr = Requested (StatusCode resp)"
| "result_ok (Inl (RetryErr x)) tr \<longleftrightarrow> auth_status (are_StatusCode x) \<and> scopes_ok x"
| "result_ok (Inl _) tr \<longleftrightarrow> True"

lemma result_ok_append: "result_ok res tr' \<Longrightarrow> result_ok res (tr @ tr')"
  by (cases "(res, tr')" rule: result_ok.cases) auto

lemma count_append: "count_list (xs @ ys) x = count_list xs x + count_list ys x"
  by (induction xs) auto

lemma closed_ok_append: "closed_ok xs \<Longrightarrow> closed_ok ys \<Longrightarrow> closed_ok (xs @ ys)"
  by (simp add: closed_ok_def count_append)

lemma retry_arm_closed: "retry_arm code asked tried cb resp s = (e, tr, s') \<Longrightarrow>
  asked \<in> {AskedUnauthorized, AskedForbidden} \<Longrightarrow> closed_ok tr"
  by (auto elim!: retry_arm_cases simp: closed_ok_def)

lemma retry_arm_refuses: "retry_arm code asked tried cb resp s = (Some x, tr, s') \<Longrightarrow>
  are_StatusCode x = code \<and> scopes_ok x"
  by (erule retry_arm_cases) (simp_all add: scopes_ok_def)

lemma retry_arm_go: "retry_arm code asked tried cb resp s = (None, tr, s') \<Longrightarrow> \<not> tried"
  by (erule retry_arm_cases) simp_all

lemma requests_append [simp]: "requests (xs @ ys) = requests xs + requests ys"
  by (simp add: requests_def)

lemma auth_loop_induct [case_names loop]:
  assumes "\<And>t401 t403 s. (\<And>s'. \<not> t401 \<Longrightarrow> P True t403 s') \<Longrightarrow> (\<And>s'. \<not> t403 \<Longrightarrow> P t401 True s') \<Longrightarrow> P t401 t403 s"
  shows "P t401 t403 s"
proof -
  have tt: "P True True s" for s by (rule assms) simp_all
  have tf: "P True False s" for s by (rule assms) (simp_all add: tt)
  have ft: "P False True s" for s by (rule assms) (simp_all add: tt)
  have ff: "P False False s" for s by (rule assms) (simp_all add: tf ft)
  show ?thesis using tt tf ft ff by (cases t401; cases t403) simp_all
qed

lemma auth_loop_budget: "budget_ok t401 t403 (fst (snd (auth_loop cfg b d t401 t403 s)))"
proof (induction t401 t403 s rule: auth_loop_induct)
  case (loop t401 t403 s)
  show ?case
  proof (rule auth_loop_pass [where P = "\<lambda>r. budget_ok t401 t403 (fst (snd r))"])
    fix resp s1 tr s2 res tr' s'
    assume a: "retry_arm 401 AskedUnauthorized t401 (Option.bind cfg OnUnauthorized) resp s1 = (None, tr, s2)"
      "auth_loop cfg b d True t403 s2 = (res, tr', s')"
    then show "budget_ok t401 t403 (fst (snd (res, tr @ tr', s')))"
      using loop(1) [of s2] by (auto elim!: retry_arm_cases simp: budget_ok_def)
  next
    fix resp s1 tr s2 res tr' s'
    assume a: "retry_arm 403 AskedForbidden t403 (Option.bind cfg OnForbidden) resp s1 = (None, tr, s2)"
      "auth_loop cfg b d t401 True s2 = (res, tr', s')"
    then show "budget_ok t401 t403 (fst (snd (res, tr @ tr', s')))"
      using loop(2) [of s2] by (auto elim!: retry_arm_cases simp: budget_ok_def)
  qed (auto elim!: retry_arm_cases simp: budget_ok_def)
qed

lemma auth_loop_result:
  "result_ok (fst (auth_loop cfg b d t401 t403 s)) (fst (snd (auth_loop cfg b d t401 t403 s)))"
proof (induction t401 t403 s rule: auth_loop_induct)
  case (loop t401 t403 s)
  show ?case
  proof (rule auth_loop_pass [where P = "\<lambda>r. result_ok (fst r) (fst (snd r))"], goal_cases)
    case (1 e s')
    then show ?case by (cases e) auto
  next
    case (2 resp s1 e tr s')
    then show ?case by (simp add: retry_arm_refuses [OF 2] auth_status_def)
  next
    case (3 resp s1 e tr s')
    then show ?case by (simp add: retry_arm_refuses [OF 3] auth_status_def)
  next
    case (4 resp s1 tr s2 res tr' s')
    then have "result_ok res tr'" using loop(1) [of s2] retry_arm_go [OF 4(1)] by simp
    then show ?case by (simp add: result_ok_append)
  next
    case (5 resp s1 tr s2 res tr' s')
    then have "result_ok res tr'" using loop(2) [of s2] retry_arm_go [OF 5(1)] by simp
    then show ?case by (simp add: result_ok_append)
  next
    case (6 resp s')
    then show ?case by simp
  qed
qed

lemma auth_loop_closed: "closed_ok (fst (snd (auth_loop cfg b d t401 t403 s)))"
proof (induction t401 t403 s rule: auth_loop_induct)
  case (loop t401 t403 s)
  show ?case
  proof (rule auth_loop_pass [where P = "\<lambda>r. closed_ok (fst (snd r))"], goal_cases)
    case (1 e s')
    then show ?case by (simp add: closed_ok_def)
  next
    case (2 resp s1 e tr s')
    then show ?case by (simp add: retry_arm_closed [OF 2])
  next
    case (3 resp s1 e tr s')
    then show ?case by (simp add: retry_arm_closed [OF 3])
  next
    case (4 resp s1 tr s2 res tr' s')
    then have "closed_ok tr'" using loop(1) [of s2] retry_arm_go [OF 4(1)] by simp
    then show ?case using retry_arm_closed [OF 4(1)] by (simp add: closed_ok_append)
  next
    case (5 resp s1 tr s2 res tr' s')
    then have "closed_ok tr'" using loop(2) [of s2] retry_arm_go [OF 5(1)] by simp
    then show ?case using retry_arm_closed [OF 5(1)] by (simp add: closed_ok_append)
  next
    case (6 resp s')
    then show ?case by (simp add: closed_ok_def auth_status_def)
  qed
qed

section \<open>Properties\<close>



text \<open>A server that answers 401, then 403, then 200, and callbacks that agree to each retry.\<close>

definition scripted_response :: "int \<Rightarrow> http_response" where
  "scripted_response c =
     \<lparr>StatusCode = c, resp_hdr = (\<lambda>k. None), resp_src = source_of [], resp_closed = False\<rparr>"

definition scripted_send :: "unit \<Rightarrow> int list \<Rightarrow> (string + http_response) \<times> int list" where
  "scripted_send req s = (case s of [] \<Rightarrow> (Inl ''connection refused'', []) | c # cs \<Rightarrow> (Inr (scripted_response c), cs))"

definition agreeing :: "(unit, int list) auth_retry_config" where
  "agreeing = \<lparr>SetAuth = None, OnUnauthorized = Some (\<lambda>resp s. (None, s)),
     OnForbidden = Some (\<lambda>resp s. (None, s))\<rparr>"

lemma scripted_run:
  "DoWithAuthRetry (Some agreeing) (\<lambda>s. (Inr (), s)) scripted_send [401, 403, 200, 401] =
     (Inr (scripted_response 200),
      [Requested 401, Closed 401, AskedUnauthorized, Requested 403, Closed 403, AskedForbidden, Requested 200],
      [401])"
  by (simp add: DoWithAuthRetry_def auth_loop.simps call_SetAuth_def agreeing_def scripted_send_def
      scripted_response_def retry_arm_def Let_def)


text \<open>
  C34: Challenges survive parsing. From a Bearer challenge that quotes a metadata URL and a list
  of scopes, the parser reads back exactly that URL and exactly those scopes, in order.
\<close>

theorem challenge_roundtrip:
  assumes "QUOTE \<notin> set url" and "SP \<notin> set url" and "CHR '','' \<notin> set url"
    and "\<forall>w \<in> set scopes. w \<noteq> [] \<and> list_all visible w \<and> QUOTE \<notin> set w"
  shows "ParseWWWAuthenticate (challenge url scopes) = (url, scopes)"
  by (rule ParseWWWAuthenticate_challenge [OF assms])

theorem challenge_roundtrip_witness:
  "ParseWWWAuthenticate (challenge ''https://a/prm'' [''read'', ''write'']) = (''https://a/prm'', [''read'', ''write''])"
  by (rule challenge_roundtrip) (simp_all add: visible_def)

text \<open>
  The parameter search is exact: for every header and name, the value is the one at the first
  position where the name and an equals sign stand at the start of the header or after a space or
  a comma, and it is empty when there is no such position.
\<close>

theorem param_search_exact:
  "extractWWWAuthParam header name =
     (case find (proper header name) [0..<length header] of
        None \<Rightarrow> []
      | Some i \<Rightarrow> param_value (drop (i + length name + 1) header))"
  by (rule extract_find)

section \<open>Quotes are not respected by the search\<close>

text \<open>A parameter name inside the quoted value of an earlier parameter is taken for the parameter.\<close>

lemma param_inside_quotes:
  "extractWWWAuthParam (''realm='' @ QUOTE # ''the scope=admin'' @ QUOTE # '', scope='' @ QUOTE # ''read'' @ [QUOTE]) ''scope'' =
   ''admin'' @ [QUOTE]"
  by (subst extract_find) (simp add: proper_def HasPrefix_def param_value_def upt_rec)

end
