(* ===== verification/SseReader.thy ===== *)
theory SseReader
  imports Bufio
begin

text \<open>
  The Server-Sent Events reader of \<open>http/sse_reader.go\<close>: the accumulator \<open>sseReadState\<close>, its
  field rules, and the loop of \<open>ReadEvent\<close> over a buffered source. \<open>ReadEvents\<close> is the client
  loop of the type's usage comment: read until the first error.
\<close>

section \<open>Data\<close>

text \<open>\<open>SSEReadEvent\<close>; \<open>Retry\<close> is a Go \<open>int\<close>.\<close>

record sse_read_event =
  rd_Event :: string
  rd_Data :: string
  rd_ID :: string
  rd_Retry :: int
  rd_Comment :: string

definition zero_event :: sse_read_event where
  "zero_event = \<lparr>rd_Event = [], rd_Data = [], rd_ID = [], rd_Retry = 0, rd_Comment = []\<rparr>"

text \<open>\<open>sseReadState\<close>, whose zero value starts each event.\<close>

record sse_read_state =
  st_event :: string
  st_dataLines :: "string list"
  st_id :: string
  st_retry :: int
  st_comment :: string
  st_touched :: bool

definition init_state :: sse_read_state where
  "init_state = \<lparr>st_event = [], st_dataLines = [], st_id = [], st_retry = 0,
     st_comment = [], st_touched = False\<rparr>"

definition hasFields :: "sse_read_state \<Rightarrow> bool" where
  "hasFields st = st_touched st"

definition finish :: "sse_read_state \<Rightarrow> sse_read_event" where
  "finish st = \<lparr>rd_Event = st_event st, rd_Data = Join (st_dataLines st) [LF],
     rd_ID = st_id st, rd_Retry = st_retry st, rd_Comment = st_comment st\<rparr>"

definition isAllDigits :: "string \<Rightarrow> bool" where
  "isAllDigits s \<longleftrightarrow> (s \<noteq> [] \<and> list_all (\<lambda>c. \<not> (c < CHR ''0'' \<or> CHR ''9'' < c)) s)"

section \<open>One line\<close>

text \<open>The text of a comment line: what follows the colon, less one leading space.\<close>

definition strip_one_space :: "string \<Rightarrow> string" where
  "strip_one_space v = (if v \<noteq> [] \<and> hd v = SP then tl v else v)"

definition split_field :: "string \<Rightarrow> string \<times> string" where
  "split_field line = (case IndexByte line CHR '':'' of
      None \<Rightarrow> (line, [])
    | Some i \<Rightarrow> (take i line, strip_one_space (drop (Suc i) line)))"

definition process_field :: "sse_read_state \<Rightarrow> string \<Rightarrow> string \<Rightarrow> sse_read_state" where
  "process_field st field v =
     (let st = st\<lparr>st_touched := True\<rparr> in
      if field = ''event'' then st\<lparr>st_event := v\<rparr>
      else if field = ''data'' then st\<lparr>st_dataLines := st_dataLines st @ [v]\<rparr>
      else if field = ''id'' then (if \<not> ContainsRune v NUL then st\<lparr>st_id := v\<rparr> else st)
      else if field = ''retry'' then
        (case Atoi v of
           Some n \<Rightarrow> if 0 \<le> n \<and> isAllDigits v then st\<lparr>st_retry := n\<rparr> else st
         | None \<Rightarrow> st)
      else st)"

definition process_comment :: "sse_read_state \<Rightarrow> string \<Rightarrow> sse_read_state" where
  "process_comment st line =
     st\<lparr>st_comment := strip_one_space (tl line), st_touched := True\<rparr>"

section \<open>The loop of ReadEvent\<close>

text \<open>
  One turn of the loop reads a line. An empty read with an error ends the call; a blank line
  dispatches the event or is skipped; a comment line goes round again even when the read
  reported an error (the next read reports it again); a field line with an error ends the call.
\<close>

function read_loop ::
  "source \<Rightarrow> sse_read_state \<Rightarrow> (sse_read_event \<times> io_err option) \<times> source" where
  "read_loop src st =
     (case ReadString LF src of (raw, err, src') \<Rightarrow>
        if raw = [] \<and> err \<noteq> None then
          (if hasFields st then ((finish st, err), src') else ((zero_event, err), src'))
        else
          let line = TrimRight raw [CR, LF] in
          if line = [] then
            (if hasFields st then ((finish st, None), src') else read_loop src' st)
          else if hd line = CHR '':'' then read_loop src' (process_comment st line)
          else
            let (field, v) = split_field line; st' = process_field st field v in
            if err \<noteq> None then
              (if hasFields st' then ((finish st', err), src') else ((zero_event, err), src'))
            else read_loop src' st')"
  by pat_completeness auto
termination
  by (relation "measure (\<lambda>(src, st). length (pending src))")
     (auto dest: ReadString_progress [OF sym])

declare read_loop.simps [simp del]

record sse_event_reader =
  reader :: source
  bomDone :: bool

definition NewSSEEventReader :: "source \<Rightarrow> sse_event_reader" where
  "NewSSEEventReader src = \<lparr>reader = src, bomDone = False\<rparr>"

definition BOM :: bytes where
  "BOM = [CHR 0xEF, CHR 0xBB, CHR 0xBF]"

definition strip_bom :: "source \<Rightarrow> source" where
  "strip_bom src = (if Peek 3 src = Inr BOM then Discard 3 src else src)"

definition ReadEvent ::
  "sse_event_reader \<Rightarrow> (sse_read_event \<times> io_err option) \<times> sse_event_reader" where
  "ReadEvent r =
     (let src = (if bomDone r then reader r else strip_bom (reader r)) in
      case read_loop src init_state of (res, src') \<Rightarrow>
        (res, \<lparr>reader = src', bomDone = True\<rparr>))"


section \<open>The block structure of a stream\<close>

text \<open>
  The abstract specification. A stream is a list of lines; the lines between two blank lines
  are a block; a block that is not empty is interpreted field by field into one event. The
  lines after the last blank line are the partial event of an interrupted stream.
\<close>

definition process_line :: "string \<Rightarrow> sse_read_state \<Rightarrow> sse_read_state" where
  "process_line line st =
     (if hd line = CHR '':'' then process_comment st line
      else (case split_field line of (field, v) \<Rightarrow> process_field st field v))"

definition trim_line :: "string \<Rightarrow> string" where
  "trim_line raw = TrimRight raw [CR, LF]"

definition stream_lines :: "bytes \<Rightarrow> string list" where
  "stream_lines bs =
     (let ls = Split bs LF in map trim_line (if last ls = [] then butlast ls else ls))"

fun blocks :: "string list \<Rightarrow> string list \<Rightarrow> string list list \<times> string list" where
  "blocks cur [] = ([], cur)"
| "blocks cur (l # ls) =
     (if l \<noteq> [] then blocks (cur @ [l]) ls
      else if cur = [] then blocks [] ls
      else (case blocks [] ls of (bs, c) \<Rightarrow> (cur # bs, c)))"

definition block_event :: "string list \<Rightarrow> sse_read_event" where
  "block_event b = (if b = [] then zero_event else finish (fold process_line b init_state))"

lemma process_field_touched [simp]: "st_touched (process_field st f v)"
  by (auto simp: process_field_def Let_def split: option.splits)

lemma process_comment_touched [simp]: "st_touched (process_comment st l)"
  by (simp add: process_comment_def)

lemma process_line_touched [simp]: "st_touched (process_line l st)"
  by (auto simp: process_line_def split: prod.splits)

lemma fold_touched: "st_touched (fold process_line cur init_state) \<longleftrightarrow> cur \<noteq> []"
  by (cases cur rule: rev_cases) (auto simp: init_state_def)

lemma stream_lines_line:
  "LF \<notin> set l \<Longrightarrow> stream_lines (l @ LF # t) = trim_line l # stream_lines t"
  by (simp add: stream_lines_def Split_append_sep Let_def)

lemma stream_lines_tail:
  "LF \<notin> set p \<Longrightarrow> stream_lines p = (if p = [] then [] else [trim_line p])"
  by (simp add: stream_lines_def Split_single Let_def)

lemma trim_line_LF [simp]: "trim_line (l @ [LF]) = trim_line l"
  by (simp add: trim_line_def TrimRight_append_cut)

text \<open>One turn of the loop, on a complete line and on the unterminated tail.\<close>

lemma read_loop_line:
  assumes "LF \<notin> set l" and "pending src = l @ LF # t"
  shows "read_loop src st =
    (if trim_line l = [] then
       (if st_touched st then ((finish st, None), src\<lparr>pending := t\<rparr>)
        else read_loop (src\<lparr>pending := t\<rparr>) st)
     else read_loop (src\<lparr>pending := t\<rparr>) (process_line (trim_line l) st))"
proof -
  have "TrimRight (l @ [LF]) [CR, LF] = trim_line l"
    using trim_line_LF [of l] by (simp only: trim_line_def)
  then show ?thesis
    using ReadString_line [OF assms]
    by (subst read_loop.simps) (simp add: Let_def hasFields_def process_line_def split: prod.splits)
qed

lemma read_loop_empty:
  "pending src = [] \<Longrightarrow>
   read_loop src st = ((if st_touched st then finish st else zero_event, Some (fault src)), src)"
  by (subst read_loop.simps) (simp add: ReadString_tail hasFields_def)

lemma read_loop_tail:
  assumes "LF \<notin> set (pending src)" and "pending src \<noteq> []"
  shows "read_loop src st =
    (let p = trim_line (pending src); src' = src\<lparr>pending := []\<rparr> in
     if p = [] then
       (if st_touched st then ((finish st, None), src')
        else ((zero_event, Some (fault src)), src'))
     else ((finish (process_line p st), Some (fault src)), src'))"
  using ReadString_tail [OF assms(1)] assms(2)
  by (subst read_loop.simps)
     (auto simp: Let_def hasFields_def process_line_def trim_line_def read_loop_empty split: prod.splits)

text \<open>
  The loop finds the first block and leaves the rest of the stream to the next call; with no
  block left it reports the error of the source together with the open block.
\<close>

definition block_result ::
  "io_err \<Rightarrow> string list list \<times> string list \<Rightarrow> (sse_read_event \<times> io_err option) \<times> source \<Rightarrow> bool"
where
  "block_result f B r \<longleftrightarrow> (case r of ((ev, err), src') \<Rightarrow>
     fault src' = f \<and>
     (case err of
        None \<Rightarrow> \<exists>b bs c. B = (b # bs, c) \<and> b \<noteq> [] \<and> ev = block_event b \<and>
                  blocks [] (stream_lines (pending src')) = (bs, c)
      | Some e \<Rightarrow> e = f \<and> pending src' = [] \<and> fst B = [] \<and> ev = block_event (snd B)))"

lemma read_loop_blocks:
  assumes "st = fold process_line cur init_state"
  shows "block_result (fault src) (blocks cur (stream_lines (pending src))) (read_loop src st)"
  using assms
proof (induction "length (pending src)" arbitrary: src st cur rule: less_induct)
  case less
  have touched: "st_touched st \<longleftrightarrow> cur \<noteq> []" using less.prems fold_touched by simp
  have fin: "cur \<noteq> [] \<Longrightarrow> finish st = block_event cur" using less.prems by (simp add: block_event_def)
  have step: "process_line l st = fold process_line (cur @ [l]) init_state" for l
    using less.prems by simp
  show ?case
  proof (cases LF src rule: ReadString_cases)
    case (line l t)
    let ?src = "src\<lparr>pending := t\<rparr>"
    have lt: "length (pending ?src) < length (pending src)" using line by simp
    note lns = stream_lines_line [OF line(2), of t]
    note eq = read_loop_line [OF line(2,1), of st]
    consider "trim_line l = []" "cur = []" | "trim_line l = []" "cur \<noteq> []" | "trim_line l \<noteq> []"
      by blast
    then show ?thesis
    proof cases
      case 1
      then show ?thesis using less.hyps [OF lt less.prems] line(1) lns eq touched by simp
    next
      case 2
      then show ?thesis using line(1) lns eq touched fin
        by (auto simp: block_result_def split: prod.splits)
    next
      case 3
      then show ?thesis using less.hyps [OF lt step [of "trim_line l"]] line(1) lns eq by simp
    qed
  next
    case tail
    note lns = stream_lines_tail [OF tail(1)]
    have "finish (process_line p st) = block_event (cur @ [p])" for p
      using step by (simp add: block_event_def)
    then show ?thesis
      using lns touched fin read_loop_tail [OF tail(1), of st] read_loop_empty [of src st]
      by (cases "pending src = []")
         (auto simp: Let_def block_result_def block_event_def stream_lines_def)
  qed
qed

text \<open>A call that succeeds consumes at least one byte, so the client loop ends.\<close>

lemma read_loop_progress:
  "read_loop src st = ((ev, None), src') \<Longrightarrow> length (pending src') < length (pending src)"
proof (induction "length (pending src)" arbitrary: src st rule: less_induct)
  case less
  show ?case
  proof (cases LF src rule: ReadString_cases)
    case (line l t)
    have lt: "length (pending (src\<lparr>pending := t\<rparr>)) < length (pending src)" using line by simp
    then show ?thesis
      using less.hyps [OF lt] less.prems read_loop_line [OF line(2,1), of st]
      by (fastforce split: if_splits)
  next
    case tail
    then show ?thesis
      using less.prems read_loop_tail [OF tail(1), of st] read_loop_empty [of src st]
      by (cases "pending src = []") (auto simp: Let_def split: if_splits)
  qed
qed

lemma ReadEvent_started:
  "bomDone r \<Longrightarrow> ReadEvent r = (case read_loop (reader r) init_state of (res, src') \<Rightarrow>
     (res, \<lparr>reader = src', bomDone = True\<rparr>))"
  by (simp add: ReadEvent_def)

lemma ReadEvent_progress:
  assumes "ReadEvent r = ((ev, None), r')"
  shows "length (pending (reader r')) < length (pending (reader r))"
proof -
  have "length (pending (strip_bom src)) \<le> length (pending src)" for src
    by (simp add: strip_bom_def Discard_def)
  then show ?thesis
    using assms
    by (auto simp: ReadEvent_def Let_def split: prod.splits if_splits
        dest!: read_loop_progress intro: less_le_trans)
qed

text \<open>The client loop of the usage comment: the events, the partial event and the error.\<close>

function ReadEvents :: "sse_event_reader \<Rightarrow> sse_read_event list \<times> sse_read_event \<times> io_err" where
  "ReadEvents r = (case ReadEvent r of
      ((ev, None), r') \<Rightarrow> (case ReadEvents r' of (evs, res) \<Rightarrow> (ev # evs, res))
    | ((ev, Some e), r') \<Rightarrow> ([], ev, e))"
  by pat_completeness auto
termination
  by (relation "measure (\<lambda>r. length (pending (reader r)))")
     (auto dest: ReadEvent_progress [OF sym])

declare ReadEvents.simps [simp del]

lemma ReadEvents_started:
  assumes "bomDone r" and "blocks [] (stream_lines (pending (reader r))) = (bs, c)"
  shows "ReadEvents r = (map block_event bs, block_event c, fault (reader r))"
  using assms
proof (induction r arbitrary: bs rule: ReadEvents.induct)
  case (1 r)
  obtain ev err src' where rl: "read_loop (reader r) init_state = ((ev, err), src')"
    by (metis surj_pair)
  have res: "block_result (fault (reader r)) (bs, c) ((ev, err), src')"
    using read_loop_blocks [of init_state "[]" "reader r"] 1(3) rl by simp
  let ?r' = "\<lparr>reader = src', bomDone = True\<rparr>"
  have re: "ReadEvent r = ((ev, err), ?r')" using rl 1(2) by (simp add: ReadEvent_started)
  show ?case
  proof (cases err)
    case None
    then obtain b bs' where b: "bs = b # bs'" "ev = block_event b"
      and rest: "blocks [] (stream_lines (pending src')) = (bs', c)" "fault src' = fault (reader r)"
      using res by (auto simp: block_result_def)
    have "ReadEvents ?r' = (map block_event bs', block_event c, fault (reader r))"
      using "1.IH" re None rest by force
    then show ?thesis using re None b by (subst ReadEvents.simps) simp
  next
    case (Some e)
    then show ?thesis using re res
      by (subst ReadEvents.simps) (auto simp: block_result_def)
  qed
qed

lemma ReadEvents_blocks:
  assumes "blocks [] (stream_lines (pending (strip_bom src))) = (bs, c)"
  shows "ReadEvents (NewSSEEventReader src) = (map block_event bs, block_event c, fault src)"
proof -
  let ?r = "\<lparr>reader = strip_bom src, bomDone = True\<rparr>"
  have "ReadEvent (NewSSEEventReader src) = ReadEvent ?r"
    by (simp add: ReadEvent_def NewSSEEventReader_def)
  then have "ReadEvents (NewSSEEventReader src) = ReadEvents ?r"
    by (simp add: ReadEvents.simps [of ?r] ReadEvents.simps [of "NewSSEEventReader src"])
  moreover have "fault (strip_bom src) = fault src" by (simp add: strip_bom_def Discard_def)
  ultimately show ?thesis using ReadEvents_started [of ?r bs c] assms by simp
qed

section \<open>The retry field\<close>

lemma isAllDigits_iff: "isAllDigits s \<longleftrightarrow> s \<noteq> [] \<and> list_all is_digit s"
  by (auto simp: isAllDigits_def is_digit_def list_all_iff less_char_def not_less)

definition retry_ok :: "int \<Rightarrow> bool" where
  "retry_ok n \<longleftrightarrow> 0 \<le> n \<and> n < 2 ^ 63"

lemma process_field_retry:
  assumes "retry_ok (st_retry st)"
  shows "retry_ok (st_retry (process_field st f v))"
proof -
  have "Atoi v = Some n \<Longrightarrow> 0 \<le> n \<Longrightarrow> retry_ok n" for n
    using Atoi_range [of v n] by (simp add: retry_ok_def int64_range_def)
  then show ?thesis using assms
    by (simp add: process_field_def Let_def split: option.split)
qed

lemma process_line_retry:
  "retry_ok (st_retry st) \<Longrightarrow> retry_ok (st_retry (process_line l st))"
  by (simp add: process_line_def process_comment_def process_field_retry split: prod.split)

lemma block_event_retry: "retry_ok (rd_Retry (block_event b))"
proof -
  have "retry_ok (st_retry st) \<Longrightarrow> retry_ok (st_retry (fold process_line b st))" for st
    by (induction b arbitrary: st) (auto intro: process_line_retry)
  from this [of init_state] show ?thesis
    by (auto simp: block_event_def finish_def zero_event_def init_state_def retry_ok_def)
qed


lemma read_loop_event:
  "\<exists>b. fst (fst (read_loop src init_state)) = block_event b"
  using read_loop_blocks [of init_state "[]" src]
  by (auto simp: block_result_def split: prod.splits option.splits)

section \<open>Properties\<close>


text \<open>
  Whatever the stream holds, the reconnection time of an event is a non-negative Go int: a
  retry value that is not all digits, or that does not fit, is ignored.
\<close>

theorem sse_retry_bounds:
  "0 \<le> rd_Retry (fst (fst (ReadEvent r))) \<and> rd_Retry (fst (fst (ReadEvent r))) < 2 ^ 63"
proof -
  let ?src = "if bomDone r then reader r else strip_bom (reader r)"
  have "fst (fst (ReadEvent r)) = fst (fst (read_loop ?src init_state))"
    by (simp add: ReadEvent_def Let_def split: prod.splits)
  then show ?thesis using read_loop_event [of ?src] block_event_retry by (metis retry_ok_def)
qed

section \<open>Where the reader departs from the quoted specification\<close>

text \<open>
  The comment above the line splitter quotes the rule that a single carriage return ends a
  line. The reader splits at line feeds only, so it stays inside the data here.
\<close>

lemma lone_CR_is_data:
  "ReadEvents (NewSSEEventReader (source_of (''data: a'' @ [CR] @ ''data: b'' @ [LF, LF]))) =
     ([zero_event\<lparr>rd_Data := ''a'' @ [CR] @ ''data: b''\<rparr>], zero_event, EOF)"
  by (simp add: ReadEvents_blocks strip_bom_def Peek_def BOM_def stream_lines_def trim_line_def
      TrimRight_def block_event_def process_line_def split_field_def strip_one_space_def
      process_field_def finish_def init_state_def zero_event_def Let_def)

end
