(* ===== verification/SseWriter.thy ===== *)
theory SseWriter
  imports SseReader
begin

text \<open>
  The write side of Server-Sent Events: the Writer callback that \<open>BaseSSEConn.OnStart\<close> installs
  (\<open>http/sseconn.go\<close>), \<open>writeSSEEvent\<close> of \<open>http/streamable.go\<close>, and the proof that the reader
  of \<open>http/sse_reader.go\<close> recovers what they wrote.

  What a handler does to the \<open>http.ResponseWriter\<close> of a stream is the list of its \<open>Write\<close> and
  \<open>Flush\<close> calls. \<open>encode\<close> stands for the \<open>Encode\<close> method of the connection's codec.
\<close>

section \<open>Messages and the Writer callback\<close>

record 'o sse_msg =
  om_Data :: "'o option"
  om_Event :: string
  om_ID :: string
  om_Retry :: int
  om_Comment :: string

datatype rw_op = Write bytes | Flush

fun op_bytes :: "rw_op \<Rightarrow> bytes" where
  "op_bytes (Write b) = b"
| "op_bytes Flush = []"

definition wire :: "rw_op list \<Rightarrow> bytes" where
  "wire ops = concat (map op_bytes ops)"

definition data_lines :: "bytes \<Rightarrow> rw_op list" where
  "data_lines data = map (\<lambda>l. Write (''data: '' @ l @ [LF])) (Split data LF)"

definition sse_write ::
  "('o \<Rightarrow> string + bytes \<times> int) \<Rightarrow> 'o sse_msg \<Rightarrow> string option \<times> rw_op list" where
  "sse_write encode m =
     (if om_Comment m \<noteq> [] then
        (None, [Write ('': '' @ om_Comment m @ [LF, LF]), Flush])
      else if om_Data m = None \<and> 0 < om_Retry m then
        (None, [Write (''retry: '' @ dec_int (om_Retry m) @ [LF, LF]), Flush])
      else (case om_Data m of
          None \<Rightarrow> (None, [])
        | Some d \<Rightarrow> (case encode d of
            Inl e \<Rightarrow> (Some e, [])
          | Inr (data, _) \<Rightarrow>
              (None,
               (if om_Event m \<noteq> [] then [Write (''event: '' @ om_Event m @ [LF])] else []) @
               (if om_ID m \<noteq> [] then [Write (''id: '' @ om_ID m @ [LF])] else []) @
               (if 0 < om_Retry m then [Write (''retry: '' @ dec_int (om_Retry m) @ [LF])] else []) @
               data_lines data @
               [Write [LF], Flush]))))"

text \<open>The bytes of a sequence of messages, as the Writer's goroutine emits them in order.\<close>

definition sse_wire :: "('o \<Rightarrow> string + bytes \<times> int) \<Rightarrow> 'o sse_msg list \<Rightarrow> bytes" where
  "sse_wire encode ms = concat (map (\<lambda>m. wire (snd (sse_write encode m))) ms)"

section \<open>Events of a streamed response\<close>

text \<open>
  \<open>SSEEvent\<close> of \<open>http/streamable.go\<close>: a nil \<open>Data\<close> is \<open>None\<close>. When the codec fails the payload
  falls back to \<open>json.Marshal\<close>, the parameter \<open>marshal\<close>, whose error leaves it empty.
\<close>

record 'd sse_event =
  se_Event :: string
  se_Data :: "'d option"
  se_ID :: string

definition writeSSEEvent ::
  "('d \<Rightarrow> string + bytes \<times> int) \<Rightarrow> ('d \<Rightarrow> string + bytes) \<Rightarrow> 'd sse_event \<Rightarrow> rw_op list" where
  "writeSSEEvent encode marshal e =
     (if se_Event e \<noteq> [] then [Write (''event: '' @ se_Event e @ [LF])] else []) @
     (if se_ID e \<noteq> [] then [Write (''id: '' @ se_ID e @ [LF])] else []) @
     (case se_Data e of
        None \<Rightarrow> []
      | Some d \<Rightarrow> data_lines (case encode d of
            Inr (data, _) \<Rightarrow> data
          | Inl _ \<Rightarrow> (case marshal d of Inr data \<Rightarrow> data | Inl _ \<Rightarrow> []))) @
     [Write [LF], Flush]"

section \<open>Frames\<close>

text \<open>
  A frame is the list of lines of one event. \<open>frame_bytes\<close> puts it on the wire: each line with
  its line feed, then the blank line. A line is clean when reading it back loses nothing: it
  has no line feed, is not empty and does not end in the carriage returns the reader trims.
\<close>

definition frame_bytes :: "string list \<Rightarrow> bytes" where
  "frame_bytes ls = concat (map (\<lambda>l. l @ [LF]) ls) @ [LF]"

definition clean_line :: "string \<Rightarrow> bool" where
  "clean_line l \<longleftrightarrow> l \<noteq> [] \<and> LF \<notin> set l \<and> last l \<noteq> CR"

definition clean_text :: "string \<Rightarrow> bool" where
  "clean_text s \<longleftrightarrow> LF \<notin> set s \<and> (s = [] \<or> last s \<noteq> CR)"

lemma wire_simps [simp]:
  "wire [] = []" "wire (Write b # ops) = b @ wire ops" "wire (Flush # ops) = wire ops"
  "wire (xs @ ys) = wire xs @ wire ys"
  by (simp_all add: wire_def)

lemma wire_data_lines:
  "wire (data_lines data) = concat (map (\<lambda>l. (''data: '' @ l) @ [LF]) (Split data LF))"
  by (simp add: wire_def data_lines_def comp_def)

lemma clean_line_trim: "clean_line l \<Longrightarrow> trim_line l = l"
  by (cases l rule: rev_cases) (auto simp: clean_line_def trim_line_def TrimRight_def)

lemma clean_line_append: "clean_text s \<Longrightarrow> clean_line p \<Longrightarrow> clean_line (p @ s)"
  by (auto simp: clean_line_def clean_text_def last_append)

lemma stream_lines_frame:
  "list_all clean_line ls \<Longrightarrow> stream_lines (frame_bytes ls @ t) = ls @ [] # stream_lines t"
proof (induction ls)
  case Nil
  then show ?case
    using stream_lines_line [of "[]" t] by (simp add: frame_bytes_def trim_line_def)
next
  case (Cons l ls)
  then have l: "LF \<notin> set l" "trim_line l = l"
    by (auto simp: clean_line_def clean_line_trim)
  have "frame_bytes (l # ls) @ t = l @ LF # (frame_bytes ls @ t)"
    by (simp add: frame_bytes_def)
  then show ?case using Cons l by (simp add: stream_lines_line)
qed

lemma blocks_frame:
  "list_all clean_line ls \<Longrightarrow> cur @ ls \<noteq> [] \<Longrightarrow>
   blocks cur (ls @ [] # rest) = (case blocks [] rest of (bs, c) \<Rightarrow> ((cur @ ls) # bs, c))"
  by (induction ls arbitrary: cur) (auto simp: clean_line_def split: prod.splits)

lemma blocks_frames:
  assumes "\<forall>f \<in> set fs. f \<noteq> [] \<and> list_all clean_line f"
  shows "blocks [] (stream_lines (concat (map frame_bytes fs))) = (fs, [])"
  using assms
  by (induction fs) (simp_all add: stream_lines_tail stream_lines_frame blocks_frame)

lemma frames_no_bom:
  assumes "\<forall>f \<in> set fs. f \<noteq> [] \<and> hd f \<noteq> [] \<and> hd (hd f) \<noteq> CHR 0xEF"
  shows "strip_bom (source_of (concat (map frame_bytes fs))) = source_of (concat (map frame_bytes fs))"
proof (cases fs)
  case Nil
  then show ?thesis by (simp add: strip_bom_def Peek_def BOM_def source_of_def)
next
  case (Cons f fs')
  then obtain c l ls where "f = (c # l) # ls" "c \<noteq> CHR 0xEF"
    using assms by (cases f; cases "hd f") auto
  then show ?thesis using Cons
    by (simp add: strip_bom_def Peek_def BOM_def source_of_def frame_bytes_def)
qed

text \<open>A sequence of clean frames is read back as exactly the events of its frames.\<close>

lemma ReadEvents_frames:
  assumes "\<forall>f \<in> set fs. f \<noteq> [] \<and> list_all clean_line f \<and> hd (hd f) \<noteq> CHR 0xEF"
  shows "ReadEvents (NewSSEEventReader (source_of (concat (map frame_bytes fs)))) =
    (map block_event fs, zero_event, EOF)"
proof -
  have "\<forall>f \<in> set fs. f \<noteq> [] \<and> hd f \<noteq> [] \<and> hd (hd f) \<noteq> CHR 0xEF"
    using assms by (auto simp: clean_line_def neq_Nil_conv)
  from frames_no_bom [OF this] show ?thesis
    using ReadEvents_blocks [of "source_of (concat (map frame_bytes fs))" fs "[]"]
      blocks_frames [of fs] assms
    by (simp add: block_event_def)
qed


section \<open>The event a message stands for\<close>

text \<open>
  What the client must receive for a message: nothing for a message without content, the
  comment, the bare retry hint, or the data with its type, id and hint.
\<close>

definition msg_event ::
  "('o \<Rightarrow> string + bytes \<times> int) \<Rightarrow> 'o sse_msg \<Rightarrow> sse_read_event option" where
  "msg_event encode m =
     (if om_Comment m \<noteq> [] then Some (zero_event\<lparr>rd_Comment := om_Comment m\<rparr>)
      else (case om_Data m of
          None \<Rightarrow> if 0 < om_Retry m then Some (zero_event\<lparr>rd_Retry := om_Retry m\<rparr>) else None
        | Some d \<Rightarrow> (case encode d of
            Inl _ \<Rightarrow> None
          | Inr (data, _) \<Rightarrow> Some \<lparr>rd_Event = om_Event m, rd_Data = data, rd_ID = om_ID m,
              rd_Retry = (if 0 < om_Retry m then om_Retry m else 0), rd_Comment = []\<rparr>)))"

text \<open>The texts of a message that survive the line format.\<close>

definition safe_msg :: "('o \<Rightarrow> string + bytes \<times> int) \<Rightarrow> 'o sse_msg \<Rightarrow> bool" where
  "safe_msg encode m \<longleftrightarrow>
     clean_text (om_Comment m) \<and> clean_text (om_Event m) \<and>
     clean_text (om_ID m) \<and> NUL \<notin> set (om_ID m) \<and> om_Retry m < 2 ^ 63 \<and>
     (case om_Data m of None \<Rightarrow> True | Some d \<Rightarrow>
       (case encode d of Inl _ \<Rightarrow> True | Inr (data, _) \<Rightarrow> list_all clean_text (Split data LF)))"

text \<open>The frame of a message: its wire bytes, line by line. A comment is a field without a name.\<close>

definition field_text :: "string \<Rightarrow> string \<Rightarrow> string" where
  "field_text name v = name @ '': '' @ v"

definition event_frame :: "string \<Rightarrow> string \<Rightarrow> int \<Rightarrow> bytes \<Rightarrow> string list" where
  "event_frame ev ident retry data =
     (if ev \<noteq> [] then [field_text ''event'' ev] else []) @
     (if ident \<noteq> [] then [field_text ''id'' ident] else []) @
     (if 0 < retry then [field_text ''retry'' (dec_int retry)] else []) @
     map (field_text ''data'') (Split data LF)"

definition msg_frame :: "('o \<Rightarrow> string + bytes \<times> int) \<Rightarrow> 'o sse_msg \<Rightarrow> string list option" where
  "msg_frame encode m =
     (if om_Comment m \<noteq> [] then Some [field_text [] (om_Comment m)]
      else (case om_Data m of
          None \<Rightarrow> if 0 < om_Retry m then Some [field_text ''retry'' (dec_int (om_Retry m))] else None
        | Some d \<Rightarrow> (case encode d of
            Inl _ \<Rightarrow> None
          | Inr (data, _) \<Rightarrow> Some (event_frame (om_Event m) (om_ID m) (om_Retry m) data))))"

lemma sse_write_frame:
  "wire (snd (sse_write encode m)) = (case msg_frame encode m of None \<Rightarrow> [] | Some f \<Rightarrow> frame_bytes f)"
  by (auto simp: sse_write_def msg_frame_def frame_bytes_def event_frame_def wire_data_lines comp_def
      field_text_def
      split: option.splits sum.splits prod.splits)

lemma split_field_text:
  "CHR '':'' \<notin> set name \<Longrightarrow> split_field (field_text name v) = (name, v)"
  by (simp add: split_field_def field_text_def IndexByte_append_hit strip_one_space_def)

lemma process_field_text:
  assumes "CHR '':'' \<notin> set name" and "name \<noteq> []"
  shows "process_line (field_text name v) st = process_field st name v"
proof -
  have "hd (field_text name v) \<noteq> CHR '':''"
    using assms by (cases name) (auto simp: field_text_def)
  then show ?thesis by (simp add: process_line_def split_field_text [OF assms(1)])
qed

lemma process_line_fields:
  "process_line (field_text ''event'' v) st = st\<lparr>st_touched := True, st_event := v\<rparr>"
  "process_line (field_text ''data'' v) st =
     st\<lparr>st_touched := True, st_dataLines := st_dataLines st @ [v]\<rparr>"
  "NUL \<notin> set v \<Longrightarrow>
   process_line (field_text ''id'' v) st = st\<lparr>st_touched := True, st_id := v\<rparr>"
  by (simp_all add: process_field_text process_field_def ContainsRune_def Let_def)

lemma process_line_comment:
  "process_line (field_text [] v) st = st\<lparr>st_comment := v, st_touched := True\<rparr>"
  by (simp add: process_line_def process_comment_def field_text_def strip_one_space_def)

lemma process_line_retry_field:
  assumes "0 < n" and "n < 2 ^ 63"
  shows "process_line (field_text ''retry'' (dec_int n)) st = st\<lparr>st_touched := True, st_retry := n\<rparr>"
proof -
  have "Atoi (dec_int n) = Some n"
    using assms Atoi_dec_nat [of "nat n"] by (simp add: dec_int_def)
  moreover have "isAllDigits (dec_int n)"
    using assms dec_nat_digits by (simp add: dec_int_def isAllDigits_iff)
  ultimately show ?thesis using assms
    by (simp add: process_field_text process_field_def Let_def)
qed

lemma fold_data_lines:
  "fold process_line (map (field_text ''data'') ls) st =
   st\<lparr>st_touched := st_touched st \<or> ls \<noteq> [], st_dataLines := st_dataLines st @ ls\<rparr>"
  by (induction ls arbitrary: st) (simp_all add: process_line_fields)

lemmas field_simps_sse = process_line_fields process_line_comment process_line_retry_field
  fold_data_lines

lemma event_frame_event:
  assumes "NUL \<notin> set ident" and "retry < 2 ^ 63"
  shows "block_event (event_frame ev ident retry data) =
    \<lparr>rd_Event = ev, rd_Data = data, rd_ID = ident,
     rd_Retry = (if 0 < retry then retry else 0), rd_Comment = []\<rparr>"
proof -
  have "event_frame ev ident retry data \<noteq> []" by (simp add: event_frame_def)
  then show ?thesis
    using assms Join_Split [of data LF]
    by (simp add: block_event_def finish_def event_frame_def field_simps_sse init_state_def)
qed

lemma single_field_event:
  "block_event [field_text [] c] = zero_event\<lparr>rd_Comment := c\<rparr>"
  "0 < n \<Longrightarrow> n < 2 ^ 63 \<Longrightarrow>
   block_event [field_text ''retry'' (dec_int n)] = zero_event\<lparr>rd_Retry := n\<rparr>"
  by (simp_all add: block_event_def field_simps_sse finish_def init_state_def zero_event_def)

lemma msg_frame_event:
  "safe_msg encode m \<Longrightarrow> map_option block_event (msg_frame encode m) = msg_event encode m"
  by (auto simp: msg_frame_def msg_event_def safe_msg_def event_frame_event single_field_event
      split: option.splits sum.splits prod.splits)

lemma clean_dec_int: "0 < n \<Longrightarrow> clean_text (dec_int n)"
proof -
  assume "0 < n"
  have dig: "\<forall>c \<in> set (dec_nat (nat n)). is_digit c"
    using dec_nat_digits by (simp add: list_all_iff)
  then have "is_digit (last (dec_nat (nat n)))" by simp
  then have "last (dec_nat (nat n)) \<noteq> CR" by (auto simp: is_digit_def)
  moreover have "LF \<notin> set (dec_nat (nat n))" using dig by (auto simp: is_digit_def)
  ultimately show ?thesis using \<open>0 < n\<close> by (simp add: clean_text_def dec_int_def)
qed

lemma clean_field_text:
  "clean_text v \<Longrightarrow> clean_text name \<Longrightarrow> clean_line (field_text name v)"
  by (auto simp: field_text_def clean_line_def clean_text_def last_append)

lemma hd_field_text: "hd (field_text name v) = (if name = [] then CHR '':'' else hd name)"
  by (simp add: field_text_def hd_append)

lemma event_frame_clean:
  assumes "clean_text ev" and "clean_text ident" and "list_all clean_text (Split data LF)"
  shows "event_frame ev ident retry data \<noteq> [] \<and>
    list_all clean_line (event_frame ev ident retry data) \<and>
    hd (hd (event_frame ev ident retry data)) \<noteq> CHR 0xEF"
proof -
  have "clean_text ''event''" "clean_text ''id''" "clean_text ''retry''" "clean_text ''data''"
    by (simp_all add: clean_text_def)
  then show ?thesis using assms
    by (auto simp: event_frame_def list_all_iff clean_dec_int hd_field_text hd_map
        intro!: clean_field_text)
qed

lemma msg_frame_clean:
  assumes "safe_msg encode m" and "msg_frame encode m = Some f"
  shows "f \<noteq> [] \<and> list_all clean_line f \<and> hd (hd f) \<noteq> CHR 0xEF"
proof -
  have "clean_text []" "clean_text ''retry''" by (simp_all add: clean_text_def)
  then show ?thesis
    using assms event_frame_clean clean_dec_int
    by (auto simp: msg_frame_def safe_msg_def hd_field_text intro!: clean_field_text
        split: if_splits option.splits sum.splits prod.splits)
qed

lemma sse_wire_frames:
  "sse_wire encode ms = concat (map frame_bytes (List.map_filter (msg_frame encode) ms))"
  by (induction ms)
     (auto simp: sse_wire_def sse_write_frame List.map_filter_simps split: option.splits)

lemma sse_wire_read_back:
  assumes "\<forall>m \<in> set ms. safe_msg encode m"
  shows "ReadEvents (NewSSEEventReader (source_of (sse_wire encode ms))) =
    (List.map_filter (msg_event encode) ms, zero_event, EOF)"
proof -
  let ?fs = "List.map_filter (msg_frame encode) ms"
  have "\<forall>f \<in> set ?fs. f \<noteq> [] \<and> list_all clean_line f \<and> hd (hd f) \<noteq> CHR 0xEF"
    using assms msg_frame_clean by (fastforce simp: List.map_filter_def)
  moreover have "map block_event ?fs = List.map_filter (msg_event encode) ms"
    using assms
  proof (induction ms)
    case (Cons m ms)
    then show ?case using msg_frame_event [of encode m, symmetric]
      by (auto simp: List.map_filter_simps split: option.splits)
  qed (simp add: List.map_filter_simps)
  ultimately show ?thesis by (simp add: sse_wire_frames ReadEvents_frames)
qed

section \<open>The two writers agree\<close>

text \<open>A streamed event as a message of a connection.\<close>

definition event_msg :: "'d sse_event \<Rightarrow> 'd sse_msg" where
  "event_msg e = \<lparr>om_Data = se_Data e, om_Event = se_Event e, om_ID = se_ID e,
     om_Retry = 0, om_Comment = []\<rparr>"

lemma writeSSEEvent_eq_sse_write:
  "se_Data e = Some d \<Longrightarrow> encode d = Inr r \<Longrightarrow>
   writeSSEEvent encode marshal e = snd (sse_write encode (event_msg e))"
  by (cases r) (simp add: writeSSEEvent_def sse_write_def event_msg_def)


section \<open>Properties\<close>

text \<open>
  C1: Reading what a connection wrote gives back what was sent. For every sequence of messages
  whose texts fit the line format, the reader applied to the bytes the Writer callback emits
  returns exactly the events of the messages, in order, nothing more, and then end of file.
\<close>

theorem sse_stream_roundtrip:
  assumes "\<forall>m \<in> set ms. safe_msg encode m"
  shows "ReadEvents (NewSSEEventReader (source_of (sse_wire encode ms))) =
    (List.map_filter (msg_event encode) ms, zero_event, EOF)"
  using assms by (rule sse_wire_read_back)

definition sample_msgs :: "string sse_msg list" where
  "sample_msgs =
     [\<lparr>om_Data = Some ''{}'', om_Event = ''update'', om_ID = ''7'', om_Retry = 1500, om_Comment = []\<rparr>,
      \<lparr>om_Data = None, om_Event = [], om_ID = [], om_Retry = 0, om_Comment = ''keepalive''\<rparr>,
      \<lparr>om_Data = Some (''a'' @ [LF] @ ''b''), om_Event = [], om_ID = [], om_Retry = 0, om_Comment = []\<rparr>]"

theorem sse_stream_roundtrip_witness:
  "ReadEvents (NewSSEEventReader (source_of (sse_wire (\<lambda>d. Inr (d, 1)) sample_msgs))) =
    ([\<lparr>rd_Event = ''update'', rd_Data = ''{}'', rd_ID = ''7'', rd_Retry = 1500, rd_Comment = []\<rparr>,
      zero_event\<lparr>rd_Comment := ''keepalive''\<rparr>,
      zero_event\<lparr>rd_Data := ''a'' @ [LF] @ ''b''\<rparr>], zero_event, EOF)"
proof -
  have "\<forall>m \<in> set sample_msgs. safe_msg (\<lambda>d. Inr (d, 1)) m"
    by (simp add: sample_msgs_def safe_msg_def clean_text_def)
  from sse_stream_roundtrip [OF this] show ?thesis
    by (simp add: sample_msgs_def msg_event_def List.map_filter_simps zero_event_def)
qed

text \<open>
  The two places of the code that format an event agree: where the codec encodes the payload,
  a streamed response's writeSSEEvent makes the same Write and Flush calls, in the same order, as
  the Writer callback of a connection for the same event.
\<close>

theorem streamable_wire_equivalence:
  assumes "se_Data e = Some d" and "encode d = Inr r"
  shows "writeSSEEvent encode marshal e = snd (sse_write encode (event_msg e))"
  using assms by (rule writeSSEEvent_eq_sse_write)

theorem streamable_wire_equivalence_witness:
  "writeSSEEvent (\<lambda>d. Inr (d, 1)) (\<lambda>_. Inl ''no'') \<lparr>se_Event = ''e'', se_Data = Some ''x'', se_ID = []\<rparr> =
     snd (sse_write (\<lambda>d. Inr (d, 1)) (event_msg \<lparr>se_Event = ''e'', se_Data = Some ''x'', se_ID = []\<rparr>))"
  by (rule streamable_wire_equivalence [where d = "''x''" and r = "(''x'', 1)"]) simp_all

section \<open>What the writer does not check\<close>

text \<open>
  Neither writer looks for line feeds in the event type or the id: a type with a line feed
  ends its line early, and the rest is read as a field of its own.
\<close>

lemma event_type_injection:
  "ReadEvents (NewSSEEventReader (source_of (sse_wire (\<lambda>d. Inr (d, 1))
     [\<lparr>om_Data = Some ''x'', om_Event = ''a'' @ [LF] @ ''id: 9'', om_ID = [], om_Retry = 0,
       om_Comment = []\<rparr>]))) =
   ([\<lparr>rd_Event = ''a'', rd_Data = ''x'', rd_ID = ''9'', rd_Retry = 0, rd_Comment = []\<rparr>],
    zero_event, EOF)"
  by (simp add: ReadEvents_blocks sse_wire_def sse_write_def data_lines_def wire_def strip_bom_def
      Peek_def BOM_def stream_lines_def trim_line_def TrimRight_def block_event_def process_line_def
      split_field_def strip_one_space_def process_field_def finish_def init_state_def zero_event_def
      ContainsRune_def Let_def)

end
