(* ===== verification/SseConn.thy ===== *)
theory SseConn
  imports SseWriter
begin

text \<open>
  \<open>BaseSSEConn\<close> of \<open>http/sseconn.go\<close>: the connection's state with its channels and once flags,
  one definition per method, and the lifecycle theorem over every sequence of method calls. What
  the connection does to its writer is the list of calls it makes. Fresh identifiers are the parameter \<open>rnd\<close>, the string
  that \<open>RandString\<close> returns in that call.
\<close>

section \<open>State and methods\<close>

record 'o base_sse_conn =
  Writer :: "'o sse_msg writer_call list option"
  NameStr :: string
  ConnIdStr :: string
  ready_ch :: chan
  readyOnce :: bool
  done_ch :: chan
  doneOnce :: bool

text \<open>The zero value with the two identifying fields set, as an application builds it.\<close>

definition new_conn :: "string \<Rightarrow> string \<Rightarrow> 'o base_sse_conn" where
  "new_conn name ident =
     \<lparr>Writer = None, NameStr = name, ConnIdStr = ident, ready_ch = NilChan, readyOnce = False,
      done_ch = NilChan, doneOnce = False\<rparr>"

definition blank_msg :: "'o sse_msg" where
  "blank_msg = \<lparr>om_Data = None, om_Event = [], om_ID = [], om_Retry = 0, om_Comment = []\<rparr>"

definition Name :: "'o base_sse_conn \<Rightarrow> string \<times> 'o base_sse_conn" where
  "Name c = (let c = (if NameStr c = [] then c\<lparr>NameStr := ''SSEConn''\<rparr> else c) in (NameStr c, c))"

definition ConnId :: "string \<Rightarrow> 'o base_sse_conn \<Rightarrow> string \<times> 'o base_sse_conn" where
  "ConnId rnd c = (let c = (if ConnIdStr c = [] then c\<lparr>ConnIdStr := rnd\<rparr> else c) in (ConnIdStr c, c))"

definition initReady :: "'o base_sse_conn \<Rightarrow> 'o base_sse_conn" where
  "initReady c = (if readyOnce c then c else c\<lparr>ready_ch := OpenChan, readyOnce := True\<rparr>)"

definition Ready :: "'o base_sse_conn \<Rightarrow> chan \<times> 'o base_sse_conn" where
  "Ready c = (let c = initReady c in (ready_ch c, c))"

text \<open>
  \<open>OnStart\<close>: the flag says whether the response writer is an \<open>http.Flusher\<close>. The result is the
  outcome, the error, what was done to the response writer, and the connection.
\<close>

definition OnStart ::
  "bool \<Rightarrow> string \<Rightarrow> 'o base_sse_conn \<Rightarrow> outcome \<times> string option \<times> rw_op list \<times> 'o base_sse_conn" where
  "OnStart flusher rnd c =
     (if \<not> flusher then
        (Returned, Some ''streaming not supported: ResponseWriter does not implement http.Flusher'', [], c)
      else
        let c = snd (ConnId rnd (snd (Name c)));
            c = (initReady c)\<lparr>done_ch := OpenChan, Writer := Some []\<rparr>
        in (case close_chan (ready_ch c) of
              (p, ch) \<Rightarrow> (p, None, [Flush], c\<lparr>ready_ch := ch\<rparr>)))"

definition call_writer :: "'o sse_msg writer_call \<Rightarrow> 'o base_sse_conn \<Rightarrow> 'o base_sse_conn" where
  "call_writer k c = (case Writer c of None \<Rightarrow> c | Some ks \<Rightarrow> c\<lparr>Writer := Some (ks @ [k])\<rparr>)"

definition close_done :: "'o base_sse_conn \<Rightarrow> outcome \<times> 'o base_sse_conn" where
  "close_done c =
     (if doneOnce c then (Returned, c)
      else if done_ch c = NilChan then (Returned, c\<lparr>doneOnce := True\<rparr>)
      else (case close_chan (done_ch c) of (p, ch) \<Rightarrow> (p, c\<lparr>done_ch := ch, doneOnce := True\<rparr>)))"

definition Close :: "'o base_sse_conn \<Rightarrow> outcome \<times> 'o base_sse_conn" where
  "Close c = close_done c"

definition OnClose :: "string \<Rightarrow> 'o base_sse_conn \<Rightarrow> outcome \<times> 'o base_sse_conn" where
  "OnClose rnd c =
     (case close_done (call_writer WStop c) of
        (Returned, c) \<Rightarrow> (Returned, snd (ConnId rnd (snd (Name c))))
      | r \<Rightarrow> r)"

definition SendOutput :: "'o \<Rightarrow> 'o base_sse_conn \<Rightarrow> 'o base_sse_conn" where
  "SendOutput msg c = call_writer (WSend (blank_msg\<lparr>om_Data := Some msg\<rparr>)) c"

definition SendEvent :: "string \<Rightarrow> 'o \<Rightarrow> 'o base_sse_conn \<Rightarrow> 'o base_sse_conn" where
  "SendEvent event msg c = call_writer (WSend (blank_msg\<lparr>om_Data := Some msg, om_Event := event\<rparr>)) c"

definition SendEventWithID :: "string \<Rightarrow> string \<Rightarrow> 'o \<Rightarrow> 'o base_sse_conn \<Rightarrow> 'o base_sse_conn" where
  "SendEventWithID event ident msg c =
     call_writer (WSend (blank_msg\<lparr>om_Data := Some msg, om_Event := event, om_ID := ident\<rparr>)) c"

definition SendKeepalive :: "'o base_sse_conn \<Rightarrow> 'o base_sse_conn" where
  "SendKeepalive c = call_writer (WSend (blank_msg\<lparr>om_Comment := ''keepalive''\<rparr>)) c"

definition SendRetry :: "int \<Rightarrow> 'o base_sse_conn \<Rightarrow> 'o base_sse_conn" where
  "SendRetry ms c = (if 0 < ms then call_writer (WSend (blank_msg\<lparr>om_Retry := ms\<rparr>)) c else c)"

definition Done :: "'o base_sse_conn \<Rightarrow> chan" where
  "Done c = done_ch c"

text \<open>\<open>input\<close> is the input channel of the library's writer, for use with a fan-out.\<close>

definition InputChan :: "'h \<Rightarrow> 'o base_sse_conn \<Rightarrow> 'h option" where
  "InputChan input c = (if Writer c = None then None else Some input)"

section \<open>Rules for the methods\<close>

lemma call_writer_frame [simp, go_state]:
  "NameStr (call_writer k c) = NameStr c" "ConnIdStr (call_writer k c) = ConnIdStr c"
  "ready_ch (call_writer k c) = ready_ch c" "readyOnce (call_writer k c) = readyOnce c"
  "done_ch (call_writer k c) = done_ch c" "doneOnce (call_writer k c) = doneOnce c"
  "Writer (call_writer k c) = map_option (\<lambda>ks. ks @ [k]) (Writer c)"
  by (simp_all add: call_writer_def split: option.split)

lemma snd_Name_frame [simp, go_state]:
  "Writer (snd (Name c)) = Writer c" "ConnIdStr (snd (Name c)) = ConnIdStr c"
  "ready_ch (snd (Name c)) = ready_ch c" "readyOnce (snd (Name c)) = readyOnce c"
  "done_ch (snd (Name c)) = done_ch c" "doneOnce (snd (Name c)) = doneOnce c"
  by (simp_all add: Name_def Let_def)

lemma snd_ConnId_frame [simp, go_state]:
  "Writer (snd (ConnId rnd c)) = Writer c" "NameStr (snd (ConnId rnd c)) = NameStr c"
  "ready_ch (snd (ConnId rnd c)) = ready_ch c" "readyOnce (snd (ConnId rnd c)) = readyOnce c"
  "done_ch (snd (ConnId rnd c)) = done_ch c" "doneOnce (snd (ConnId rnd c)) = doneOnce c"
  "ConnIdStr (snd (ConnId rnd c)) = (if ConnIdStr c = [] then rnd else ConnIdStr c)"
  by (simp_all add: ConnId_def Let_def)

lemma initReady_frame [simp, go_state]:
  "Writer (initReady c) = Writer c" "NameStr (initReady c) = NameStr c"
  "ConnIdStr (initReady c) = ConnIdStr c" "done_ch (initReady c) = done_ch c"
  "doneOnce (initReady c) = doneOnce c" "readyOnce (initReady c)"
  by (simp_all add: initReady_def)

lemma close_done_frame [simp, go_state]:
  "Writer (snd (close_done c)) = Writer c" "NameStr (snd (close_done c)) = NameStr c"
  "ConnIdStr (snd (close_done c)) = ConnIdStr c" "ready_ch (snd (close_done c)) = ready_ch c"
  "readyOnce (snd (close_done c)) = readyOnce c" "doneOnce (snd (close_done c))"
  by (simp_all add: close_done_def split: prod.split)

text \<open>
  The invariant of a connection: the ready channel exists once its once flag is set, and a
  closed done channel has used its once flag up.
\<close>

definition conn_inv :: "'o base_sse_conn \<Rightarrow> bool" where
  "conn_inv c \<longleftrightarrow> (readyOnce c \<longleftrightarrow> ready_ch c \<noteq> NilChan) \<and> (done_ch c = ClosedChan \<longrightarrow> doneOnce c)"

lemma conn_inv_new [simp, intro]: "conn_inv (new_conn n i)"
  by (simp add: conn_inv_def new_conn_def)

lemma close_done_ok:
  "conn_inv c \<Longrightarrow> fst (close_done c) = Returned \<and> conn_inv (snd (close_done c))"
  by (cases "done_ch c") (auto simp: conn_inv_def close_done_def close_chan_def)

lemma close_done_done:
  "conn_inv c \<Longrightarrow> done_ch (snd (close_done c)) =
     (if doneOnce c \<or> done_ch c = NilChan then done_ch c else ClosedChan)"
  by (cases "done_ch c") (auto simp: conn_inv_def close_done_def close_chan_def)

lemma OnClose_eq:
  assumes "conn_inv c"
  shows "OnClose rnd c =
    (Returned, snd (ConnId rnd (snd (Name (snd (close_done (call_writer WStop c)))))))"
proof -
  have "conn_inv (call_writer WStop c)" using assms by (simp add: conn_inv_def)
  then have "fst (close_done (call_writer WStop c)) = Returned" using close_done_ok by blast
  then show ?thesis by (cases "close_done (call_writer WStop c)") (simp add: OnClose_def)
qed

section \<open>Sequences of calls\<close>

text \<open>
  The methods of a connection after it was started, as the application and the hub call them. A
  run applies them in order and stops at the first panic.
\<close>

datatype 'o conn_op =
    OpName | OpConnId string | OpReady
  | OpSendOutput 'o | OpSendEvent string 'o | OpSendEventWithID string string 'o
  | OpKeepalive | OpRetry int
  | OpClose | OpOnClose string

fun conn_step :: "'o conn_op \<Rightarrow> 'o base_sse_conn \<Rightarrow> outcome \<times> 'o base_sse_conn" where
  "conn_step OpName c = (Returned, snd (Name c))"
| "conn_step (OpConnId rnd) c = (Returned, snd (ConnId rnd c))"
| "conn_step OpReady c = (Returned, snd (Ready c))"
| "conn_step (OpSendOutput m) c = (Returned, SendOutput m c)"
| "conn_step (OpSendEvent e m) c = (Returned, SendEvent e m c)"
| "conn_step (OpSendEventWithID e i m) c = (Returned, SendEventWithID e i m c)"
| "conn_step OpKeepalive c = (Returned, SendKeepalive c)"
| "conn_step (OpRetry ms) c = (Returned, SendRetry ms c)"
| "conn_step OpClose c = Close c"
| "conn_step (OpOnClose rnd) c = OnClose rnd c"

fun conn_run :: "'o conn_op list \<Rightarrow> 'o base_sse_conn \<Rightarrow> outcome \<times> 'o base_sse_conn" where
  "conn_run [] c = (Returned, c)"
| "conn_run (p # ps) c = (case conn_step p c of
      (Returned, c') \<Rightarrow> conn_run ps c'
    | r \<Rightarrow> r)"

text \<open>What a sequence of calls asks of the writer, in order.\<close>

fun writer_calls :: "'o conn_op \<Rightarrow> 'o sse_msg writer_call list" where
  "writer_calls (OpSendOutput m) = [WSend (blank_msg\<lparr>om_Data := Some m\<rparr>)]"
| "writer_calls (OpSendEvent e m) = [WSend (blank_msg\<lparr>om_Data := Some m, om_Event := e\<rparr>)]"
| "writer_calls (OpSendEventWithID e i m) =
     [WSend (blank_msg\<lparr>om_Data := Some m, om_Event := e, om_ID := i\<rparr>)]"
| "writer_calls OpKeepalive = [WSend (blank_msg\<lparr>om_Comment := ''keepalive''\<rparr>)]"
| "writer_calls (OpRetry ms) = (if 0 < ms then [WSend (blank_msg\<lparr>om_Retry := ms\<rparr>)] else [])"
| "writer_calls (OpOnClose rnd) = [WStop]"
| "writer_calls _ = []"

fun closing :: "'o conn_op \<Rightarrow> bool" where
  "closing OpClose = True"
| "closing (OpOnClose rnd) = True"
| "closing _ = False"

text \<open>A connection between its start and its end: nothing of it is nil any more.\<close>

definition started :: "'o base_sse_conn \<Rightarrow> bool" where
  "started c \<longleftrightarrow> conn_inv c \<and> ready_ch c = ClosedChan \<and> Writer c \<noteq> None \<and> done_ch c \<noteq> NilChan \<and>
     (doneOnce c \<longleftrightarrow> done_ch c = ClosedChan)"

lemma conn_step_started:
  assumes "started c"
  shows "fst (conn_step p c) = Returned \<and> started (snd (conn_step p c)) \<and>
    Writer (snd (conn_step p c)) = map_option (\<lambda>ks. ks @ writer_calls p) (Writer c) \<and>
    Done (snd (conn_step p c)) = (if closing p then ClosedChan else Done c)"
proof -
  obtain ks where ks: "Writer c = Some ks" using assms by (auto simp: started_def)
  have inv: "conn_inv c" using assms by (simp add: started_def)
  have inv': "conn_inv (call_writer WStop c)" using inv by (simp add: conn_inv_def)
  show ?thesis
  proof (cases p)
    case OpClose
    then show ?thesis
      using assms ks close_done_ok [OF inv] close_done_done [OF inv]
      by (auto simp: started_def Close_def Done_def conn_inv_def)
  next
    case (OpOnClose rnd)
    then show ?thesis
      using assms ks OnClose_eq [OF inv] close_done_ok [OF inv'] close_done_done [OF inv']
      by (auto simp: started_def Done_def conn_inv_def)
  qed (use assms ks in \<open>auto simp: started_def conn_inv_def Ready_def initReady_def Let_def Done_def
      SendOutput_def SendEvent_def SendEventWithID_def SendKeepalive_def SendRetry_def\<close>)
qed

lemma conn_run_started:
  assumes "started c"
  shows "fst (conn_run ps c) = Returned \<and> started (snd (conn_run ps c)) \<and>
    Writer (snd (conn_run ps c)) = map_option (\<lambda>ks. ks @ concat (map writer_calls ps)) (Writer c) \<and>
    Done (snd (conn_run ps c)) = (if list_ex closing ps then ClosedChan else Done c)"
  using assms
proof (induction ps arbitrary: c)
  case Nil
  then show ?case by (cases "Writer c") auto
next
  case (Cons p ps)
  note st = conn_step_started [OF Cons.prems, of p]
  obtain c' where c': "conn_step p c = (Returned, c')" using st by (cases "conn_step p c") auto
  then have "started c'" using st by simp
  from Cons.IH [OF this] show ?case
    using st c' by (cases "Writer c") auto
qed

lemma OnStart_new:
  "OnStart True rnd (new_conn n i) =
    (Returned, None, [Flush],
     \<lparr>Writer = Some [], NameStr = (if n = [] then ''SSEConn'' else n),
      ConnIdStr = (if i = [] then rnd else i), ready_ch = ClosedChan, readyOnce = True,
      done_ch = OpenChan, doneOnce = False\<rparr>)"
  by (simp add: OnStart_def new_conn_def Name_def ConnId_def initReady_def close_chan_def Let_def)

lemma started_OnStart: "started (snd (snd (snd (OnStart True rnd (new_conn n i)))))"
  by (simp add: OnStart_new started_def conn_inv_def)

section \<open>Properties\<close>

text \<open>
  The life of a connection. After a first successful OnStart, no sequence of sends, Close and
  OnClose calls panics; the writer has received exactly the messages of the sends, in the order
  of the calls, and one stop for each OnClose; and the done channel is closed exactly when Close
  or OnClose was called at least once.
\<close>

theorem sse_conn_lifecycle:
  "case OnStart True rnd (new_conn n i) of (p, err, out, c) \<Rightarrow>
     p = Returned \<and> err = None \<and> out = [Flush] \<and>
     fst (conn_run ps c) = Returned \<and>
     Writer (snd (conn_run ps c)) = Some (concat (map writer_calls ps)) \<and>
     Done (snd (conn_run ps c)) = (if list_ex closing ps then ClosedChan else OpenChan)"
  using conn_run_started [OF started_OnStart, of ps rnd n i] by (simp add: OnStart_new Done_def)

section \<open>Closing before the start\<close>

text \<open>
  A connection that is closed before OnStart uses its once flag up on the nil channel. The
  channel that OnStart makes afterwards is never closed, however often the connection is closed.
\<close>

lemma conn_step_stuck:
  assumes "doneOnce c" and "Done c = OpenChan"
  shows "fst (conn_step p c) = Returned \<and> doneOnce (snd (conn_step p c)) \<and> Done (snd (conn_step p c)) = OpenChan"
  using assms
  by (cases p) (auto simp: Done_def Close_def OnClose_def close_done_def Ready_def Let_def
      SendOutput_def SendEvent_def SendEventWithID_def SendKeepalive_def SendRetry_def)

lemma close_before_start_is_lost:
  assumes "Close (new_conn n i) = (Returned, c)" and "OnStart True rnd c = (p, err, out, c')"
  shows "fst (conn_run ps c') = Returned \<and> Done (snd (conn_run ps c')) = OpenChan"
proof -
  have "doneOnce c' \<and> Done c' = OpenChan"
    using assms by (auto simp: Close_def close_done_def new_conn_def OnStart_def Let_def Done_def
        split: prod.splits)
  then show ?thesis
  proof (induction ps arbitrary: c')
    case (Cons q ps)
    obtain c'' where "conn_step q c' = (Returned, c'')"
      using conn_step_stuck [of c' q] Cons.prems by (cases "conn_step q c'") auto
    then show ?case using Cons.IH [of c''] conn_step_stuck [of c' q] Cons.prems by simp
  qed simp
qed

text \<open>A second OnStart closes the ready channel again and panics.\<close>

lemma second_start_panics:
  assumes "started c"
  shows "fst (OnStart True rnd c) = Panicked ''close of closed channel''"
proof -
  have "initReady c' = c'" if "readyOnce c'" for c' :: "'a base_sse_conn"
    using that by (simp add: initReady_def)
  moreover have "readyOnce c" "ready_ch c = ClosedChan"
    using assms by (auto simp: started_def conn_inv_def)
  ultimately show ?thesis by (simp add: OnStart_def close_chan_def Let_def)
qed

end
