(* ===== verification/SseHub.thy ===== *)
theory SseHub
  imports SseConn
begin

text \<open>
  \<open>SSEHub\<close> of \<open>http/ssehub.go\<close>. Connections are shared by pointer, so the state is a store of
  connections by address together with the hub's map from id to address. Ranging over a Go map
  visits each entry once in an order the language leaves open: the order is a parameter, and
  \<open>visits\<close> says which lists are possible. The hub's mutex makes each method atomic.
\<close>

section \<open>State and methods\<close>

record 'o hub_state =
  heap :: "nat \<Rightarrow> 'o base_sse_conn"
  conns :: "string \<Rightarrow> nat option"

definition NewSSEHub :: "(nat \<Rightarrow> 'o base_sse_conn) \<Rightarrow> 'o hub_state" where
  "NewSSEHub h = \<lparr>heap = h, conns = (\<lambda>ident. None)\<rparr>"

definition at_conn :: "nat \<Rightarrow> ('o base_sse_conn \<Rightarrow> 'o base_sse_conn) \<Rightarrow> 'o hub_state \<Rightarrow> 'o hub_state" where
  "at_conn a f s = s\<lparr>heap := (heap s)(a := f (heap s a))\<rparr>"

definition Register :: "string \<Rightarrow> nat \<Rightarrow> 'o hub_state \<Rightarrow> 'o hub_state" where
  "Register rnd a s =
     (let s = at_conn a (\<lambda>c. snd (ConnId rnd c)) s in
      s\<lparr>conns := (conns s)(ConnIdStr (heap s a) \<mapsto> a)\<rparr>)"

definition Unregister :: "string \<Rightarrow> 'o hub_state \<Rightarrow> 'o hub_state" where
  "Unregister ident s = s\<lparr>conns := (conns s)(ident := None)\<rparr>"

definition send_to ::
  "('o base_sse_conn \<Rightarrow> 'o base_sse_conn) \<Rightarrow> string \<Rightarrow> 'o hub_state \<Rightarrow> bool \<times> 'o hub_state" where
  "send_to f ident s = (case conns s ident of None \<Rightarrow> (False, s) | Some a \<Rightarrow> (True, at_conn a f s))"

definition Send :: "string \<Rightarrow> 'o \<Rightarrow> 'o hub_state \<Rightarrow> bool \<times> 'o hub_state" where
  "Send ident msg = send_to (SendOutput msg) ident"

definition HubSendEvent :: "string \<Rightarrow> string \<Rightarrow> 'o \<Rightarrow> 'o hub_state \<Rightarrow> bool \<times> 'o hub_state" where
  "HubSendEvent ident event msg = send_to (SendEvent event msg) ident"

definition HubSendEventWithID :: "string \<Rightarrow> string \<Rightarrow> string \<Rightarrow> 'o \<Rightarrow> 'o hub_state \<Rightarrow> bool \<times> 'o hub_state" where
  "HubSendEventWithID ident event evid msg = send_to (SendEventWithID event evid msg) ident"

definition for_each ::
  "('o base_sse_conn \<Rightarrow> 'o base_sse_conn) \<Rightarrow> string list \<Rightarrow> 'o hub_state \<Rightarrow> 'o hub_state" where
  "for_each f order s = fold (\<lambda>ident s. case conns s ident of None \<Rightarrow> s | Some a \<Rightarrow> at_conn a f s) order s"

definition Broadcast :: "string list \<Rightarrow> 'o \<Rightarrow> 'o hub_state \<Rightarrow> 'o hub_state" where
  "Broadcast order msg = for_each (SendOutput msg) order"

definition BroadcastEvent :: "string list \<Rightarrow> string \<Rightarrow> 'o \<Rightarrow> 'o hub_state \<Rightarrow> 'o hub_state" where
  "BroadcastEvent order event msg = for_each (SendEvent event msg) order"

definition BroadcastEventWithID ::
  "string list \<Rightarrow> string \<Rightarrow> string \<Rightarrow> 'o \<Rightarrow> 'o hub_state \<Rightarrow> 'o hub_state" where
  "BroadcastEventWithID order event evid msg = for_each (SendEventWithID event evid msg) order"

definition Count :: "'o hub_state \<Rightarrow> nat" where
  "Count s = card (dom (conns s))"

text \<open>\<open>CloseAll\<close> closes and deletes entry by entry; a panic in OnClose would leave the rest.\<close>

fun CloseAll :: "string \<Rightarrow> string list \<Rightarrow> 'o hub_state \<Rightarrow> outcome \<times> 'o hub_state" where
  "CloseAll rnd [] s = (Returned, s)"
| "CloseAll rnd (ident # order) s =
     (case conns s ident of
        None \<Rightarrow> CloseAll rnd order s
      | Some a \<Rightarrow>
          (case OnClose rnd (heap s a) of
             (Returned, c) \<Rightarrow> CloseAll rnd order (Unregister ident (at_conn a (\<lambda>_. c) s))
           | (p, c) \<Rightarrow> (p, at_conn a (\<lambda>_. c) s)))"

text \<open>The orders in which a range over the hub's map may visit it.\<close>

definition visits :: "string list \<Rightarrow> 'o hub_state \<Rightarrow> bool" where
  "visits order s \<longleftrightarrow> distinct order \<and> set order = dom (conns s)"

section \<open>The invariant\<close>

text \<open>
  The hub's map is finite, each entry is stored under the id of the connection it points to, and
  every connection keeps its own invariant. So no connection has two entries.
\<close>

definition hub_inv :: "'o hub_state \<Rightarrow> bool" where
  "hub_inv s \<longleftrightarrow> finite (dom (conns s)) \<and>
     (\<forall>ident a. conns s ident = Some a \<longrightarrow> ConnIdStr (heap s a) = ident) \<and>
     (\<forall>a. conn_inv (heap s a))"

lemma at_conn_simps [simp, go_state]:
  "conns (at_conn a f s) = conns s"
  "heap (at_conn a f s) b = (if b = a then f (heap s a) else heap s b)"
  by (simp_all add: at_conn_def)

lemma hub_inv_unique: "hub_inv s \<Longrightarrow> conns s i = Some a \<Longrightarrow> conns s j = Some a \<Longrightarrow> i = j"
  by (metis hub_inv_def)

lemma hub_inv_inj: "hub_inv s \<Longrightarrow> inj_on (\<lambda>i. the (conns s i)) (dom (conns s))"
  unfolding inj_on_def hub_inv_def by (metis domD option.sel)

text \<open>A change to a connection that the hub does not notice.\<close>

definition harmless :: "('o base_sse_conn \<Rightarrow> 'o base_sse_conn) \<Rightarrow> bool" where
  "harmless f \<longleftrightarrow> (\<forall>c. ConnIdStr (f c) = ConnIdStr c \<and> (conn_inv c \<longrightarrow> conn_inv (f c)))"

lemma harmless_sends [simp, intro]:
  "harmless (SendOutput m)" "harmless (SendEvent e m)" "harmless (SendEventWithID e i m)"
  by (simp_all add: harmless_def SendOutput_def SendEvent_def SendEventWithID_def conn_inv_def)

lemma hub_inv_at_conn: "harmless f \<Longrightarrow> hub_inv s \<Longrightarrow> hub_inv (at_conn a f s)"
  by (auto simp: hub_inv_def harmless_def)

lemma hub_inv_send_to: "harmless f \<Longrightarrow> hub_inv s \<Longrightarrow> hub_inv (snd (send_to f ident s))"
  by (auto simp: send_to_def hub_inv_at_conn split: option.split)

lemma for_each_simps [simp]:
  "for_each f [] s = s"
  "for_each f (i # order) s = for_each f order (case conns s i of None \<Rightarrow> s | Some a \<Rightarrow> at_conn a f s)"
  by (simp_all add: for_each_def)

lemma conns_for_each [simp]: "conns (for_each f order s) = conns s"
  by (induction order arbitrary: s) (auto split: option.split)

lemma hub_inv_for_each: "harmless f \<Longrightarrow> hub_inv s \<Longrightarrow> hub_inv (for_each f order s)"
  by (induction order arbitrary: s) (auto split: option.split intro: hub_inv_at_conn)

lemma hub_inv_Register:
  assumes "hub_inv s" and "ConnIdStr (heap s a) \<noteq> [] \<or> rnd \<noteq> []"
    and "\<forall>ident. conns s ident = Some a \<longrightarrow> ident \<noteq> []"
  shows "hub_inv (Register rnd a s)"
  using assms by (auto simp: hub_inv_def Register_def Let_def conn_inv_def)

lemma hub_inv_Unregister: "hub_inv s \<Longrightarrow> hub_inv (Unregister ident s)"
  by (auto simp: hub_inv_def Unregister_def)

lemma heap_for_each:
  assumes "hub_inv s" and "distinct order" and "set order \<subseteq> dom (conns s)" and "harmless f"
  shows "heap (for_each f order s) a =
    (if \<exists>i \<in> set order. conns s i = Some a then f (heap s a) else heap s a)"
  using assms
proof (induction order arbitrary: s)
  case (Cons i order)
  then obtain b where b: "conns s i = Some b" by auto
  have other: "\<not> (\<exists>j \<in> set order. conns s j = Some b)"
    using Cons.prems(2) b hub_inv_unique [OF Cons.prems(1)] by fastforce
  have "hub_inv (at_conn b f s)" using Cons.prems hub_inv_at_conn by blast
  from Cons.IH [OF this] Cons.prems other b show ?case by auto
qed simp

section \<open>Closing\<close>

lemma OnClose_frame:
  assumes "conn_inv c"
  shows "fst (OnClose rnd c) = Returned \<and> conn_inv (snd (OnClose rnd c)) \<and>
    ConnIdStr (snd (OnClose rnd c)) = (if ConnIdStr c = [] then rnd else ConnIdStr c) \<and>
    Writer (snd (OnClose rnd c)) = map_option (\<lambda>ks. ks @ [WStop]) (Writer c) \<and>
    (done_ch (snd (OnClose rnd c)) = OpenChan \<longleftrightarrow> done_ch c = OpenChan \<and> doneOnce c)"
proof -
  have inv: "conn_inv (call_writer WStop c)" using assms by (simp add: conn_inv_def)
  show ?thesis
    using OnClose_eq [OF assms, of rnd] close_done_ok [OF inv] close_done_done [OF inv]
    by (auto simp: conn_inv_def)
qed

lemma CloseAll_spec:
  assumes "hub_inv s" and "distinct order" and "set order \<subseteq> dom (conns s)"
  shows "fst (CloseAll rnd order s) = Returned \<and>
    conns (snd (CloseAll rnd order s)) = (\<lambda>i. if i \<in> set order then None else conns s i) \<and>
    (\<forall>a. heap (snd (CloseAll rnd order s)) a =
      (if \<exists>i \<in> set order. conns s i = Some a then snd (OnClose rnd (heap s a)) else heap s a))"
  using assms
proof (induction order arbitrary: s)
  case (Cons i order)
  then obtain b where b: "conns s i = Some b" by auto
  have inv: "conn_inv (heap s b)" using Cons.prems(1) by (simp add: hub_inv_def)
  obtain c where c: "OnClose rnd (heap s b) = (Returned, c)"
    using OnClose_frame [OF inv, of rnd] by (cases "OnClose rnd (heap s b)") auto
  let ?s = "Unregister i (at_conn b (\<lambda>_. c) s)"
  have other: "conns s j = Some b \<Longrightarrow> j = i" for j
    using hub_inv_unique [OF Cons.prems(1) _ b] .
  have "hub_inv ?s"
    using Cons.prems(1) c OnClose_frame [OF inv, of rnd] other
    by (auto simp: hub_inv_def Unregister_def split: if_splits)
  moreover have "set order \<subseteq> dom (conns ?s)"
    using Cons.prems(2,3) by (auto simp: Unregister_def)
  ultimately have IH: "fst (CloseAll rnd order ?s) = Returned"
    "conns (snd (CloseAll rnd order ?s)) = (\<lambda>j. if j \<in> set order then None else conns ?s j)"
    "\<And>a. heap (snd (CloseAll rnd order ?s)) a =
      (if \<exists>j \<in> set order. conns ?s j = Some a then snd (OnClose rnd (heap ?s a)) else heap ?s a)"
    using Cons.IH [of ?s] Cons.prems(2) by simp_all
  have eq: "CloseAll rnd (i # order) s = CloseAll rnd order ?s" using b c by simp
  have left: "(\<exists>j \<in> set order. conns ?s j = Some a) \<longleftrightarrow> (\<exists>j \<in> set order. conns s j = Some a)" for a
    using Cons.prems(2) by (auto simp: Unregister_def)
  have nob: "\<not> (\<exists>j \<in> set order. conns s j = Some b)"
    using other Cons.prems(2) by fastforce
  have "heap (snd (CloseAll rnd (i # order) s)) a =
      (if \<exists>j \<in> set (i # order). conns s j = Some a then snd (OnClose rnd (heap s a)) else heap s a)" for a
  proof (cases "a = b")
    case True
    then show ?thesis using IH(3) [of b] nob b c unfolding eq left by (simp add: Unregister_def)
  next
    case False
    then show ?thesis using IH(3) [of a] b unfolding eq left by (simp add: Unregister_def)
  qed
  moreover have "conns (snd (CloseAll rnd (i # order) s)) = (\<lambda>j. if j \<in> set (i # order) then None else conns s j)"
    using IH(2) unfolding eq by (auto simp: fun_eq_iff Unregister_def)
  ultimately show ?case using IH(1) unfolding eq by blast
qed simp

section \<open>Properties\<close>

text \<open>
  C7: A broadcast reaches every registered connection exactly once. Whatever the order in which
  the map is visited, each connection with an entry gets the message once, at the end of what it
  was sent before, every other connection is left alone, and the entries do not change.
\<close>

theorem hub_broadcast_once:
  assumes "hub_inv s" and "visits order s"
  shows "conns (Broadcast order msg s) = conns s \<and>
    (\<forall>a. heap (Broadcast order msg s) a =
      (if Some a \<in> range (conns s) then SendOutput msg (heap s a) else heap s a))"
proof (intro conjI allI)
  fix a
  have "(\<exists>i \<in> set order. conns s i = Some a) \<longleftrightarrow> Some a \<in> range (conns s)"
    using assms(2) by (auto simp: visits_def image_iff) (metis domI)+
  then show "heap (Broadcast order msg s) a =
      (if Some a \<in> range (conns s) then SendOutput msg (heap s a) else heap s a)"
    using heap_for_each [OF assms(1), of order "SendOutput msg"] assms(2)
    by (simp add: Broadcast_def visits_def)
qed (simp add: Broadcast_def)

text \<open>
  CloseAll empties the hub and closes what was in it. It never panics, no entry is left, and
  exactly the connections that had an entry were closed, each once, in any order of visit; such
  a connection has one stop more in its writer.
\<close>

theorem hub_close_all:
  assumes "hub_inv s" and "visits order s"
  shows "case CloseAll rnd order s of (p, s') \<Rightarrow>
    p = Returned \<and> Count s' = 0 \<and> (\<forall>i. conns s' i = None) \<and>
    (\<forall>a. heap s' a = (if Some a \<in> range (conns s) then snd (OnClose rnd (heap s a)) else heap s a) \<and>
      (Some a \<in> range (conns s) \<longrightarrow>
         Writer (heap s' a) = map_option (\<lambda>ks. ks @ [WStop]) (Writer (heap s a))))"
proof -
  have reg: "(\<exists>i \<in> set order. conns s i = Some a) \<longleftrightarrow> Some a \<in> range (conns s)" for a
    using assms(2) by (auto simp: visits_def image_iff) (metis domI)+
  have sub: "distinct order" "set order \<subseteq> dom (conns s)" using assms(2) by (simp_all add: visits_def)
  obtain p s' where run: "CloseAll rnd order s = (p, s')" by (cases "CloseAll rnd order s")
  have spec: "p = Returned" "conns s' = (\<lambda>i. if i \<in> set order then None else conns s i)"
    "\<And>a. heap s' a = (if Some a \<in> range (conns s) then snd (OnClose rnd (heap s a)) else heap s a)"
    using CloseAll_spec [OF assms(1) sub, of rnd] unfolding run reg by simp_all
  have none: "conns s' = (\<lambda>i. None)"
    using spec(2) assms(2) by (auto simp: visits_def fun_eq_iff domIff)
  have "conn_inv (heap s a)" for a using assms(1) by (simp add: hub_inv_def)
  then have stop: "Writer (snd (OnClose rnd (heap s a))) = map_option (\<lambda>ks. ks @ [WStop]) (Writer (heap s a))" for a
    using OnClose_frame by blast
  show ?thesis unfolding run using spec(1,3) none stop by (simp add: Count_def)
qed

text \<open>The operations of a hub and of its connections, in any interleaving.\<close>

datatype 'o hub_op =
    HRegister nat | HUnregister string
  | HSend string 'o | HSendEvent string string 'o | HSendEventWithID string string string 'o
  | HBroadcast 'o | HBroadcastEvent string 'o | HBroadcastEventWithID string string 'o
  | HCloseAll | HConn nat "'o conn_op"

text \<open>
  One operation, with the identifiers \<open>rnd\<close> that it may draw and an order of visit. Identifiers
  are not empty, which is what \<open>RandString\<close> of a positive length gives.
\<close>

inductive hub_step :: "'o hub_state \<Rightarrow> 'o hub_op \<Rightarrow> outcome \<Rightarrow> 'o hub_state \<Rightarrow> bool" where
  "rnd \<noteq> [] \<Longrightarrow> hub_step s (HRegister a) Returned (Register rnd a s)"
| "hub_step s (HUnregister i) Returned (Unregister i s)"
| "hub_step s (HSend i m) Returned (snd (Send i m s))"
| "hub_step s (HSendEvent i e m) Returned (snd (HubSendEvent i e m s))"
| "hub_step s (HSendEventWithID i e v m) Returned (snd (HubSendEventWithID i e v m s))"
| "visits order s \<Longrightarrow> hub_step s (HBroadcast m) Returned (Broadcast order m s)"
| "visits order s \<Longrightarrow> hub_step s (HBroadcastEvent e m) Returned (BroadcastEvent order e m s)"
| "visits order s \<Longrightarrow> hub_step s (HBroadcastEventWithID e v m) Returned (BroadcastEventWithID order e v m s)"
| "visits order s \<Longrightarrow> CloseAll rnd order s = (p, s') \<Longrightarrow> hub_step s HCloseAll p s'"
| "conn_step c (heap s a) = (p, k) \<Longrightarrow> (\<forall>rnd. c = OpConnId rnd \<or> c = OpOnClose rnd \<longrightarrow> rnd \<noteq> []) \<Longrightarrow>
     hub_step s (HConn a c) p (at_conn a (\<lambda>_. k) s)"

inductive hub_run :: "'o hub_state \<Rightarrow> 'o hub_op list \<Rightarrow> 'o hub_state \<Rightarrow> bool" where
  hub_nil: "hub_run s [] s"
| hub_cons: "hub_step s x Returned s' \<Longrightarrow> hub_run s' xs s'' \<Longrightarrow> hub_run s (x # xs) s''"

text \<open>The invariant that also says that no entry has the empty id.\<close>

definition hub_ok :: "'o hub_state \<Rightarrow> bool" where
  "hub_ok s \<longleftrightarrow> hub_inv s \<and> conns s [] = None"

lemma conn_step_frame:
  assumes "conn_inv c"
  shows "fst (conn_step p c) = Returned \<and> conn_inv (snd (conn_step p c)) \<and>
    (ConnIdStr c \<noteq> [] \<longrightarrow> ConnIdStr (snd (conn_step p c)) = ConnIdStr c)"
proof (cases p)
  case OpClose
  then show ?thesis using close_done_ok [OF assms] by (simp add: Close_def)
next
  case (OpOnClose rnd)
  then show ?thesis using OnClose_frame [OF assms, of rnd] by simp
qed (use assms in \<open>auto simp: conn_inv_def Ready_def initReady_def Let_def
      SendOutput_def SendEvent_def SendEventWithID_def SendKeepalive_def SendRetry_def\<close>)

lemma hub_ok_send_to: "harmless f \<Longrightarrow> hub_ok s \<Longrightarrow> hub_ok (snd (send_to f i s))"
  using hub_inv_send_to [of f s i] by (auto simp: hub_ok_def send_to_def split: option.splits)

lemma hub_ok_for_each: "harmless f \<Longrightarrow> hub_ok s \<Longrightarrow> hub_ok (for_each f order s)"
  using hub_inv_for_each [of f s order] by (simp add: hub_ok_def)

lemma hub_ok_Unregister: "hub_ok s \<Longrightarrow> hub_ok (Unregister i s)"
  using hub_inv_Unregister [of s i] by (simp add: hub_ok_def Unregister_def)

lemma hub_step_ok:
  assumes "hub_step s x p s'" and "hub_ok s"
  shows "p = Returned \<and> hub_ok s'"
  using assms
proof (cases rule: hub_step.cases)
  case (1 rnd a)
  then have "hub_inv (Register rnd a s)"
    using assms(2) by (intro hub_inv_Register) (auto simp: hub_ok_def)
  then show ?thesis using 1 assms(2) by (auto simp: hub_ok_def Register_def Let_def)
next
  case (9 order rnd)
  then have sub: "hub_inv s" "distinct order" "set order = dom (conns s)"
    using assms(2) by (simp_all add: hub_ok_def visits_def)
  have spec: "p = Returned" "conns s' = (\<lambda>i. if i \<in> set order then None else conns s i)"
    "\<And>a. heap s' a = (if \<exists>i \<in> set order. conns s i = Some a then snd (OnClose rnd (heap s a)) else heap s a)"
    using CloseAll_spec [OF sub(1,2), of rnd] sub(3) 9 by simp_all
  have none: "conns s' = (\<lambda>i. None)"
    using spec(2) sub(3) by (auto simp: fun_eq_iff domIff)
  have "conn_inv (heap s a)" for a using sub(1) by (simp add: hub_inv_def)
  then have "conn_inv (heap s' a)" for a using spec(3) [of a] OnClose_frame by metis
  then show ?thesis using spec(1) none by (simp add: hub_ok_def hub_inv_def)
next
  case (10 c a k)
  have inv: "conn_inv (heap s a)" using assms(2) by (simp add: hub_ok_def hub_inv_def)
  have "ConnIdStr (heap s a) \<noteq> []" if "conns s i = Some a" for i
    using assms(2) that by (auto simp: hub_ok_def hub_inv_def)
  then show ?thesis
    using 10 assms(2) conn_step_frame [OF inv, of c]
    by (auto simp: hub_ok_def hub_inv_def)
qed (use assms(2) hub_ok_send_to [of _ s] hub_ok_for_each [of _ s] hub_ok_Unregister [of s] in
      \<open>simp_all add: Send_def HubSendEvent_def HubSendEventWithID_def
      Broadcast_def BroadcastEvent_def BroadcastEventWithID_def\<close>)


section \<open>A small hub\<close>

text \<open>A hub with two started connections, \<open>a\<close> at address 0 and \<open>b\<close> at address 1.\<close>

definition demo_hub :: "int hub_state" where
  "demo_hub =
     Register ''r'' 1 (Register ''r'' 0 (NewSSEHub (\<lambda>a.
       snd (snd (snd (OnStart True ''r'' (new_conn ''demo'' (if a = 0 then ''a'' else ''b''))))))))"

lemma demo_hub_inv: "hub_inv demo_hub"
proof -
  let ?h = "\<lambda>a. snd (snd (snd (OnStart True ''r'' (new_conn ''demo'' (if a = 0 then ''a'' else ''b''))))) :: int base_sse_conn"
  have "hub_inv (NewSSEHub ?h)"
    by (simp add: hub_inv_def NewSSEHub_def OnStart_new conn_inv_def)
  then have "hub_inv (Register ''r'' 0 (NewSSEHub ?h))"
    by (rule hub_inv_Register) (simp_all add: NewSSEHub_def)
  then show ?thesis unfolding demo_hub_def
    by (rule hub_inv_Register) (simp_all add: Register_def NewSSEHub_def Let_def OnStart_new)
qed

lemma demo_hub_conns: "conns demo_hub = [''a'' \<mapsto> 0, ''b'' \<mapsto> 1]"
  by (simp add: demo_hub_def Register_def NewSSEHub_def Let_def OnStart_new)

lemma demo_hub_visits: "visits [''b'', ''a''] demo_hub"
  by (auto simp: visits_def demo_hub_conns)

lemma demo_hub_writer: "Writer (heap demo_hub 0) = Some []"
  by (simp add: demo_hub_def Register_def NewSSEHub_def Let_def OnStart_new)

theorem hub_broadcast_once_witness:
  "Writer (heap (Broadcast [''b'', ''a''] 7 demo_hub) 0) = Some [WSend (blank_msg\<lparr>om_Data := Some 7\<rparr>)]"
proof -
  have "Some 0 \<in> range (conns demo_hub)"
    by (rule image_eqI [of _ _ "''a''"]) (simp_all add: demo_hub_conns)
  then show ?thesis
    using hub_broadcast_once [OF demo_hub_inv demo_hub_visits, of 7] demo_hub_writer
    by (simp add: SendOutput_def)
qed

theorem hub_close_all_witness:
  "case CloseAll ''r'' [''b'', ''a''] demo_hub of (p, s') \<Rightarrow>
     p = Returned \<and> Count s' = 0 \<and> Writer (heap s' 0) = Some [WStop]"
proof -
  have "Some 0 \<in> range (conns demo_hub)"
    by (rule image_eqI [of _ _ "''a''"]) (simp_all add: demo_hub_conns)
  then show ?thesis
    using hub_close_all [OF demo_hub_inv demo_hub_visits, of "''r''"] demo_hub_writer
    by (auto split: prod.splits)
qed


end
