(* ===== verification/SseServe.thy ===== *)
theory SseServe
  imports SseConn HttpModel
begin

text \<open>
  \<open>SSEServe\<close> of \<open>http/sseconn.go\<close>: the handler up to the start of the connection as a function,
  and its event loop as a step relation in which the client, the ticker and the other goroutines
  of the application take their steps between those of the handler. The interface \<open>SSEConn\<close> is
  the record \<open>sse_ops\<close> and its contract the locale \<open>sse_connection\<close>, which \<open>BaseSSEConn\<close> keeps.
\<close>

section \<open>Opening a stream\<close>

record 'c sse_ops =
  if_OnStart :: "bool \<Rightarrow> 'c \<Rightarrow> outcome \<times> string option \<times> rw_op list \<times> 'c"
  if_OnClose :: "'c \<Rightarrow> outcome \<times> 'c"
  if_SendKeepalive :: "'c \<Rightarrow> 'c"
  if_Done :: "'c \<Rightarrow> chan"

record sse_conn_config =
  KeepalivePeriod :: int

definition DefaultSSEConnConfig :: sse_conn_config where
  "DefaultSSEConnConfig = \<lparr>KeepalivePeriod = 30 * 10 ^ 9\<rparr>"

fun rw_apply :: "rw_op \<Rightarrow> ('b, 'x) world \<Rightarrow> ('b, 'x) world" where
  "rw_apply (Write b) w = Write_resp b w"
| "rw_apply Flush w = send_header 200 w"

datatype 'c opened = Rejected | Failed | Crashed 'c | Serving 'c

definition sse_headers :: "('b, 'x) world \<Rightarrow> ('b, 'x) world" where
  "sse_headers w =
     SetHeader ''X-Accel-Buffering'' ''no'' (SetHeader ''Connection'' ''keep-alive''
       (SetHeader ''Cache-Control'' ''no-cache'' (SetHeader ''Content-Type'' ''text/event-stream'' w)))"

text \<open>
  The handler's first half. \<open>validate\<close> is the application's \<open>Validate\<close>; it writes its own
  response when it returns no connection.
\<close>

definition SSEServe_open ::
  "'c sse_ops \<Rightarrow> (request \<Rightarrow> ('b, 'x) world \<Rightarrow> 'c option \<times> ('b, 'x) world) \<Rightarrow>
   request \<Rightarrow> ('b, 'x) world \<Rightarrow> 'c opened \<times> ('b, 'x) world"
where
  "SSEServe_open ops validate r w =
     (case validate r w of
        (None, w) \<Rightarrow> (Rejected, w)
      | (Some conn, w) \<Rightarrow>
          let w = sse_headers w in
          (case if_OnStart ops (can_flush w) conn of
             (Panicked m, err, out, conn) \<Rightarrow> (Crashed conn, fold rw_apply out w)
           | (Returned, Some e, out, conn) \<Rightarrow> (Failed, http_Error e 500 (fold rw_apply out w))
           | (Returned, None, out, conn) \<Rightarrow> (Serving conn, fold rw_apply out w)))"

section \<open>The event loop\<close>

text \<open>
  The ticker is off when no keepalive period is configured. A running ticker holds whether a
  tick waits in its channel, which has room for one.
\<close>

datatype ticker = TickerOff | TickerOn bool | TickerStopped

datatype phase = Looping | Leaving | Closing | Left

datatype serve_event = Ticked | SentKeepalive | StoppedTicker | ClosedConn

record 'c serving =
  sv_conn :: 'c
  sv_ctxDone :: bool
  sv_ticker :: ticker
  sv_phase :: phase
  sv_events :: "serve_event list"

definition serve_start :: "sse_conn_config option \<Rightarrow> 'c \<Rightarrow> 'c serving" where
  "serve_start config conn =
     (let config = (case config of None \<Rightarrow> DefaultSSEConnConfig | Some cfg \<Rightarrow> cfg) in
      \<lparr>sv_conn = conn, sv_ctxDone = False,
       sv_ticker = (if 0 < KeepalivePeriod config then TickerOn False else TickerOff),
       sv_phase = Looping, sv_events = []\<rparr>)"

text \<open>
  The steps. \<open>others\<close> is what other goroutines may do to the connection. The first three rules are
  the environment's; the select of the loop takes any ready case; leaving the loop runs the two
  deferred calls, the ticker's first.
\<close>

inductive serve_step :: "'c sse_ops \<Rightarrow> ('c \<Rightarrow> 'c \<Rightarrow> bool) \<Rightarrow> 'c serving \<Rightarrow> 'c serving \<Rightarrow> bool"
  for ops :: "'c sse_ops" and others :: "'c \<Rightarrow> 'c \<Rightarrow> bool"
where
  client_gone: "serve_step ops others s (s\<lparr>sv_ctxDone := True\<rparr>)"
| application: "others (sv_conn s) c \<Longrightarrow> serve_step ops others s (s\<lparr>sv_conn := c\<rparr>)"
| tick: "sv_ticker s = TickerOn p \<Longrightarrow>
    serve_step ops others s (s\<lparr>sv_ticker := TickerOn True, sv_events := sv_events s @ [Ticked]\<rparr>)"
| select_ctx: "sv_phase s = Looping \<Longrightarrow> sv_ctxDone s \<Longrightarrow> serve_step ops others s (s\<lparr>sv_phase := Leaving\<rparr>)"
| select_done: "sv_phase s = Looping \<Longrightarrow> if_Done ops (sv_conn s) = ClosedChan \<Longrightarrow>
    serve_step ops others s (s\<lparr>sv_phase := Leaving\<rparr>)"
| select_tick: "sv_phase s = Looping \<Longrightarrow> sv_ticker s = TickerOn True \<Longrightarrow>
    serve_step ops others s (s\<lparr>sv_conn := if_SendKeepalive ops (sv_conn s), sv_ticker := TickerOn False,
      sv_events := sv_events s @ [SentKeepalive]\<rparr>)"
| stop_ticker: "sv_phase s = Leaving \<Longrightarrow>
    serve_step ops others s (case sv_ticker s of
        TickerOn p \<Rightarrow> s\<lparr>sv_phase := Closing, sv_ticker := TickerStopped, sv_events := sv_events s @ [StoppedTicker]\<rparr>
      | _ \<Rightarrow> s\<lparr>sv_phase := Closing\<rparr>)"
| close_conn: "sv_phase s = Closing \<Longrightarrow> if_OnClose ops (sv_conn s) = (p, c) \<Longrightarrow>
    serve_step ops others s (s\<lparr>sv_phase := Left, sv_conn := c, sv_events := sv_events s @ [ClosedConn]\<rparr>)"

inductive_cases serve_stepE: "serve_step ops others s s'"

definition serve_reach ::
  "'c sse_ops \<Rightarrow> ('c \<Rightarrow> 'c \<Rightarrow> bool) \<Rightarrow> sse_conn_config option \<Rightarrow> 'c \<Rightarrow> 'c serving \<Rightarrow> bool" where
  "serve_reach ops others config conn s = rtranclp (serve_step ops others) (serve_start config conn) s"

text \<open>The steps of the handler itself, as opposed to those of its environment.\<close>

definition handler_can_move :: "'c sse_ops \<Rightarrow> 'c serving \<Rightarrow> bool" where
  "handler_can_move ops s \<longleftrightarrow>
     (case sv_phase s of
        Looping \<Rightarrow> sv_ctxDone s \<or> if_Done ops (sv_conn s) = ClosedChan \<or> sv_ticker s = TickerOn True
      | Leaving \<Rightarrow> True
      | Closing \<Rightarrow> True
      | Left \<Rightarrow> False)"

lemma handler_can_move_step:
  "handler_can_move ops s \<Longrightarrow> \<exists>s'. serve_step ops others s s' \<and> (sv_phase s' \<noteq> sv_phase s \<or> last (sv_events s') = SentKeepalive)"
proof (cases "sv_phase s")
  case Looping
  assume h: "handler_can_move ops s"
  then consider "sv_ctxDone s" | "if_Done ops (sv_conn s) = ClosedChan" | "sv_ticker s = TickerOn True"
    using Looping by (auto simp: handler_can_move_def)
  then show ?thesis
  proof cases
    case 1
    then show ?thesis using serve_step.select_ctx [OF Looping, of ops others] Looping by force
  next
    case 2
    then show ?thesis using serve_step.select_done [OF Looping, of ops others] Looping by force
  next
    case 3
    show ?thesis by (rule exI, rule conjI, rule serve_step.select_tick [OF Looping 3]) simp
  qed
next
  case Leaving
  show ?thesis
    by (rule exI, rule conjI, rule serve_step.stop_ticker [OF Leaving]) (simp add: Leaving split: ticker.split)
next
  case Closing
  obtain p c where "if_OnClose ops (sv_conn s) = (p, c)" by (cases "if_OnClose ops (sv_conn s)")
  from serve_step.close_conn [OF Closing this, of others] show ?thesis
    by (intro exI conjI) (assumption, simp add: Closing)
next
  case Left
  then show "handler_can_move ops s \<Longrightarrow> ?thesis" by (simp add: handler_can_move_def)
qed

text \<open>Once the connection is done the handler can run to its end, its deferred calls included.\<close>

lemma done_handler_leaves:
  assumes "if_Done ops (sv_conn s) = ClosedChan"
  shows "\<exists>s'. rtranclp (serve_step ops others) s s' \<and> sv_phase s' = Left"
proof -
  have closing: "\<exists>s'. rtranclp (serve_step ops others) s s' \<and> sv_phase s' = Left" if "sv_phase s = Closing" for s
  proof -
    obtain p c where "if_OnClose ops (sv_conn s) = (p, c)" by (cases "if_OnClose ops (sv_conn s)")
    from serve_step.close_conn [OF that this, of others] show ?thesis
      by (intro exI conjI) (erule r_into_rtranclp, simp)
  qed
  have leaving: "\<exists>s'. rtranclp (serve_step ops others) s s' \<and> sv_phase s' = Left" if "sv_phase s = Leaving" for s
  proof -
    let ?s1 = "case sv_ticker s of
        TickerOn p \<Rightarrow> s\<lparr>sv_phase := Closing, sv_ticker := TickerStopped, sv_events := sv_events s @ [StoppedTicker]\<rparr>
      | _ \<Rightarrow> s\<lparr>sv_phase := Closing\<rparr>"
    have s1: "serve_step ops others s ?s1" "sv_phase ?s1 = Closing"
      by (rule serve_step.stop_ticker [OF that]) (simp split: ticker.split)
    show ?thesis using closing [OF s1(2)] s1(1) by (meson converse_rtranclp_into_rtranclp)
  qed
  show ?thesis
  proof (cases "sv_phase s")
    case Looping
    have "serve_step ops others s (s\<lparr>sv_phase := Leaving\<rparr>)" by (rule serve_step.select_done [OF Looping assms])
    then show ?thesis using leaving [of "s\<lparr>sv_phase := Leaving\<rparr>"] by (simp, meson converse_rtranclp_into_rtranclp)
  next
    case Leaving
    then show ?thesis by (rule leaving)
  next
    case Closing
    then show ?thesis by (rule closing)
  next
    case Left
    then show ?thesis by blast
  qed
qed

section \<open>The contract of a connection\<close>

text \<open>
  \<open>ok\<close> is the connection's own invariant: other goroutines and keepalives keep it and never
  reopen the done channel, and OnClose returns and leaves the done channel closed.
\<close>

locale sse_connection =
  fixes ops :: "'c sse_ops" and others :: "'c \<Rightarrow> 'c \<Rightarrow> bool" and ok :: "'c \<Rightarrow> bool"
  assumes ok_app: "ok c \<Longrightarrow> others c c' \<Longrightarrow> ok c' \<and> (if_Done ops c = ClosedChan \<longrightarrow> if_Done ops c' = ClosedChan)"
    and ok_keepalive: "ok c \<Longrightarrow> ok (if_SendKeepalive ops c) \<and> if_Done ops (if_SendKeepalive ops c) = if_Done ops c"
    and ok_close: "ok c \<Longrightarrow> if_OnClose ops c = (p, c') \<Longrightarrow> p = Returned \<and> ok c' \<and> if_Done ops c' = ClosedChan"
begin

definition serve_inv :: "sse_conn_config option \<Rightarrow> 'c serving \<Rightarrow> bool" where
  "serve_inv config s \<longleftrightarrow>
     ok (sv_conn s) \<and>
     count_list (sv_events s) ClosedConn = of_bool (sv_phase s = Left) \<and>
     (sv_phase s \<noteq> Looping \<longrightarrow> sv_ctxDone s \<or> if_Done ops (sv_conn s) = ClosedChan) \<and>
     (sv_phase s = Left \<longrightarrow> if_Done ops (sv_conn s) = ClosedChan) \<and>
     (sv_phase s \<in> {Closing, Left} \<longrightarrow> (\<forall>p. sv_ticker s \<noteq> TickerOn p)) \<and>
     count_list (sv_events s) SentKeepalive + of_bool (sv_ticker s = TickerOn True) \<le> count_list (sv_events s) Ticked \<and>
     (sv_ticker (serve_start config (sv_conn s)) = TickerOff \<longrightarrow>
        sv_ticker s = TickerOff \<and> count_list (sv_events s) SentKeepalive = 0)"

lemma serve_inv_start: "ok c \<Longrightarrow> serve_inv config (serve_start config c)"
  by (simp add: serve_inv_def serve_start_def Let_def)

lemma start_ticker: "sv_ticker (serve_start config c) = sv_ticker (serve_start config c')"
  by (simp add: serve_start_def Let_def)

lemma serve_inv_step:
  assumes "serve_inv config s" and "serve_step ops others s s'"
  shows "serve_inv config s'"
  using assms(2,1)
proof (cases rule: serve_step.cases)
  case client_gone
  then show ?thesis using assms(1) by (auto simp: serve_inv_def)
next
  case (application c)
  then show ?thesis using assms(1) ok_app [of "sv_conn s" c] start_ticker [of config c "sv_conn s"]
    by (auto simp: serve_inv_def)
next
  case (tick p)
  then show ?thesis using assms(1) by (cases p) (auto simp: serve_inv_def)
next
  case select_ctx
  then show ?thesis using assms(1) by (auto simp: serve_inv_def)
next
  case select_done
  then show ?thesis using assms(1) by (auto simp: serve_inv_def)
next
  case select_tick
  then show ?thesis
    using assms(1) ok_keepalive [of "sv_conn s"]
      start_ticker [of config "if_SendKeepalive ops (sv_conn s)" "sv_conn s"]
    by (auto simp: serve_inv_def)
next
  case stop_ticker
  then show ?thesis using assms(1) by (cases "sv_ticker s") (auto simp: serve_inv_def)
next
  case (close_conn p c)
  then show ?thesis using assms(1) ok_close [of "sv_conn s" p c] start_ticker [of config c "sv_conn s"]
    by (auto simp: serve_inv_def)
qed

lemma serve_inv_reach:
  assumes "ok c" and "serve_reach ops others config c s"
  shows "serve_inv config s"
  using assms(2) unfolding serve_reach_def
  by (induction rule: rtranclp_induct) (auto intro: serve_inv_start [OF assms(1)] serve_inv_step)

end

section \<open>BaseSSEConn keeps the contract\<close>

definition base_ops :: "string \<Rightarrow> 'o base_sse_conn sse_ops" where
  "base_ops rnd = \<lparr>if_OnStart = (\<lambda>flusher c. OnStart flusher rnd c), if_OnClose = OnClose rnd,
     if_SendKeepalive = SendKeepalive, if_Done = Done\<rparr>"

lemma base_ops_simps [simp]:
  "if_OnStart (base_ops rnd) = (\<lambda>flusher c. OnStart flusher rnd c)" "if_OnClose (base_ops rnd) = OnClose rnd"
  "if_SendKeepalive (base_ops rnd) = SendKeepalive" "if_Done (base_ops rnd) = Done"
  by (simp_all add: base_ops_def)

definition base_app :: "'o base_sse_conn \<Rightarrow> 'o base_sse_conn \<Rightarrow> bool" where
  "base_app c c' \<longleftrightarrow> (\<exists>p. conn_step p c = (Returned, c'))"

interpretation base: sse_connection "base_ops rnd" base_app started
proof unfold_locales
  fix c c' :: "'a base_sse_conn"
  assume st: "started c" and "base_app c c'"
  then obtain p where "conn_step p c = (Returned, c')" by (auto simp: base_app_def)
  then show "started c' \<and> (if_Done (base_ops rnd) c = ClosedChan \<longrightarrow> if_Done (base_ops rnd) c' = ClosedChan)"
    using conn_step_started [OF st, of p] by simp
next
  fix c :: "'a base_sse_conn"
  assume "started c"
  from conn_step_started [OF this, of OpKeepalive]
  show "started (if_SendKeepalive (base_ops rnd) c) \<and>
      if_Done (base_ops rnd) (if_SendKeepalive (base_ops rnd) c) = if_Done (base_ops rnd) c"
    by simp
next
  fix c c' :: "'a base_sse_conn" and p
  assume "started c" and "if_OnClose (base_ops rnd) c = (p, c')"
  then show "p = Returned \<and> started c' \<and> if_Done (base_ops rnd) c' = ClosedChan"
    using conn_step_started [of c "OpOnClose rnd"] by simp
qed

section \<open>Properties\<close>

text \<open>
  C13: The handler of a stream cleans up once. In every state that a stream over a started
  connection can reach, whatever the client, the ticker and the goroutines that use the
  connection do: OnClose was called exactly once if the handler has returned and not before; the
  handler left its loop only because the client went away or the connection was closed; when it
  has returned, the done channel is closed and the ticker does not run; and there are no more
  keepalives than ticks, and none without a positive period.
\<close>

theorem sse_serve_safety:
  assumes "started c" and "serve_reach (base_ops rnd) base_app config c s"
  shows "count_list (sv_events s) ClosedConn = (if sv_phase s = Left then 1 else 0) \<and>
    (sv_phase s \<noteq> Looping \<longrightarrow> sv_ctxDone s \<or> Done (sv_conn s) = ClosedChan) \<and>
    (sv_phase s = Left \<longrightarrow> Done (sv_conn s) = ClosedChan \<and> (\<forall>p. sv_ticker s \<noteq> TickerOn p)) \<and>
    count_list (sv_events s) SentKeepalive \<le> count_list (sv_events s) Ticked \<and>
    (sv_ticker (serve_start config c) = TickerOff \<longrightarrow> SentKeepalive \<notin> set (sv_events s))"
  using base.serve_inv_reach [OF assms] base.start_ticker [of config c "sv_conn s"]
  by (auto simp: base.serve_inv_def count_list_0_iff)


text \<open>A whole run: the client goes away, the handler leaves, stops its ticker and closes.\<close>

definition demo_conn :: "int base_sse_conn" where
  "demo_conn = snd (snd (snd (OnStart True ''r'' (new_conn ''demo'' ''c1''))))"

definition demo_end :: "int base_sse_conn serving" where
  "demo_end = \<lparr>sv_conn = snd (OnClose ''r'' demo_conn), sv_ctxDone = True, sv_ticker = TickerStopped,
     sv_phase = Left, sv_events = [StoppedTicker, ClosedConn]\<rparr>"

lemma demo_started: "started demo_conn"
  unfolding demo_conn_def by (rule started_OnStart)

lemma demo_reach: "serve_reach (base_ops ''r'') base_app None demo_conn demo_end"
proof -
  let ?step = "serve_step (base_ops ''r'') base_app"
  let ?s0 = "serve_start None demo_conn"
  let ?s1 = "?s0\<lparr>sv_ctxDone := True\<rparr>"
  let ?s2 = "?s1\<lparr>sv_phase := Leaving\<rparr>"
  let ?s3 = "?s2\<lparr>sv_phase := Closing, sv_ticker := TickerStopped, sv_events := [StoppedTicker]\<rparr>"
  have st1: "?step ?s0 ?s1" by (rule serve_step.client_gone)
  have st2: "?step ?s1 ?s2" by (rule serve_step.select_ctx) (simp_all add: serve_start_def Let_def)
  have st3: "?step ?s2 ?s3"
    using serve_step.stop_ticker [of ?s2 "base_ops ''r''" base_app]
    by (simp add: serve_start_def Let_def DefaultSSEConnConfig_def)
  have st4: "?step ?s3 demo_end"
    using serve_step.close_conn [of ?s3 "base_ops ''r''" "fst (OnClose ''r'' demo_conn)" "snd (OnClose ''r'' demo_conn)" base_app]
    by (simp add: serve_start_def Let_def demo_end_def)
  show ?thesis
    unfolding serve_reach_def
    by (rule converse_rtranclp_into_rtranclp, rule st1, rule converse_rtranclp_into_rtranclp, rule st2,
        rule converse_rtranclp_into_rtranclp, rule st3, rule r_into_rtranclp, rule st4)
qed

theorem sse_serve_safety_witness:
  "count_list (sv_events demo_end) ClosedConn = 1 \<and> Done (sv_conn demo_end) = ClosedChan"
  using sse_serve_safety [OF demo_started demo_reach] by (simp add: demo_end_def)


section \<open>A connection that is refused\<close>

text \<open>
  When OnStart reports an error the client gets a 500 and OnClose is not called: the stream never
  enters the loop.
\<close>

lemma SSEServe_no_flusher:
  assumes "validate r w = (Some conn, w')" and "sent w' = None" and "\<not> can_flush w'"
  shows "fst (SSEServe_open (base_ops rnd) validate r w) = Failed \<and>
    final_status (snd (SSEServe_open (base_ops rnd) validate r w)) = 500"
  using assms by (simp add: SSEServe_open_def OnStart_def Let_def sse_headers_def)

lemma SSEServe_opens:
  assumes "validate r w = (Some (new_conn n i), w')" and "sent w' = None" and "can_flush w'"
  shows "SSEServe_open (base_ops rnd) validate r w =
      (Serving (snd (snd (snd (OnStart True rnd (new_conn n i))))), send_header 200 (sse_headers w')) \<and>
    sent (send_header 200 (sse_headers w')) = Some (200, resp_header (sse_headers w'))"
  using assms
  by (simp add: SSEServe_open_def OnStart_new send_header_fresh sse_headers_def)

end
