(* ===== verification/HubStream.thy ===== *)
theory HubStream
  imports SseHub SseServe
begin

text \<open>
  A hub with its streams, from the call of a hub method to the event that the client parses: the
  registry (\<open>http/ssehub.go\<close>), the connection and its Writer callback (\<open>http/sseconn.go\<close>) and the
  reader (\<open>http/sse_reader.go\<close>) put together.
\<close>

section \<open>What an operation means for one connection\<close>

text \<open>
  For the connection at address \<open>a\<close> that is registered under \<open>i\<close>, an operation of the hub is an
  operation of the connection or nothing.
\<close>

fun for_conn :: "string \<Rightarrow> nat \<Rightarrow> 'o hub_op \<Rightarrow> 'o conn_op option" where
  "for_conn i a (HSend j m) = (if j = i then Some (OpSendOutput m) else None)"
| "for_conn i a (HSendEvent j e m) = (if j = i then Some (OpSendEvent e m) else None)"
| "for_conn i a (HSendEventWithID j e v m) = (if j = i then Some (OpSendEventWithID e v m) else None)"
| "for_conn i a (HBroadcast m) = Some (OpSendOutput m)"
| "for_conn i a (HBroadcastEvent e m) = Some (OpSendEvent e m)"
| "for_conn i a (HBroadcastEventWithID e v m) = Some (OpSendEventWithID e v m)"
| "for_conn i a (HConn b c) = (if b = a then Some c else None)"
| "for_conn i a (HRegister b) = None"
| "for_conn i a (HUnregister j) = None"
| "for_conn i a HCloseAll = None"

definition deliveries :: "string \<Rightarrow> nat \<Rightarrow> 'o hub_op list \<Rightarrow> 'o sse_msg writer_call list" where
  "deliveries i a xs = concat (map (\<lambda>x. case for_conn i a x of None \<Rightarrow> [] | Some c \<Rightarrow> writer_calls c) xs)"

lemma deliveries_simps [simp]:
  "deliveries i a [] = []"
  "deliveries i a (x # xs) = (case for_conn i a x of None \<Rightarrow> [] | Some c \<Rightarrow> writer_calls c) @ deliveries i a xs"
  by (simp_all add: deliveries_def)

text \<open>Runs during which the connection keeps its entry.\<close>

inductive registered_run :: "string \<Rightarrow> nat \<Rightarrow> 'o hub_state \<Rightarrow> 'o hub_op list \<Rightarrow> 'o hub_state \<Rightarrow> bool"
  for i a
where
  reg_nil: "conns s i = Some a \<Longrightarrow> registered_run i a s [] s"
| reg_cons: "conns s i = Some a \<Longrightarrow> hub_step s x Returned s' \<Longrightarrow> registered_run i a s' xs s'' \<Longrightarrow>
    registered_run i a s (x # xs) s''"

inductive_cases registered_runE: "registered_run i a s xs s'"

lemma registered_run_start: "registered_run i a s xs s' \<Longrightarrow> conns s i = Some a"
  by (erule registered_run.cases) simp_all

lemma registered_run_hub_run: "registered_run i a s xs s' \<Longrightarrow> hub_run s xs s'"
  by (induction rule: registered_run.induct) (auto intro: hub_nil hub_cons)

section \<open>Each step, seen from the connection\<close>

definition conn_sees :: "'o conn_op option \<Rightarrow> 'o base_sse_conn \<Rightarrow> 'o base_sse_conn \<Rightarrow> bool" where
  "conn_sees c k k' \<longleftrightarrow> (case c of
      None \<Rightarrow> k' = k \<or> (\<exists>rnd. k' = snd (ConnId rnd k))
    | Some c \<Rightarrow> k' = snd (conn_step c k))"

lemma send_to_sees:
  assumes "hub_inv s" and "conns s i = Some a"
  shows "heap (snd (send_to f j s)) a = (if j = i then f (heap s a) else heap s a)"
  using assms hub_inv_unique [OF assms(1)] by (auto simp: send_to_def split: option.split)

lemma for_each_sees:
  assumes "hub_inv s" and "conns s i = Some a" and "visits order s" and "harmless f"
  shows "heap (for_each f order s) a = f (heap s a)"
  using heap_for_each [OF assms(1), of order f] assms(2-4) by (auto simp: visits_def)

lemma hub_step_sees:
  assumes "hub_step s x Returned s'" and "hub_inv s" and "conns s i = Some a" and "conns s' i = Some a"
  shows "conn_sees (for_conn i a x) (heap s a) (heap s' a)"
  using assms(1)
proof (cases rule: hub_step.cases)
  case (1 rnd b)
  then show ?thesis by (auto simp: conn_sees_def Register_def Let_def)
next
  case (9 order rnd)
  have "distinct order" "set order = dom (conns s)" using 9(2) by (simp_all add: visits_def)
  then have "conns s' i = None"
    using CloseAll_spec [OF assms(2), of order rnd] 9(3) assms(3) by auto
  then show ?thesis using assms(4) by simp
next
  case (10 c b k)
  then show ?thesis by (auto simp: conn_sees_def)
qed (use assms(2,3) in \<open>auto simp: conn_sees_def Unregister_def Send_def HubSendEvent_def HubSendEventWithID_def
    Broadcast_def BroadcastEvent_def BroadcastEventWithID_def send_to_sees for_each_sees\<close>)

lemma conn_sees_started:
  assumes "conn_sees c k k'" and "started k"
  shows "started k' \<and> Writer k' =
    map_option (\<lambda>ks. ks @ (case c of None \<Rightarrow> [] | Some c \<Rightarrow> writer_calls c)) (Writer k)"
proof (cases c)
  case None
  have "started (snd (ConnId rnd k)) \<and> Writer (snd (ConnId rnd k)) = map_option (\<lambda>ks. ks @ []) (Writer k)" for rnd
    using conn_step_started [OF assms(2), of "OpConnId rnd"] by simp
  moreover have "map_option (\<lambda>ks. ks @ []) (Writer k) = Writer k" by (simp add: option.map_ident)
  ultimately show ?thesis using None assms by (auto simp: conn_sees_def)
next
  case (Some op)
  then show ?thesis using conn_step_started [OF assms(2), of op] assms(1) by (simp add: conn_sees_def)
qed

lemma registered_run_writer:
  assumes "registered_run i a s xs s'" and "hub_ok s" and "started (heap s a)"
  shows "started (heap s' a) \<and> Writer (heap s' a) = map_option (\<lambda>ks. ks @ deliveries i a xs) (Writer (heap s a))"
  using assms
proof (induction rule: registered_run.induct)
  case (reg_nil s)
  then show ?case by (simp add: option.map_ident)
next
  case (reg_cons s x s' xs s'')
  have inv: "hub_inv s" using reg_cons.prems(1) by (simp add: hub_ok_def)
  have "conns s' i = Some a" by (rule registered_run_start [OF reg_cons.hyps(3)])
  from conn_sees_started [OF hub_step_sees [OF reg_cons.hyps(2) inv reg_cons.hyps(1) this] reg_cons.prems(2)]
  have st: "started (heap s' a)"
    and w: "Writer (heap s' a) = map_option (\<lambda>ks. ks @ (case for_conn i a x of None \<Rightarrow> [] | Some c \<Rightarrow> writer_calls c)) (Writer (heap s a))"
    by simp_all
  have "hub_ok s'" using hub_step_ok [OF reg_cons.hyps(2) reg_cons.prems(1)] by simp
  from reg_cons.IH [OF this st] show ?case
    by (cases "Writer (heap s a)") (simp_all add: w)
qed

section \<open>The client's view\<close>

text \<open>What a client parses for an operation of its connection: at most one event.\<close>

definition data_event :: "('o \<Rightarrow> string + bytes \<times> int) \<Rightarrow> string \<Rightarrow> string \<Rightarrow> 'o \<Rightarrow> sse_read_event list" where
  "data_event encode event ident m =
     (case encode m of
        Inl _ \<Rightarrow> []
      | Inr (data, _) \<Rightarrow> [\<lparr>rd_Event = event, rd_Data = data, rd_ID = ident, rd_Retry = 0, rd_Comment = []\<rparr>])"

fun client_events :: "('o \<Rightarrow> string + bytes \<times> int) \<Rightarrow> 'o conn_op \<Rightarrow> sse_read_event list" where
  "client_events encode (OpSendOutput m) = data_event encode [] [] m"
| "client_events encode (OpSendEvent e m) = data_event encode e [] m"
| "client_events encode (OpSendEventWithID e i m) = data_event encode e i m"
| "client_events encode OpKeepalive = [zero_event\<lparr>rd_Comment := ''keepalive''\<rparr>]"
| "client_events encode (OpRetry ms) = (if 0 < ms then [zero_event\<lparr>rd_Retry := ms\<rparr>] else [])"
| "client_events encode _ = []"

definition client_view :: "('o \<Rightarrow> string + bytes \<times> int) \<Rightarrow> string \<Rightarrow> nat \<Rightarrow> 'o hub_op list \<Rightarrow> sse_read_event list" where
  "client_view encode i a xs =
     concat (map (\<lambda>x. case for_conn i a x of None \<Rightarrow> [] | Some c \<Rightarrow> client_events encode c) xs)"

lemma map_filter_append: "List.map_filter f (xs @ ys) = List.map_filter f xs @ List.map_filter f ys"
  by (simp add: List.map_filter_def)

lemma client_events_sends:
  "List.map_filter (msg_event encode) (sends (writer_calls c)) = client_events encode c"
  by (cases c) (auto simp: msg_event_def blank_msg_def data_event_def List.map_filter_simps zero_event_def
    split: sum.split prod.split)

lemma client_view_sends:
  "List.map_filter (msg_event encode) (sends (deliveries i a xs)) = client_view encode i a xs"
  by (induction xs) (simp_all add: client_view_def map_filter_append client_events_sends
    List.map_filter_simps split: option.split)

text \<open>
  C2: What a hub sends is what its clients read. Take a started connection without output, registered
  in a consistent hub, and any interleaving of hub and connection methods during which it keeps its
  entry and its Writer is not stopped, with any visiting order of the broadcasts and whatever happens to the other
  connections. If the texts fit the line format, the client's reader, applied to the bytes that the
  connection's Writer emits, returns exactly the events addressed to it (sends to its id, broadcasts,
  keepalives and retry hints), each with its type, id and payload, in the order of the calls, and
  then the end of the stream.
\<close>

theorem hub_stream_end_to_end:
  assumes "hub_ok s" and "started (heap s a)" and "Writer (heap s a) = Some []"
    and "registered_run i a s xs s'"
    and "WStop \<notin> set (deliveries i a xs)"
    and "\<forall>m. WSend m \<in> set (deliveries i a xs) \<longrightarrow> safe_msg encode m"
  shows "\<exists>ks. Writer (heap s' a) = Some ks \<and>
    ReadEvents (NewSSEEventReader (source_of (sse_wire encode (sends ks)))) = (client_view encode i a xs, zero_event, EOF)"
proof -
  have "Writer (heap s' a) = Some (deliveries i a xs)"
    using registered_run_writer [OF assms(4,1,2)] assms(3) by simp
  moreover have "\<forall>m \<in> set (sends (deliveries i a xs)). safe_msg encode m" using assms(6) by (simp add: set_sends)
  from sse_wire_read_back [OF this] have
    "ReadEvents (NewSSEEventReader (source_of (sse_wire encode (sends (deliveries i a xs))))) =
      (client_view encode i a xs, zero_event, EOF)"
    by (simp add: client_view_sends)
  ultimately show ?thesis by blast
qed

text \<open>The small hub: a broadcast, an event to the other client, and an event to the first.\<close>

definition demo_ops :: "int hub_op list" where
  "demo_ops = [HBroadcast 7, HSendEvent ''b'' ''note'' 3, HSendEventWithID ''a'' ''note'' ''id1'' 5]"

definition demo_encode :: "int \<Rightarrow> string + bytes \<times> int" where
  "demo_encode n = Inr (if n = 7 then ''seven'' else ''other'', 1)"

lemma demo_hub_started: "started (heap demo_hub 0)"
  by (simp add: demo_hub_def Register_def NewSSEHub_def Let_def OnStart_new started_def conn_inv_def)

lemma conns_of_delivery [simp]:
  "conns (Broadcast order m s) = conns s" "conns (snd (HubSendEvent i e m s)) = conns s"
  "conns (snd (HubSendEventWithID i e v m s)) = conns s"
  by (simp_all add: Broadcast_def HubSendEvent_def HubSendEventWithID_def send_to_def split: option.split)

lemma demo_registered: "\<exists>s'. registered_run ''a'' 0 demo_hub demo_ops s'"
proof -
  let ?s1 = "Broadcast [''b'', ''a''] 7 demo_hub"
  let ?s2 = "snd (HubSendEvent ''b'' ''note'' 3 ?s1)"
  let ?s3 = "snd (HubSendEventWithID ''a'' ''note'' ''id1'' 5 ?s2)"
  have c: "conns demo_hub ''a'' = Some 0" by (simp add: demo_hub_conns)
  have "registered_run ''a'' 0 ?s3 [] ?s3" by (rule reg_nil) (simp add: c)
  then have "registered_run ''a'' 0 ?s2 [HSendEventWithID ''a'' ''note'' ''id1'' 5] ?s3"
    by (rule reg_cons [rotated 2]) (simp_all add: c hub_step.intros)
  then have "registered_run ''a'' 0 ?s1 [HSendEvent ''b'' ''note'' 3, HSendEventWithID ''a'' ''note'' ''id1'' 5] ?s3"
    by (rule reg_cons [rotated 2]) (simp_all add: c hub_step.intros)
  then have "registered_run ''a'' 0 demo_hub demo_ops ?s3" unfolding demo_ops_def
    by (rule reg_cons [rotated 2]) (simp_all add: c hub_step.intros demo_hub_visits)
  then show ?thesis by blast
qed

lemma demo_open: "WStop \<notin> set (deliveries ''a'' 0 demo_ops)"
  by (simp add: demo_ops_def)

lemma demo_safe: "WSend m \<in> set (deliveries ''a'' 0 demo_ops) \<Longrightarrow> safe_msg demo_encode m"
  by (auto simp: demo_ops_def blank_msg_def safe_msg_def demo_encode_def clean_text_def)

theorem hub_stream_end_to_end_witness:
  "\<exists>(s' :: int hub_state) ks. registered_run ''a'' 0 demo_hub demo_ops s' \<and> Writer (heap s' 0) = Some ks \<and>
    ReadEvents (NewSSEEventReader (source_of (sse_wire demo_encode (sends ks)))) =
      ([\<lparr>rd_Event = [], rd_Data = ''seven'', rd_ID = [], rd_Retry = 0, rd_Comment = []\<rparr>,
        \<lparr>rd_Event = ''note'', rd_Data = ''other'', rd_ID = ''id1'', rd_Retry = 0, rd_Comment = []\<rparr>], zero_event, EOF)"
proof -
  have ok: "hub_ok demo_hub" using demo_hub_inv by (simp add: hub_ok_def demo_hub_conns)
  obtain s' where "registered_run ''a'' 0 demo_hub demo_ops s'" using demo_registered by blast
  from hub_stream_end_to_end [OF ok demo_hub_started demo_hub_writer this demo_open, of demo_encode] demo_safe
  obtain ks where "Writer (heap s' 0) = Some ks" and
    "ReadEvents (NewSSEEventReader (source_of (sse_wire demo_encode (sends ks)))) =
      (client_view demo_encode ''a'' 0 demo_ops, zero_event, EOF)" by blast
  with \<open>registered_run ''a'' 0 demo_hub demo_ops s'\<close> show ?thesis
    by (intro exI [of _ s'] exI [of _ ks]) (simp add: client_view_def demo_ops_def data_event_def demo_encode_def)
qed

end
