(* ===== verification/ClientIP.thy ===== *)
theory ClientIP
  imports HttpModel
begin

text \<open>
  \<open>middleware/clientip.go\<close>: the client address behind trusted proxies. The address parsers of
  package \<open>net\<close> are parameters: \<open>parse_ip\<close> (\<open>net.ParseIP\<close>), \<open>parse_cidr\<close> (the network that
  \<open>net.ParseCIDR\<close> returns, if any) and \<open>contains\<close> (\<open>IPNet.Contains\<close>).
\<close>

section \<open>The extractor\<close>

record 'n client_ip_extractor =
  trustedCIDRs :: "'n list"

definition cidr_text :: "string \<Rightarrow> string" where
  "cidr_text cidr =
     (if \<not> Contains cidr ''/'' then
        (if Contains cidr '':'' then cidr @ ''/128'' else cidr @ ''/32'')
      else cidr)"

definition add_cidr :: "(string \<Rightarrow> 'n option) \<Rightarrow> string \<Rightarrow> 'n client_ip_extractor \<Rightarrow> 'n client_ip_extractor" where
  "add_cidr parse_cidr cidr e =
     (let cidr = TrimSpace cidr in
      if cidr = [] then e
      else (case parse_cidr (cidr_text cidr) of
          None \<Rightarrow> e
        | Some network \<Rightarrow> e\<lparr>trustedCIDRs := trustedCIDRs e @ [network]\<rparr>))"

definition NewClientIPExtractor :: "(string \<Rightarrow> 'n option) \<Rightarrow> string list \<Rightarrow> 'n client_ip_extractor" where
  "NewClientIPExtractor parse_cidr cidrs = fold (add_cidr parse_cidr) cidrs \<lparr>trustedCIDRs = []\<rparr>"

definition isTrustedProxy ::
  "(string \<Rightarrow> 'i option) \<Rightarrow> ('n \<Rightarrow> 'i \<Rightarrow> bool) \<Rightarrow> 'n client_ip_extractor \<Rightarrow> string \<Rightarrow> bool" where
  "isTrustedProxy parse_ip contains e ip =
     (if trustedCIDRs e = [] then True
      else (case parse_ip ip of
          None \<Rightarrow> False
        | Some parsed \<Rightarrow> list_ex (\<lambda>cidr. contains cidr parsed) (trustedCIDRs e)))"

definition extractIP :: "string \<Rightarrow> string" where
  "extractIP addr =
     (case (if HasPrefix addr ''['' then LastIndexByte addr (CHR '']'') else None) of
        Some i \<Rightarrow> take (i - 1) (drop 1 addr)
      | None \<Rightarrow> (case LastIndexByte addr (CHR '':'') of
            Some i \<Rightarrow> take i addr
          | None \<Rightarrow> addr))"

definition ExtractClientIP ::
  "(string \<Rightarrow> 'i option) \<Rightarrow> ('n \<Rightarrow> 'i \<Rightarrow> bool) \<Rightarrow> 'n client_ip_extractor \<Rightarrow> request \<Rightarrow> string" where
  "ExtractClientIP parse_ip contains e r =
     (let directIP = extractIP (RemoteAddr r);
          xff = header_get (Header r) ''X-Forwarded-For'';
          xri = header_get (Header r) ''X-Real-IP''
      in if xff \<noteq> [] \<and> isTrustedProxy parse_ip contains e directIP then
           (case IndexByte xff (CHR '','') of
              Some i \<Rightarrow> if 0 < i then TrimSpace (take i xff) else TrimSpace xff
            | None \<Rightarrow> TrimSpace xff)
         else if xri \<noteq> [] \<and> isTrustedProxy parse_ip contains e directIP then TrimSpace xri
         else directIP)"

text \<open>
  The package-level extractor, a variable that \<open>SetTrustedProxies\<close> replaces: \<open>ClientIP\<close> is
  \<open>ExtractClientIP\<close> of its current value.
\<close>

definition SetTrustedProxies ::
  "(string \<Rightarrow> 'n option) \<Rightarrow> string list \<Rightarrow> 'n client_ip_extractor \<Rightarrow> 'n client_ip_extractor" where
  "SetTrustedProxies parse_cidr cidrs defaultExtractor = NewClientIPExtractor parse_cidr cidrs"

section \<open>Direct addresses\<close>

lemma extractIP_host_port:
  "\<not> HasPrefix (host @ CHR '':'' # port) ''['' \<Longrightarrow> CHR '':'' \<notin> set port \<Longrightarrow>
   extractIP (host @ CHR '':'' # port) = host"
  by (simp add: extractIP_def LastIndexByte_append_hit)

lemma extractIP_bracketed:
  assumes "CHR '']'' \<notin> set rest"
  shows "extractIP (CHR ''['' # host @ CHR '']'' # rest) = host"
proof -
  have "LastIndexByte ((CHR ''['' # host) @ CHR '']'' # rest) (CHR '']'') = Some (length (CHR ''['' # host))"
    using assms by (rule LastIndexByte_append_hit)
  then show ?thesis by (simp add: extractIP_def HasPrefix_def)
qed

lemma add_cidr_grows: "\<exists>ns. trustedCIDRs (add_cidr p c e) = trustedCIDRs e @ ns"
  by (simp add: add_cidr_def Let_def split: option.split)

lemma NewClientIPExtractor_networks:
  "trustedCIDRs (NewClientIPExtractor parse_cidr cidrs) =
     List.map_filter (\<lambda>c. if TrimSpace c = [] then None else parse_cidr (cidr_text (TrimSpace c))) cidrs"
proof -
  have "trustedCIDRs (fold (add_cidr parse_cidr) cidrs e) = trustedCIDRs e @
      List.map_filter (\<lambda>c. if TrimSpace c = [] then None else parse_cidr (cidr_text (TrimSpace c))) cidrs" for e
    by (induction cidrs arbitrary: e)
       (auto simp: add_cidr_def Let_def List.map_filter_simps split: option.split)
  then show ?thesis by (simp add: NewClientIPExtractor_def)
qed

section \<open>Properties\<close>

text \<open>
  C30: A client outside the trusted networks cannot choose its address. When at least one
  configured network was accepted and the direct address lies in none of them, the extracted
  address is the direct one, whatever the request's headers say.
\<close>

theorem client_ip_no_spoof:
  assumes "trustedCIDRs (NewClientIPExtractor parse_cidr cidrs) \<noteq> []"
    and "\<forall>ip n. parse_ip (extractIP (RemoteAddr r)) = Some ip \<longrightarrow>
      n \<in> set (trustedCIDRs (NewClientIPExtractor parse_cidr cidrs)) \<longrightarrow> \<not> contains n ip"
  shows "ExtractClientIP parse_ip contains (NewClientIPExtractor parse_cidr cidrs) (r\<lparr>Header := h\<rparr>) =
    extractIP (RemoteAddr r)"
proof -
  have "\<not> isTrustedProxy parse_ip contains (NewClientIPExtractor parse_cidr cidrs) (extractIP (RemoteAddr r))"
    using assms by (auto simp: isTrustedProxy_def list_ex_iff split: option.splits)
  then show ?thesis by (simp add: ExtractClientIP_def Let_def)
qed

text \<open>Addresses as they are, and networks that hold one address each.\<close>

definition sample_request :: request where
  "sample_request = \<lparr>Method = ''GET'', Path = ''/'', RemoteAddr = ''203.0.113.9:4711'', Host = ''example.org'',
     Header = (\<lambda>k. None), Body = RawBody [], Ctx = []\<rparr>"

theorem client_ip_no_spoof_witness:
  "ExtractClientIP Some (\<lambda>n ip. n = ip @ ''/32'')
     (NewClientIPExtractor Some [''127.0.0.1''])
     (sample_request\<lparr>Header := header_set ''X-Forwarded-For'' ''10.0.0.1'' (\<lambda>k. None)\<rparr>) = ''203.0.113.9''"
proof -
  have "TrimSpace ''127.0.0.1'' = ''127.0.0.1''" by (rule TrimSpace_visible) (simp add: visible_def)
  then have nets: "trustedCIDRs (NewClientIPExtractor Some [''127.0.0.1'']) = [''127.0.0.1/32'']"
    by (simp add: NewClientIPExtractor_networks List.map_filter_simps cidr_text_def Contains_def HasPrefix_def)
  have ip: "extractIP (RemoteAddr sample_request) = ''203.0.113.9''"
    using extractIP_host_port [of "''203.0.113.9''" "''4711''"] by (simp add: sample_request_def HasPrefix_def)
  show ?thesis
    using client_ip_no_spoof [of Some "[''127.0.0.1'']" Some sample_request "\<lambda>n ip. n = ip @ ''/32''"]
      nets ip by simp
qed

text \<open>
  Behind a trusted proxy the leftmost forwarded address is used. When the direct address is
  trusted and the forwarded list has a first entry before its first comma, the result is that
  entry without surrounding space; without a forwarded list it is the X-Real-IP address, and
  without either header it is the direct address.
\<close>

theorem client_ip_trusted:
  assumes "isTrustedProxy parse_ip contains e (extractIP (RemoteAddr r))"
  shows "ExtractClientIP parse_ip contains e r =
    (let xff = header_get (Header r) ''X-Forwarded-For'';
         xri = header_get (Header r) ''X-Real-IP'';
         first = hd (Split xff (CHR '',''))
     in if xff \<noteq> [] then TrimSpace (if first \<noteq> [] then first else xff)
        else if xri \<noteq> [] then TrimSpace xri
        else extractIP (RemoteAddr r))"
proof -
  define xff where "xff = header_get (Header r) ''X-Forwarded-For''"
  show ?thesis
  proof (cases "IndexByte xff (CHR '','')")
    case None
    then have "Split xff (CHR '','') = [xff]" by (simp add: Split_single IndexByte_None_iff)
    then show ?thesis
      using assms None unfolding ExtractClientIP_def Let_def xff_def [symmetric] by simp
  next
    case (Some i)
    have "CHR '','' \<notin> set (take i xff)" using IndexByte_SomeD [OF Some] by simp
    then have "Split xff (CHR '','') = take i xff # Split (drop (Suc i) xff) (CHR '','')"
      using Split_append_sep IndexByte_split [OF Some] by metis
    moreover have "xff \<noteq> []" using Some by auto
    ultimately show ?thesis
      using assms Some unfolding ExtractClientIP_def Let_def xff_def [symmetric] by simp
  qed
qed

theorem client_ip_trusted_witness:
  "ExtractClientIP Some (\<lambda>n ip. n = ip) \<lparr>trustedCIDRs = []\<rparr>
     (sample_request\<lparr>Header := header_set ''X-Forwarded-For'' ''10.0.0.1,10.0.0.2'' (\<lambda>k. None)\<rparr>) = ''10.0.0.1''"
proof -
  let ?r = "sample_request\<lparr>Header := header_set ''X-Forwarded-For'' ''10.0.0.1,10.0.0.2'' (\<lambda>k. None)\<rparr>"
  have trim: "TrimSpace ''10.0.0.1'' = ''10.0.0.1''" by (rule TrimSpace_visible) (simp add: visible_def)
  have xff: "header_get (Header ?r) ''X-Forwarded-For'' = ''10.0.0.1,10.0.0.2''" by simp
  have first: "hd (Split ''10.0.0.1,10.0.0.2'' (CHR '','')) = ''10.0.0.1''" by simp
  have "isTrustedProxy Some (\<lambda>n ip. n = ip) \<lparr>trustedCIDRs = []\<rparr> (extractIP (RemoteAddr ?r))"
    by (simp add: isTrustedProxy_def)
  from client_ip_trusted [OF this] show ?thesis
    unfolding xff Let_def first by (simp add: trim)
qed

section \<open>A list that starts with a comma\<close>

text \<open>With an empty first entry the whole header, commas included, is taken for the address.\<close>

lemma leading_comma_taken_whole:
  assumes "isTrustedProxy parse_ip contains e (extractIP (RemoteAddr r))"
    and "header_get (Header r) ''X-Forwarded-For'' = '',10.0.0.2''"
  shows "ExtractClientIP parse_ip contains e r = '',10.0.0.2''"
proof -
  have "TrimSpace '',10.0.0.2'' = '',10.0.0.2''" by (rule TrimSpace_visible) (simp add: visible_def)
  then show ?thesis using assms by (simp add: ExtractClientIP_def Let_def)
qed

end
