(* ===== verification/Middleware.thy ===== *)
theory Middleware
  imports ClientIP
begin

text \<open>
  The middleware chain of \<open>middleware/guard.go\<close>, the contract \<open>gate\<close> that its links keep, and
  the links that need no state of their own: \<open>recovery.go\<close>, \<open>logging.go\<close>, \<open>requestid.go\<close>,
  \<open>bodylimit.go\<close>, \<open>content_type.go\<close>, with the endpoint of \<open>health.go\<close> and the defaults of
  \<open>servertimeouts.go\<close>. \<open>cip\<close> stands for \<open>ClientIP\<close> with the extractor in force.
\<close>

section \<open>Guard\<close>

record ('b, 'x) guard =
  middlewares :: "('b, 'x) middleware list"

definition Use :: "('b, 'x) middleware option list \<Rightarrow> ('b, 'x) guard \<Rightarrow> ('b, 'x) guard" where
  "Use mw g =
     fold (\<lambda>m g. case m of None \<Rightarrow> g | Some f \<Rightarrow> g\<lparr>middlewares := middlewares g @ [f]\<rparr>) mw g"

definition Wrap :: "('b, 'x) guard option \<Rightarrow> ('b, 'x) handler \<Rightarrow> ('b, 'x) handler" where
  "Wrap g h = (case g of
      None \<Rightarrow> h
    | Some g \<Rightarrow> fold (\<lambda>i h. (middlewares g ! i) h) (rev [0..<length (middlewares g)]) h)"

lemma Use_middlewares: "middlewares (Use mw g) = middlewares g @ List.map_filter id mw"
  by (induction mw arbitrary: g)
     (auto simp: Use_def List.map_filter_simps split: option.split)

lemma fold_rev_index: "fold (\<lambda>i h. (ms ! i) h) (rev [0..<length ms]) h = foldr (\<lambda>m h. m h) ms h"
proof -
  have "foldr (\<lambda>m h. m h) ms h = foldr (\<lambda>i h. (ms ! i) h) [0..<length ms] h" for h
    using foldr_map [of "\<lambda>m h. m h" "\<lambda>i. ms ! i" "[0..<length ms]" h] by (simp add: map_nth comp_def)
  then show ?thesis by (simp add: foldr_conv_fold)
qed

lemma Wrap_Some: "Wrap (Some g) h = foldr (\<lambda>m h. m h) (middlewares g) h"
  by (simp add: Wrap_def fold_rev_index)

section \<open>Gates\<close>

text \<open>
  A gate looks at the request and the world, and either refuses, writing its own response, or
  enters: it may change the request and the world, runs the next handler, and may act when that
  handler has returned or panicked.
\<close>

record ('b, 'x) gate =
  admit :: "request \<Rightarrow> ('b, 'x) world \<Rightarrow> bool"
  enter :: "request \<Rightarrow> ('b, 'x) world \<Rightarrow> request \<times> ('b, 'x) world"
  depart :: "request \<Rightarrow> ('b, 'x) world \<Rightarrow> outcome \<times> ('b, 'x) world \<Rightarrow> outcome \<times> ('b, 'x) world"
  refuse :: "request \<Rightarrow> ('b, 'x) world \<Rightarrow> ('b, 'x) world"

definition gate_run :: "('b, 'x) gate \<Rightarrow> ('b, 'x) middleware" where
  "gate_run g next r w =
     (if admit g r w then (case enter g r w of (r', w') \<Rightarrow> depart g r w (next r' w'))
      else (Returned, refuse g r w))"

text \<open>
  The contract: the middleware behaves as its gate, its refusal has the fixed error status
  \<open>code\<close> unless a response was sent already, and neither refusing nor entering touches the state
  of the application.
\<close>

locale gate_contract =
  fixes mw :: "('b, 'x) middleware" and g :: "('b, 'x) gate" and code :: int
  assumes runs: "mw next r w = gate_run g next r w"
    and code_error: "400 \<le> code"
    and refuse_status: "\<not> admit g r w \<Longrightarrow> sent w = None \<Longrightarrow> final_status (refuse g r w) = code"
    and refuse_app: "\<not> admit g r w \<Longrightarrow> app (refuse g r w) = app w"
    and enter_app: "app (snd (enter g r w)) = app w"
begin

lemma refused:
  "\<not> admit g r w \<Longrightarrow> sent w = None \<Longrightarrow>
   \<exists>w'. mw next r w = (Returned, w') \<and> final_status w' = code \<and> app w' = app w"
  using refuse_status refuse_app by (simp add: runs gate_run_def)

lemma refusal_ignores_next: "\<not> admit g r w \<Longrightarrow> mw next r w = mw next' r w"
  by (simp add: runs gate_run_def)

lemma admitted:
  "admit g r w \<Longrightarrow> mw next r w = depart g r w (next (fst (enter g r w)) (snd (enter g r w)))"
  by (simp add: runs gate_run_def split: prod.split)

end

text \<open>
  What a chain of gates does before the handler: the request and world that reach it, or the
  refusal of the first gate that does not admit.
\<close>

fun passes :: "('b, 'x) gate list \<Rightarrow> request \<Rightarrow> ('b, 'x) world \<Rightarrow> (request \<times> ('b, 'x) world) option" where
  "passes [] r w = Some (r, w)"
| "passes (g # gs) r w =
     (if admit g r w then (case enter g r w of (r', w') \<Rightarrow> passes gs r' w') else None)"

fun departs ::
  "('b, 'x) gate list \<Rightarrow> request \<Rightarrow> ('b, 'x) world \<Rightarrow> outcome \<times> ('b, 'x) world \<Rightarrow> outcome \<times> ('b, 'x) world"
where
  "departs [] r w res = res"
| "departs (g # gs) r w res = (case enter g r w of (r', w') \<Rightarrow> depart g r w (departs gs r' w' res))"

definition is_gate :: "('b, 'x) middleware \<Rightarrow> ('b, 'x) gate \<Rightarrow> bool" where
  "is_gate mw g \<longleftrightarrow> (\<forall>next r w. mw next r w = gate_run g next r w)"

lemma chain_passes:
  assumes "list_all2 is_gate ms gs" and "passes gs r w = Some (r', w')"
  shows "foldr (\<lambda>m h. m h) ms h r w = departs gs r w (h r' w')"
  using assms
proof (induction ms gs arbitrary: r w rule: list_all2_induct)
  case (Cons m ms g gs)
  then show ?case by (auto simp: is_gate_def gate_run_def split: if_splits prod.splits)
qed simp

lemma chain_blocks:
  assumes "list_all2 is_gate ms gs" and "passes gs r w = None"
  shows "foldr (\<lambda>m h. m h) ms h r w = foldr (\<lambda>m h. m h) ms h' r w"
  using assms
proof (induction ms gs arbitrary: r w rule: list_all2_induct)
  case (Cons m ms g gs)
  then show ?case by (auto simp: is_gate_def gate_run_def split: if_splits prod.splits)
qed simp

section \<open>Recovery\<close>

text \<open>\<open>stack\<close> is what \<open>debug.Stack\<close> returns.\<close>

definition Recovery :: "(request \<Rightarrow> string) \<Rightarrow> string \<Rightarrow> ('b, 'x) middleware" where
  "Recovery cip stack next r w =
     (case next r w of
        (Returned, w) \<Rightarrow> (Returned, w)
      | (Panicked err, w) \<Rightarrow>
          let w = slog Error ''Panic recovered''
              [(''component'', AStr ''recovery''), (''error'', AStr err), (''method'', AStr (Method r)),
               (''path'', AStr (Path r)), (''ip'', AStr (cip r)), (''stack'', AStr stack)] w
          in (Returned, http_Error ''{\"error\":\"internal server error\"}'' 500 w))"

section \<open>Request identifiers\<close>

text \<open>
  The random source yields one byte per index; taking \<open>n\<close> bytes moves it on by \<open>n\<close>.
\<close>

definition rand_Read :: "nat \<Rightarrow> ('b, 'x) world \<Rightarrow> bytes \<times> ('b, 'x) world" where
  "rand_Read n w = (map (random_bytes w) [0..<n], w\<lparr>random_bytes := \<lambda>i. random_bytes w (n + i)\<rparr>)"

definition generateID :: "('b, 'x) world \<Rightarrow> string \<times> ('b, 'x) world" where
  "generateID w = (case rand_Read 16 w of (b, w) \<Rightarrow> (hex_encode b, w))"

definition ContextWithRequestID :: "(ctx_key \<times> string) list \<Rightarrow> string \<Rightarrow> (ctx_key \<times> string) list" where
  "ContextWithRequestID ctx ident = (RequestIDKey, ident) # ctx"

definition RequestIDFromContext :: "(ctx_key \<times> string) list \<Rightarrow> string" where
  "RequestIDFromContext ctx = (case map_of ctx RequestIDKey of Some ident \<Rightarrow> ident | None \<Rightarrow> [])"

definition RequestID_Middleware :: "unit option \<Rightarrow> ('b, 'x) middleware" where
  "RequestID_Middleware rid next r w =
     (case rid of
        None \<Rightarrow> next r w
      | Some _ \<Rightarrow>
          let ident = header_get (Header r) ''X-Request-Id'';
              (ident, w) = (if ident = [] then generateID w else (ident, w));
              w = SetHeader ''X-Request-Id'' ident w
          in next (r\<lparr>Ctx := ContextWithRequestID (Ctx r) ident\<rparr>) w)"

lemma generateID_length: "length (fst (generateID w)) = 32"
  by (simp add: generateID_def rand_Read_def length_hex_encode)

lemma generateID_frame:
  "sent (snd (generateID w)) = sent w" "log (snd (generateID w)) = log w"
  "app (snd (generateID w)) = app w" "resp_header (snd (generateID w)) = resp_header w"
  by (simp_all add: generateID_def rand_Read_def)

section \<open>Request logging\<close>

text \<open>\<open>Duration.Round(time.Millisecond)\<close>, half away from zero.\<close>

definition round_ms :: "int \<Rightarrow> int" where
  "round_ms d =
     (let m = 1000000; r = \<bar>d\<bar> mod m; a = (if r + r < m then \<bar>d\<bar> - r else \<bar>d\<bar> + (m - r))
      in if d < 0 then - a else a)"

text \<open>
  The recorder starts at 200 and sees the calls of \<open>WriteHeader\<close> made below it. It embeds the
  interface \<open>http.ResponseWriter\<close> only, so the handler below cannot flush. A panic passes through
  without a log line.
\<close>

definition RequestLogger :: "(request \<Rightarrow> string) \<Rightarrow> string list \<Rightarrow> ('b, 'x) middleware" where
  "RequestLogger cip skipPaths next r w =
     (if Path r \<in> set skipPaths then next r w
      else
        let start = clock w in
        (case next r (w\<lparr>recorded := None, can_flush := False\<rparr>) of
           (res, w') \<Rightarrow>
             let status = (case recorded w' of None \<Rightarrow> 200 | Some c \<Rightarrow> c);
                 w'' = w'\<lparr>recorded := (case recorded w' of None \<Rightarrow> recorded w | Some c \<Rightarrow> Some c),
                          can_flush := can_flush w\<rparr>;
                 rid = RequestIDFromContext (Ctx r);
                 attrs = [(''component'', AStr ''http''), (''method'', AStr (Method r)),
                   (''path'', AStr (Path r)), (''status'', AInt status),
                   (''duration'', ADuration (round_ms (clock w' - start))), (''ip'', AStr (cip r))] @
                   (if rid \<noteq> [] then [(''request_id'', AStr rid)] else [])
             in (case res of
                   Returned \<Rightarrow> (Returned, slog Info ''HTTP request'' attrs w'')
                 | Panicked m \<Rightarrow> (Panicked m, w''))))"

section \<open>Bodies\<close>

definition NewBodyLimiter :: "int \<Rightarrow> int option" where
  "NewBodyLimiter maxBytes = (if maxBytes \<le> 0 then None else Some maxBytes)"

definition BodyLimiter_Middleware :: "int option \<Rightarrow> ('b, 'x) middleware" where
  "BodyLimiter_Middleware b next r w =
     (case b of
        None \<Rightarrow> next r w
      | Some maxBytes \<Rightarrow> next (r\<lparr>Body := MaxBytes maxBytes (Body r)\<rparr>) w)"

definition RequireContentType :: "string list \<Rightarrow> ('b, 'x) middleware" where
  "RequireContentType accepted next r w =
     (if Method r \<in> {''POST'', ''PUT'', ''PATCH''} \<and>
         \<not> list_ex (\<lambda>a. HasPrefix (header_get (Header r) ''Content-Type'') a) accepted
      then (Returned, http_Error (''Content-Type must be one of: '' @ Join accepted '', '') 415 w)
      else next r w)"

section \<open>Health endpoint\<close>

text \<open>The readiness callback, when there is one, reads the state of the application.\<close>

record 'x health_check =
  hc_path :: string
  hc_ready :: "('x \<Rightarrow> bool) option"

definition NewHealthCheck :: "('x health_check \<Rightarrow> 'x health_check) list \<Rightarrow> 'x health_check" where
  "NewHealthCheck opts = fold (\<lambda>opt h. opt h) opts \<lparr>hc_path = ''/healthz'', hc_ready = None\<rparr>"

definition WithPath :: "string \<Rightarrow> 'x health_check \<Rightarrow> 'x health_check" where
  "WithPath p h = h\<lparr>hc_path := p\<rparr>"

definition WithReadyFunc :: "('x \<Rightarrow> bool) \<Rightarrow> 'x health_check \<Rightarrow> 'x health_check" where
  "WithReadyFunc fn h = h\<lparr>hc_ready := Some fn\<rparr>"

definition HealthPath :: "'x health_check option \<Rightarrow> string" where
  "HealthPath h = (case h of None \<Rightarrow> [] | Some h \<Rightarrow> hc_path h)"

definition HealthServe :: "'x health_check option \<Rightarrow> ('b, 'x) handler" where
  "HealthServe h r w =
     (case h of
        None \<Rightarrow> (Returned, http_NotFound w)
      | Some h \<Rightarrow>
          if Method r \<noteq> ''GET'' then (Returned, http_Error ''Method Not Allowed'' 405 w)
          else if (case hc_ready h of Some ready \<Rightarrow> \<not> ready (app w) | None \<Rightarrow> False) then
            (Returned, Write_resp ''{\"status\":\"not ready\"}''
               (WriteHeader 503 (SetHeader ''Content-Type'' ''application/json'' w)))
          else
            (Returned, Write_resp ''{\"status\":\"ok\"}''
               (WriteHeader 200 (SetHeader ''Content-Type'' ''application/json'' w))))"

section \<open>Server timeouts\<close>

record http_server =
  ReadTimeout :: int
  WriteTimeout :: int
  IdleTimeout :: int
  ReadHeaderTimeout :: int

definition second :: int where "second = 1000000000"

definition ApplyDefaults :: "http_server \<Rightarrow> http_server" where
  "ApplyDefaults srv =
     (let srv = (if ReadTimeout srv = 0 then srv\<lparr>ReadTimeout := 10 * second\<rparr> else srv);
          srv = (if WriteTimeout srv = 0 then srv\<lparr>WriteTimeout := 30 * second\<rparr> else srv);
          srv = (if IdleTimeout srv = 0 then srv\<lparr>IdleTimeout := 120 * second\<rparr> else srv)
      in if ReadHeaderTimeout srv = 0 then srv\<lparr>ReadHeaderTimeout := 5 * second\<rparr> else srv)"

section \<open>Links that are gates\<close>

definition open_gate :: "('b, 'x) gate" where
  "open_gate = \<lparr>admit = (\<lambda>r w. True), enter = (\<lambda>r w. (r, w)), depart = (\<lambda>r w res. res), refuse = (\<lambda>r w. w)\<rparr>"

definition content_type_gate :: "string list \<Rightarrow> ('b, 'x) gate" where
  "content_type_gate accepted = open_gate\<lparr>
     admit := (\<lambda>r w. Method r \<in> {''POST'', ''PUT'', ''PATCH''} \<longrightarrow>
       list_ex (\<lambda>a. HasPrefix (header_get (Header r) ''Content-Type'') a) accepted),
     refuse := (\<lambda>r w. http_Error (''Content-Type must be one of: '' @ Join accepted '', '') 415 w)\<rparr>"

definition body_gate :: "int option \<Rightarrow> ('b, 'x) gate" where
  "body_gate b = open_gate\<lparr>enter := (\<lambda>r w.
     ((case b of None \<Rightarrow> r | Some n \<Rightarrow> r\<lparr>Body := MaxBytes n (Body r)\<rparr>), w))\<rparr>"

definition request_id_gate :: "unit option \<Rightarrow> ('b, 'x) gate" where
  "request_id_gate rid = open_gate\<lparr>enter := (\<lambda>r w. case rid of
       None \<Rightarrow> (r, w)
     | Some _ \<Rightarrow>
         (case (if header_get (Header r) ''X-Request-Id'' = [] then generateID w
                else (header_get (Header r) ''X-Request-Id'', w)) of
            (ident, w) \<Rightarrow> (r\<lparr>Ctx := ContextWithRequestID (Ctx r) ident\<rparr>, SetHeader ''X-Request-Id'' ident w)))\<rparr>"

lemmas gate_simps = gate_run_def open_gate_def gate.simps

interpretation content_type: gate_contract "RequireContentType accepted" "content_type_gate accepted" 415
  by unfold_locales (auto simp: gate_simps content_type_gate_def RequireContentType_def)

interpretation body_limit: gate_contract "BodyLimiter_Middleware b" "body_gate b" 413
  by unfold_locales (auto simp: gate_simps body_gate_def BodyLimiter_Middleware_def split: option.split)

interpretation request_id: gate_contract "RequestID_Middleware rid" "request_id_gate rid" 500
  by unfold_locales
    (auto simp: gate_simps request_id_gate_def RequestID_Middleware_def Let_def generateID_def rand_Read_def
      split: option.split prod.split)

lemma gate_contract_is_gate: "gate_contract mw g code \<Longrightarrow> is_gate mw g"
  by (simp add: gate_contract_def is_gate_def)

lemma is_gate_content_type: "is_gate (RequireContentType accepted) (content_type_gate accepted)"
  by (rule gate_contract_is_gate [OF content_type.gate_contract_axioms])

lemma is_gate_body_limit: "is_gate (BodyLimiter_Middleware b) (body_gate b)"
  by (rule gate_contract_is_gate [OF body_limit.gate_contract_axioms])

lemma is_gate_request_id: "is_gate (RequestID_Middleware rid) (request_id_gate rid)"
  by (rule gate_contract_is_gate [OF request_id.gate_contract_axioms])

text \<open>What the request logger does around a handler that returns.\<close>

lemma RequestLogger_returned:
  assumes "next r (w\<lparr>recorded := None, can_flush := False\<rparr>) = (Returned, w')" and "Path r \<notin> set skip"
  obtains attrs w'' where "RequestLogger cip skip next r w = (Returned, slog Info ''HTTP request'' attrs w'')"
    and "map_of attrs ''request_id'' =
      (if RequestIDFromContext (Ctx r) = [] then None else Some (AStr (RequestIDFromContext (Ctx r))))"
    and "map_of attrs ''status'' = Some (AInt (case recorded w' of None \<Rightarrow> 200 | Some c \<Rightarrow> c))"
    and "log w'' = log w'" and "resp_header w'' = resp_header w'" and "sent w'' = sent w'"
  by (rule that, unfold RequestLogger_def Let_def assms(1), simp only: assms(2) if_False prod.case outcome.case)
     simp_all

text \<open>The request id and the status of a log line.\<close>

definition id_attr :: "log_entry \<Rightarrow> attr option" where
  "id_attr e = (case e of LogEntry l m attrs \<Rightarrow> map_of attrs ''request_id'')"

definition status_attr :: "log_entry \<Rightarrow> attr option" where
  "status_attr e = (case e of LogEntry l m attrs \<Rightarrow> map_of attrs ''status'')"

section \<open>Properties\<close>

text \<open>
  The handler behind a guard runs exactly when every link admits. A guard built with Use
  from any list of links, nil ones included, runs them in the order they were added, each on the
  request and the world the links before it left; the handler gets what the last link entered,
  on the way out the links depart in the opposite order; and as soon as one link refuses, the
  result no longer depends on the handler at all.
\<close>

theorem guard_chain:
  assumes "list_all2 is_gate (List.map_filter id mws) gs"
  shows "Wrap (Some (Use mws \<lparr>middlewares = []\<rparr>)) h r w =
    (case passes gs r w of
       Some (r', w') \<Rightarrow> departs gs r w (h r' w')
     | None \<Rightarrow> Wrap (Some (Use mws \<lparr>middlewares = []\<rparr>)) h' r w)"
  using chain_passes [OF assms, of r w _ _ h] chain_blocks [OF assms, of r w h h']
  by (auto simp: Wrap_Some Use_middlewares split: option.split)

theorem guard_chain_witness:
  "fst (Wrap (Some (Use [None, Some (RequireContentType [''application/json'']), Some (BodyLimiter_Middleware (Some 10))]
       \<lparr>middlewares = []\<rparr>)) (\<lambda>r w. (Panicked ''reached'', w)) sample_request (fresh_world () :: (unit, unit) world)) = Panicked ''reached''"
proof -
  have "list_all2 is_gate
      (List.map_filter id [None, Some (RequireContentType [''application/json'']), Some (BodyLimiter_Middleware (Some 10))])
      [content_type_gate [''application/json''], body_gate (Some 10)]"
    by (simp add: List.map_filter_simps is_gate_content_type is_gate_body_limit)
  from guard_chain [OF this, of "\<lambda>r w. (Panicked ''reached'', w)" sample_request "fresh_world () :: (unit, unit) world"] show ?thesis
    by (simp add: content_type_gate_def body_gate_def open_gate_def sample_request_def)
qed

text \<open>
  A panic stops at Recovery. Whatever the handler below does, the middleware returns; a
  normal return passes through unchanged; and a panic becomes one log entry and, unless a
  response was sent already, the status 500, with the state of the application as it was.
\<close>

theorem recovery_contains:
  "case next r w of
     (Returned, w') \<Rightarrow> Recovery cip stack next r w = (Returned, w')
   | (Panicked m, w') \<Rightarrow>
       fst (Recovery cip stack next r w) = Returned \<and>
       final_status (snd (Recovery cip stack next r w)) = (if sent w' = None then 500 else final_status w') \<and>
       length (log (snd (Recovery cip stack next r w))) = Suc (length (log w')) \<and>
       app (snd (Recovery cip stack next r w)) = app w'"
  by (auto simp: Recovery_def Let_def split: prod.split outcome.split)

text \<open>
  A request has one identifier everywhere. With RequestID around RequestLogger, the handler
  finds in its context the id that the client sent, or else 32 fresh hexadecimal digits; and if it
  returns without changing the response header, that same id is in the response header and in the
  log line of the request, which is the last one.
\<close>

theorem request_id_everywhere:
  assumes "\<And>r w. fst (next r w) = Returned \<and> resp_header (snd (next r w)) = resp_header w"
    and "Path r \<notin> set skip"
  shows "\<exists>ident w0 r'.
    RequestIDFromContext (Ctx r') = ident \<and> header_get (Header r') = header_get (Header r) \<and>
    (if header_get (Header r) ''X-Request-Id'' = [] then length ident = 32
     else ident = header_get (Header r) ''X-Request-Id'') \<and>
    RequestID_Middleware (Some ()) (RequestLogger cip skip next) r w = RequestLogger cip skip next r' w0 \<and>
    (case RequestLogger cip skip next r' w0 of (p, w') \<Rightarrow>
       p = Returned \<and> header_get (resp_header w') ''X-Request-Id'' = ident \<and>
       id_attr (last (log w')) = Some (AStr ident))"
proof -
  obtain ident w1 where i: "(if header_get (Header r) ''X-Request-Id'' = [] then generateID w
      else (header_get (Header r) ''X-Request-Id'', w)) = (ident, w1)"
    by (rule prod.exhaust)
  then have len: "if header_get (Header r) ''X-Request-Id'' = [] then length ident = 32
     else ident = header_get (Header r) ''X-Request-Id''"
    using generateID_length [of w] by (auto split: if_splits)
  then have ne: "ident \<noteq> []" by (auto split: if_splits)
  define r' where "r' = r\<lparr>Ctx := ContextWithRequestID (Ctx r) ident\<rparr>"
  define w0 where "w0 = SetHeader ''X-Request-Id'' ident w1"
  obtain w' where n: "next r' (w0\<lparr>recorded := None, can_flush := False\<rparr>) = (Returned, w')"
    and h: "resp_header w' = resp_header w0"
    using assms(1) [of r' "w0\<lparr>recorded := None, can_flush := False\<rparr>"]
    by (cases "next r' (w0\<lparr>recorded := None, can_flush := False\<rparr>)") auto
  have ctx: "RequestIDFromContext (Ctx r') = ident" "header_get (Header r') = header_get (Header r)"
    by (simp_all add: r'_def RequestIDFromContext_def ContextWithRequestID_def)
  have run: "RequestID_Middleware (Some ()) (RequestLogger cip skip next) r w = RequestLogger cip skip next r' w0"
    using i by (simp add: RequestID_Middleware_def Let_def r'_def w0_def)
  have path: "Path r' \<notin> set skip" using assms(2) by (simp add: r'_def)
  obtain attrs w'' where l: "RequestLogger cip skip next r' w0 = (Returned, slog Info ''HTTP request'' attrs w'')"
      "map_of attrs ''request_id'' = Some (AStr ident)" "resp_header w'' = resp_header w'"
  proof (rule RequestLogger_returned [of "next" r' w0, OF n path, of cip])
    fix attrs w''
    assume "RequestLogger cip skip next r' w0 = (Returned, slog Info ''HTTP request'' attrs w'')"
      and "map_of attrs ''request_id'' = (if RequestIDFromContext (Ctx r') = [] then None
        else Some (AStr (RequestIDFromContext (Ctx r'))))"
      and "resp_header w'' = resp_header w'"
    then show thesis using that [of attrs w''] ctx(1) ne by simp
  qed
  have "header_get (resp_header w0) ''X-Request-Id'' = ident" by (simp add: w0_def)
  then have last: "case RequestLogger cip skip next r' w0 of (p, w') \<Rightarrow>
       p = Returned \<and> header_get (resp_header w') ''X-Request-Id'' = ident \<and>
       id_attr (last (log w')) = Some (AStr ident)"
    unfolding l(1) using l(2,3) h by (simp add: id_attr_def)
  show ?thesis
    by (rule exI [of _ ident], rule exI [of _ w0], rule exI [of _ r']) (intro conjI ctx len run last)
qed

theorem request_id_everywhere_witness:
  "\<exists>ident w0 r'.
    RequestIDFromContext (Ctx r') = ident \<and> header_get (Header r') = header_get (Header sample_request) \<and>
    (if header_get (Header sample_request) ''X-Request-Id'' = [] then length ident = 32
     else ident = header_get (Header sample_request) ''X-Request-Id'') \<and>
    RequestID_Middleware (Some ()) (RequestLogger RemoteAddr [''/healthz''] (\<lambda>r w. (Returned, w)))
      sample_request (fresh_world () :: (unit, unit) world) =
      RequestLogger RemoteAddr [''/healthz''] (\<lambda>r w. (Returned, w)) r' w0 \<and>
    (case RequestLogger RemoteAddr [''/healthz''] (\<lambda>r w. (Returned, w)) r' w0 of (p, w') \<Rightarrow>
       p = Returned \<and> header_get (resp_header w') ''X-Request-Id'' = ident \<and>
       id_attr (last (log w')) = Some (AStr ident))"
  by (rule request_id_everywhere) (simp_all add: sample_request_def)

section \<open>What the logger sees\<close>

text \<open>What a handler does to its response: headers, statuses and bodies in order.\<close>

datatype resp_op = RSet string string | RStatus int | RWrite bytes | RError string int

fun resp_step :: "resp_op \<Rightarrow> ('b, 'x) world \<Rightarrow> ('b, 'x) world" where
  "resp_step (RSet k v) w = SetHeader k v w"
| "resp_step (RStatus c) w = WriteHeader c w"
| "resp_step (RWrite b) w = Write_resp b w"
| "resp_step (RError m c) w = http_Error m c w"

definition script :: "resp_op list \<Rightarrow> ('b, 'x) handler" where
  "script ops r w = (Returned, fold resp_step ops w)"

text \<open>
  An orderly response sets headers, then gives one final status at most, then only writes; a
  response without a status starts with its first write.
\<close>

fun orderly :: "bool \<Rightarrow> resp_op list \<Rightarrow> bool" where
  "orderly begun [] = True"
| "orderly begun (RSet k v # ops) = orderly begun ops"
| "orderly begun (RWrite b # ops) = orderly True ops"
| "orderly begun (RStatus c # ops) = (\<not> begun \<and> 200 \<le> c \<and> orderly True ops)"
| "orderly begun (RError m c # ops) = (\<not> begun \<and> 200 \<le> c \<and> orderly True ops)"

definition rec_status :: "('b, 'x) world \<Rightarrow> int" where
  "rec_status w = (case recorded w of None \<Rightarrow> 200 | Some c \<Rightarrow> c)"

lemma orderly_begun:
  "orderly True ops \<Longrightarrow> sent w \<noteq> None \<Longrightarrow>
   recorded (fold resp_step ops w) = recorded w \<and> sent (fold resp_step ops w) = sent w"
proof (induction ops arbitrary: w)
  case (Cons x ops)
  then show ?case by (cases x) (auto simp: send_header_sent)
qed simp

lemma orderly_fresh:
  "orderly False ops \<Longrightarrow> sent w = None \<Longrightarrow> recorded w = None \<Longrightarrow>
   final_status (fold resp_step ops w) = rec_status (fold resp_step ops w)"
proof (induction ops arbitrary: w)
  case Nil
  then show ?case by (simp add: final_status_def rec_status_def)
next
  case (Cons x ops)
  show ?case
  proof (cases x)
    case (RSet k v)
    then show ?thesis using Cons by simp
  next
    case (RStatus c)
    then show ?thesis
      using Cons.prems orderly_begun [of ops "WriteHeader c w"]
      by (simp add: final_status_def rec_status_def WriteHeader_fresh)
  next
    case (RWrite b)
    then show ?thesis
      using Cons.prems orderly_begun [of ops "Write_resp b w"]
      by (simp add: final_status_def rec_status_def send_header_fresh)
  next
    case (RError m c)
    moreover have "sent (http_Error m c w) \<noteq> None \<and> final_status (http_Error m c w) = c"
      using Cons.prems RError by (auto simp: http_Error_def Let_def WriteHeader_fresh send_header_sent final_status_def)
    ultimately show ?thesis
      using Cons.prems orderly_begun [of ops "http_Error m c w"]
      by (simp add: final_status_def rec_status_def)
  qed
qed

text \<open>
  The logged status is the one that was sent. For every handler whose response is orderly,
  RequestLogger adds exactly one line to the log, and the status in it is the status that the
  client received.
\<close>

theorem logged_status_correct:
  assumes "orderly False ops" and "sent w = None" and "Path r \<notin> set skip"
  shows "case RequestLogger cip skip (script ops) r w of (p, w') \<Rightarrow>
    p = Returned \<and> status_attr (last (log w')) = Some (AInt (final_status w')) \<and>
    length (log w') = Suc (length (log w))"
proof -
  let ?w = "w\<lparr>recorded := None, can_flush := False\<rparr>"
  let ?w' = "fold resp_step ops ?w"
  have run: "script ops r ?w = (Returned, ?w')" by (simp add: script_def)
  have "log (resp_step x w) = log w" for x and w :: "('a, 'b) world" by (cases x) simp_all
  then have logs: "log (fold resp_step ops w) = log w" for w :: "('a, 'b) world"
    by (induction ops arbitrary: w) simp_all
  have rec_status: "final_status ?w' = rec_status ?w'" using assms by (intro orderly_fresh) simp_all
  show ?thesis
  proof (rule RequestLogger_returned [of "script ops" r w, OF run assms(3), of cip])
    fix attrs w''
    assume "RequestLogger cip skip (script ops) r w = (Returned, slog Info ''HTTP request'' attrs w'')"
      and "map_of attrs ''status'' = Some (AInt (case recorded ?w' of None \<Rightarrow> 200 | Some c \<Rightarrow> c))"
      and "log w'' = log ?w'" and "sent w'' = sent ?w'"
    then show ?thesis
      using rec_status by (simp add: status_attr_def rec_status_def logs final_status_def)
  qed
qed

theorem logged_status_correct_witness:
  "case RequestLogger RemoteAddr [] (script [RSet ''A'' ''b'', RStatus 404, RWrite ''gone'']) sample_request
      (fresh_world () :: (unit, unit) world) of (p, w') \<Rightarrow>
    p = Returned \<and> status_attr (last (log w')) = Some (AInt (final_status w')) \<and>
    length (log w') = Suc (length (log (fresh_world () :: (unit, unit) world)))"
  by (rule logged_status_correct) (simp_all add: fresh_world_def sample_request_def)

text \<open>
  The recorder overwrites its status at every call: a handler that writes its body and then
  reports a failure is logged with a status that the client never saw.
\<close>

lemma logged_status_differs:
  "case RequestLogger RemoteAddr [] (script [RWrite ''partial'', RStatus 500]) sample_request
      (fresh_world () :: (unit, unit) world) of (p, w') \<Rightarrow>
    final_status w' = 200 \<and> status_attr (last (log w')) = Some (AInt 500)"
  by (simp add: RequestLogger_def script_def fresh_world_def sample_request_def status_attr_def final_status_def
      send_header_def Let_def WriteHeader_def slog_def Write_resp_def body_allowed_def)

text \<open>A handler that panics leaves no line in the log.\<close>

lemma panic_not_logged:
  "next r (w\<lparr>recorded := None, can_flush := False\<rparr>) = (Panicked m, w') \<Longrightarrow>
   log (snd (RequestLogger cip skip next r w)) = log w' \<or> Path r \<in> set skip"
  by (simp add: RequestLogger_def Let_def)

section \<open>Health, bodies and defaults\<close>

text \<open>
  The health endpoint tells the load balancer the truth. On a response that has not begun, a
  missing check answers 404, any method but GET answers 405, and a GET answers 503 exactly when
  there is a readiness callback that says no, and 200 otherwise; the application is not changed.
\<close>

theorem health_status:
  assumes "sent w = None"
  shows "\<exists>w'. HealthServe h r w = (Returned, w') \<and> app w' = app w \<and>
    final_status w' =
      (case h of None \<Rightarrow> 404
       | Some hc \<Rightarrow>
           if Method r \<noteq> ''GET'' then 405
           else if hc_ready hc \<noteq> None \<and> \<not> the (hc_ready hc) (app w) then 503
           else 200)"
  using assms
  by (auto simp: HealthServe_def http_NotFound_def split: option.split)

theorem health_status_witness:
  "\<exists>w'. HealthServe (Some (NewHealthCheck [WithPath ''/ready'', WithReadyFunc (\<lambda>up. up)])) sample_request
      (fresh_world False :: (unit, bool) world) = (Returned, w') \<and> final_status w' = 503"
  using health_status [of "fresh_world False :: (unit, bool) world"
      "Some (NewHealthCheck [WithPath ''/ready'', WithReadyFunc (\<lambda>up. up)])" sample_request]
  by (auto simp: fresh_world_def sample_request_def NewHealthCheck_def WithPath_def WithReadyFunc_def)

text \<open>
  The body limit holds. Behind a limiter of n bytes a handler that reads its whole body gets
  the first n bytes at most, all of the body without an error exactly when it fits and its own
  reader had none, and an error otherwise; everything else of the request is unchanged.
\<close>

theorem body_limit_bounds:
  assumes "0 < n"
  shows "\<exists>r'. BodyLimiter_Middleware (NewBodyLimiter n) next r w = next r' w \<and>
    fst (body_read_all (Body r')) = take (nat n) (fst (body_read_all (Body r))) \<and>
    snd (body_read_all (Body r')) =
      (snd (body_read_all (Body r)) \<or> n < int (length (fst (body_read_all (Body r))))) \<and>
    r'\<lparr>Body := Body r\<rparr> = r"
proof -
  obtain bs e where "body_read_all (Body r) = (bs, e)" by (cases "body_read_all (Body r)")
  then show ?thesis
    using assms
    by (intro exI [of _ "r\<lparr>Body := MaxBytes n (Body r)\<rparr>"])
       (auto simp: BodyLimiter_Middleware_def NewBodyLimiter_def)
qed

theorem body_limit_bounds_witness:
  "\<exists>r' :: request. BodyLimiter_Middleware (NewBodyLimiter 3) (\<lambda>r w. (Returned, w)) (sample_request\<lparr>Body := RawBody ''abcd''\<rparr>)
      (fresh_world () :: (unit, unit) world) = (Returned, fresh_world ()) \<and>
    fst (body_read_all (Body r')) = ''abc'' \<and> snd (body_read_all (Body r'))"
  using body_limit_bounds [of 3 "\<lambda>r w. (Returned, w)" "sample_request\<lparr>Body := RawBody ''abcd''\<rparr>"
      "fresh_world () :: (unit, unit) world"]
  by simp blast

text \<open>
  The timeout defaults fill in and never overwrite. After ApplyDefaults no timeout is zero,
  each timeout that was set is as it was, and applying the defaults again changes nothing.
\<close>

theorem apply_defaults_fill:
  "(let s = ApplyDefaults srv in
    ReadTimeout s = (if ReadTimeout srv = 0 then 10 * second else ReadTimeout srv) \<and>
    WriteTimeout s = (if WriteTimeout srv = 0 then 30 * second else WriteTimeout srv) \<and>
    IdleTimeout s = (if IdleTimeout srv = 0 then 120 * second else IdleTimeout srv) \<and>
    ReadHeaderTimeout s = (if ReadHeaderTimeout srv = 0 then 5 * second else ReadHeaderTimeout srv) \<and>
    ApplyDefaults s = s)"
  by (simp add: ApplyDefaults_def second_def Let_def)

end
