(* ===== verification/Origin.thy ===== *)
theory Origin
  imports Middleware
begin

text \<open>
  \<open>middleware/origin.go\<close> and \<open>middleware/cors.go\<close>: the origin allowlist, its WebSocket gate, the
  request check against DNS rebinding, and the CORS headers. \<open>parse\<close> stands for \<open>url.Parse\<close>
  followed by \<open>Hostname\<close>: the host of a URL, or none when the URL does not parse.
\<close>

section \<open>The checker\<close>

record origin_pattern =
  raw :: string
  host :: string
  wildcard :: bool
  localhost :: bool

definition make_pattern :: "(string \<Rightarrow> string option) \<Rightarrow> string \<Rightarrow> origin_pattern" where
  "make_pattern parse o' =
     (let p = \<lparr>raw = o', host = [], wildcard = False, localhost = False\<rparr> in
      if o' = ''localhost'' then p\<lparr>localhost := True\<rparr>
      else if HasPrefix o' ''*.'' then p\<lparr>wildcard := True, host := drop 2 o'\<rparr>
      else
        let url = (if \<not> Contains o' ''://'' then ''https://'' @ o' else o') in
        p\<lparr>host := (case parse url of Some h \<Rightarrow> h | None \<Rightarrow> url)\<rparr>)"

text \<open>The loop over the configured origins; \<open>None\<close> is the early return on a star.\<close>

fun collect :: "(string \<Rightarrow> string option) \<Rightarrow> string list \<Rightarrow> origin_pattern list \<Rightarrow> origin_pattern list option" where
  "collect parse [] patterns = Some patterns"
| "collect parse (o' # os) patterns =
     (let o' = TrimSpace o' in
      if o' = [] then collect parse os patterns
      else if o' = ''*'' then None
      else collect parse os (patterns @ [make_pattern parse o']))"

type_synonym origin_checker = "origin_pattern list option"

definition NewOriginChecker :: "(string \<Rightarrow> string option) \<Rightarrow> string list \<Rightarrow> origin_checker" where
  "NewOriginChecker parse origins =
     (if origins = [] then None
      else (case collect parse origins [] of
          None \<Rightarrow> None
        | Some patterns \<Rightarrow> if patterns = [] then None else Some patterns))"

definition NewLocalhostOriginChecker :: "(string \<Rightarrow> string option) \<Rightarrow> origin_checker" where
  "NewLocalhostOriginChecker parse = NewOriginChecker parse [''localhost'']"

definition local_host :: "string \<Rightarrow> bool" where
  "local_host h \<longleftrightarrow> h = ''localhost'' \<or> h = ''127.0.0.1'' \<or> h = ''::1''"

fun check_host :: "string \<Rightarrow> origin_pattern list \<Rightarrow> bool" where
  "check_host h [] = False"
| "check_host h (p # ps) =
     (if localhost p then (if local_host h then True else check_host h ps)
      else if wildcard p then
        (if h = host p \<or> HasSuffix h (''.'' @ host p) then True else check_host h ps)
      else if h = host p then True
      else check_host h ps)"

definition Check :: "(string \<Rightarrow> string option) \<Rightarrow> origin_checker \<Rightarrow> string \<Rightarrow> bool" where
  "Check parse c origin =
     (case c of
        None \<Rightarrow> True
      | Some allowed \<Rightarrow>
          if origin = [] then False
          else (case parse origin of
              None \<Rightarrow> False
            | Some h \<Rightarrow> check_host h allowed))"

definition Origin_Middleware ::
  "(string \<Rightarrow> string option) \<Rightarrow> (request \<Rightarrow> string) \<Rightarrow> origin_checker \<Rightarrow> ('b, 'x) middleware" where
  "Origin_Middleware parse cip c next r w =
     (case c of
        None \<Rightarrow> next r w
      | Some _ \<Rightarrow>
          let origin = header_get (Header r) ''Origin'' in
          if EqualFold (header_get (Header r) ''Upgrade'') ''websocket'' \<and> \<not> Check parse c origin then
            (Returned, http_Error ''{\"error\":\"origin not allowed\"}'' 403
               (slog Warn ''Rejected WebSocket origin''
                  [(''component'', AStr ''origin''), (''origin'', AStr origin), (''ip'', AStr (cip r)),
                   (''path'', AStr (Path r))] w))
          else next r w)"

text \<open>\<open>strings.LastIndex\<close> of one byte, with Go's -1 for none.\<close>

definition last_index :: "string \<Rightarrow> char \<Rightarrow> int" where
  "last_index s c = (case LastIndexByte s c of Some i \<Rightarrow> int i | None \<Rightarrow> -1)"

definition isLocalhostHost :: "string \<Rightarrow> bool" where
  "isLocalhostHost hst =
     (let idx = last_index hst (CHR '':'');
          h = (if idx \<noteq> -1 \<and> last_index hst (CHR '']'') < idx then take (nat idx) hst else hst);
          h = TrimPrefix h ''['';
          h = TrimSuffix h '']''
      in local_host h)"

definition CheckRequest :: "(string \<Rightarrow> string option) \<Rightarrow> origin_checker \<Rightarrow> request \<Rightarrow> bool" where
  "CheckRequest parse c r =
     (case c of
        None \<Rightarrow> True
      | Some _ \<Rightarrow>
          let origin = header_get (Header r) ''Origin'' in
          if origin \<noteq> [] then Check parse c origin
          else
            let hst = (if Host r = [] then header_get (Header r) ''Host'' else Host r) in
            if hst = [] then True else isLocalhostHost hst)"

section \<open>CORS\<close>

record cors_config =
  cors_methods :: string
  cors_headers :: string
  cors_expose :: string

definition defaultCORSConfig :: cors_config where
  "defaultCORSConfig = \<lparr>cors_methods = ''GET, POST, OPTIONS'',
     cors_headers = ''Content-Type, Authorization'', cors_expose = []\<rparr>"

definition CORSAllowMethods :: "string list \<Rightarrow> cors_config \<Rightarrow> cors_config" where
  "CORSAllowMethods ms c = c\<lparr>cors_methods := Join ms '', ''\<rparr>"

definition CORSAllowHeaders :: "string list \<Rightarrow> cors_config \<Rightarrow> cors_config" where
  "CORSAllowHeaders hs c = c\<lparr>cors_headers := Join hs '', ''\<rparr>"

definition CORSExposeHeaders :: "string list \<Rightarrow> cors_config \<Rightarrow> cors_config" where
  "CORSExposeHeaders hs c = c\<lparr>cors_expose := Join hs '', ''\<rparr>"

definition cors_headers_for ::
  "(string \<Rightarrow> string option) \<Rightarrow> origin_checker \<Rightarrow> cors_config \<Rightarrow> request \<Rightarrow> ('b, 'x) world \<Rightarrow> ('b, 'x) world" where
  "cors_headers_for parse checker cfg r w =
     (let origin = header_get (Header r) ''Origin'';
          w = (if origin \<noteq> [] \<and> (checker = None \<or> Check parse checker origin) then
                 SetHeader ''Vary'' ''Origin'' (SetHeader ''Access-Control-Allow-Origin'' origin w)
               else w);
          w = SetHeader ''Access-Control-Allow-Methods'' (cors_methods cfg) w;
          w = SetHeader ''Access-Control-Allow-Headers'' (cors_headers cfg) w
      in if cors_expose cfg \<noteq> [] then SetHeader ''Access-Control-Expose-Headers'' (cors_expose cfg) w else w)"

definition CORS ::
  "(string \<Rightarrow> string option) \<Rightarrow> origin_checker \<Rightarrow> (cors_config \<Rightarrow> cors_config) list \<Rightarrow> ('b, 'x) middleware" where
  "CORS parse checker opts next r w =
     (let cfg = fold (\<lambda>opt c. opt c) opts defaultCORSConfig;
          w = cors_headers_for parse checker cfg r w
      in if Method r = ''OPTIONS'' then (Returned, WriteHeader 204 w) else next r w)"

section \<open>The allowlist as configured\<close>

text \<open>What one configured origin, already trimmed, allows.\<close>

definition allows :: "(string \<Rightarrow> string option) \<Rightarrow> string \<Rightarrow> string \<Rightarrow> bool" where
  "allows parse entry h \<longleftrightarrow>
     (if entry = ''localhost'' then local_host h
      else if HasPrefix entry ''*.'' then
        h = drop 2 entry \<or> (\<exists>sub. h = sub @ ''.'' @ drop 2 entry)
      else
        let url = (if Contains entry ''://'' then entry else ''https://'' @ entry) in
        h = (case parse url of Some d \<Rightarrow> d | None \<Rightarrow> url))"

definition entries :: "string list \<Rightarrow> string list" where
  "entries origins = filter (\<lambda>s. s \<noteq> []) (map TrimSpace origins)"

text \<open>What one pattern matches, with the loop as a search for a match.\<close>

definition matches :: "string \<Rightarrow> origin_pattern \<Rightarrow> bool" where
  "matches h p \<longleftrightarrow>
     (if localhost p then local_host h
      else if wildcard p then h = host p \<or> HasSuffix h (''.'' @ host p)
      else h = host p)"

lemma check_host_Cons: "check_host h (p # ps) \<longleftrightarrow> matches h p \<or> check_host h ps"
  by (simp add: matches_def)

lemma check_host_matches: "check_host h ps \<longleftrightarrow> list_ex (matches h) ps"
  by (induction ps) (simp_all add: check_host_Cons del: check_host.simps(2))

lemma matches_make_pattern: "matches h (make_pattern parse entry) \<longleftrightarrow> allows parse entry h"
  by (simp add: make_pattern_def allows_def matches_def Let_def HasSuffix_iff)

lemma collect_entries:
  "collect parse origins ps =
     (if ''*'' \<in> set (entries origins) then None
      else Some (ps @ map (make_pattern parse) (entries origins)))"
  by (induction origins arbitrary: ps) (auto simp: entries_def Let_def)

lemma NewOriginChecker_entries:
  "NewOriginChecker parse origins =
     (if entries origins = [] \<or> ''*'' \<in> set (entries origins) then None
      else Some (map (make_pattern parse) (entries origins)))"
  by (auto simp: NewOriginChecker_def collect_entries entries_def)

section \<open>Gates\<close>

definition origin_gate ::
  "(string \<Rightarrow> string option) \<Rightarrow> (request \<Rightarrow> string) \<Rightarrow> origin_checker \<Rightarrow> ('b, 'x) gate" where
  "origin_gate parse cip c = open_gate\<lparr>
     admit := (\<lambda>r w. c = None \<or> \<not> EqualFold (header_get (Header r) ''Upgrade'') ''websocket'' \<or>
       Check parse c (header_get (Header r) ''Origin'')),
     refuse := (\<lambda>r w. http_Error ''{\"error\":\"origin not allowed\"}'' 403
               (slog Warn ''Rejected WebSocket origin''
                  [(''component'', AStr ''origin''), (''origin'', AStr (header_get (Header r) ''Origin'')),
                   (''ip'', AStr (cip r)), (''path'', AStr (Path r))] w))\<rparr>"

interpretation origin: gate_contract "Origin_Middleware parse cip c" "origin_gate parse cip c" 403
  by unfold_locales
    (auto simp: gate_simps origin_gate_def Origin_Middleware_def Let_def simp del: EqualFold.simps
      split: option.split)

definition cors_gate ::
  "(string \<Rightarrow> string option) \<Rightarrow> origin_checker \<Rightarrow> (cors_config \<Rightarrow> cors_config) list \<Rightarrow> ('b, 'x) gate" where
  "cors_gate parse checker opts = open_gate\<lparr>
     admit := (\<lambda>r w. Method r \<noteq> ''OPTIONS''),
     enter := (\<lambda>r w. (r, cors_headers_for parse checker (fold (\<lambda>opt c. opt c) opts defaultCORSConfig) r w)),
     refuse := (\<lambda>r w. WriteHeader 204
       (cors_headers_for parse checker (fold (\<lambda>opt c. opt c) opts defaultCORSConfig) r w))\<rparr>"

lemma is_gate_cors: "is_gate (CORS parse checker opts) (cors_gate parse checker opts)"
  by (simp add: is_gate_def gate_simps cors_gate_def CORS_def Let_def)

section \<open>Properties\<close>


text \<open>
  No cross-origin WebSocket gets through. With a checker in place, an upgrade request whose
  origin is not allowed is answered with 403 and never reaches the handler; every other request,
  and an upgrade with an allowed origin, reaches it as it came.
\<close>

theorem origin_gate_blocks:
  assumes "sent w = None"
  shows "if c \<noteq> None \<and> EqualFold (header_get (Header r) ''Upgrade'') ''websocket'' \<and>
      \<not> Check parse c (header_get (Header r) ''Origin'')
    then \<exists>w'. (\<forall>next. Origin_Middleware parse cip c next r w = (Returned, w')) \<and>
      final_status w' = 403 \<and> app w' = app w
    else \<forall>next. Origin_Middleware parse cip c next r w = next r w"
proof (cases "admit (origin_gate parse cip c) r w")
  case True
  then have "Origin_Middleware parse cip c next r w = next r w" for "next"
    using origin.admitted [OF True, of "next"] by (simp add: origin_gate_def open_gate_def)
  moreover have "\<not> (c \<noteq> None \<and> EqualFold (header_get (Header r) ''Upgrade'') ''websocket'' \<and>
      \<not> Check parse c (header_get (Header r) ''Origin''))"
    using True by (auto simp: origin_gate_def simp del: EqualFold.simps)
  ultimately show ?thesis by (simp only: if_False simp_thms)
next
  case False
  let ?w' = "refuse (origin_gate parse cip c) r w"
  have "Origin_Middleware parse cip c next r w = (Returned, ?w')" for "next"
    using False by (simp add: origin.runs gate_run_def)
  then show ?thesis
    using False origin.refuse_status [OF False assms] origin.refuse_app [OF False]
    by (auto simp: origin_gate_def simp del: EqualFold.simps)
qed

text \<open>A parser that takes what follows the scheme, up to a colon, for the host.\<close>

definition simple_host :: "string \<Rightarrow> string option" where
  "simple_host url = (case Index url ''://'' of
      None \<Rightarrow> None
    | Some i \<Rightarrow> Some (takeWhile (\<lambda>c. c \<noteq> CHR '':'') (drop (i + 3) url)))"

theorem origin_gate_blocks_witness:
  "\<exists>w'. (\<forall>next. Origin_Middleware simple_host RemoteAddr (Some [make_pattern simple_host ''*.a.io'']) next
      (sample_request\<lparr>Header := header_set ''Upgrade'' ''websocket'' (header_set ''Origin'' ''https://evil.io'' (\<lambda>k. None))\<rparr>)
      (fresh_world () :: (unit, unit) world) = (Returned, w')) \<and>
    final_status w' = 403"
proof -
  let ?r = "sample_request\<lparr>Header := header_set ''Upgrade'' ''websocket'' (header_set ''Origin'' ''https://evil.io'' (\<lambda>k. None))\<rparr>"
  let ?c = "Some [make_pattern simple_host ''*.a.io'']"
  have keys: "canonical_key ''Origin'' \<noteq> canonical_key ''Upgrade''" by (rule canonical_key_neq) simp
  have up: "header_get (Header ?r) ''Upgrade'' = ''websocket''" by simp
  have org: "header_get (Header ?r) ''Origin'' = ''https://evil.io''" using keys by simp
  have bad: "\<not> Check simple_host ?c ''https://evil.io''" by code_simp
  show ?thesis
    using origin_gate_blocks [of "fresh_world () :: (unit, unit) world" ?c ?r simple_host RemoteAddr]
    unfolding up org using bad by (auto simp: fresh_world_def)
qed

text \<open>
  CORS never opens more than the checker. The Access-Control-Allow-Origin header that a
  response starts with is the request's own origin when that origin is allowed, and otherwise it
  is whatever it was before; it is never a star of the middleware's own; and a preflight is
  answered with 204 without running the handler.
\<close>

theorem cors_reflects_allowed:
  "\<exists>w'. CORS parse checker opts next r w =
      (if Method r = ''OPTIONS'' then (Returned, WriteHeader 204 w') else next r w') \<and>
    header_get (resp_header w') ''Access-Control-Allow-Origin'' =
      (if header_get (Header r) ''Origin'' \<noteq> [] \<and> Check parse checker (header_get (Header r) ''Origin'')
       then header_get (Header r) ''Origin''
       else header_get (resp_header w) ''Access-Control-Allow-Origin'') \<and>
    app w' = app w \<and> sent w' = sent w"
proof -
  let ?cfg = "fold (\<lambda>opt c. opt c) opts defaultCORSConfig"
  have keys: "canonical_key ''Access-Control-Allow-Origin'' \<noteq> canonical_key ''Vary''"
    "canonical_key ''Access-Control-Allow-Origin'' \<noteq> canonical_key ''Access-Control-Allow-Methods''"
    "canonical_key ''Access-Control-Allow-Origin'' \<noteq> canonical_key ''Access-Control-Allow-Headers''"
    "canonical_key ''Access-Control-Allow-Origin'' \<noteq> canonical_key ''Access-Control-Expose-Headers''"
    by (rule canonical_key_neq, simp)+
  have nil: "checker = None \<or> Check parse checker x \<longleftrightarrow> Check parse checker x" for x
    by (auto simp: Check_def)
  show ?thesis
    by (rule exI [of _ "cors_headers_for parse checker ?cfg r w"])
       (simp add: CORS_def cors_headers_for_def Let_def keys nil)
qed

text \<open>
  A request without an Origin is judged by its Host. With a checker in place a request passes
  exactly when its origin is allowed, or it has no origin and its host is absent or, after its port
  and brackets are removed, a local host; so a foreign host name without an origin is refused.
\<close>

theorem check_request_exact:
  "CheckRequest parse (Some c) r \<longleftrightarrow>
     (let origin = header_get (Header r) ''Origin'';
          hst = (if Host r = [] then header_get (Header r) ''Host'' else Host r)
      in (origin \<noteq> [] \<and> Check parse (Some c) origin) \<or>
         (origin = [] \<and> (hst = [] \<or> isLocalhostHost hst)))"
  by (auto simp: CheckRequest_def Let_def)

lemma last_index_port:
  assumes "CHR '':'' \<notin> set port" and "CHR '']'' \<notin> set port"
  shows "last_index (name @ CHR '':'' # port) (CHR '':'') = int (length name)"
    and "last_index (name @ CHR '':'' # port) (CHR '']'') < int (length name)"
proof -
  show "last_index (name @ CHR '':'' # port) (CHR '':'') = int (length name)"
    using assms(1) by (simp add: last_index_def LastIndexByte_append_hit)
  have "LastIndexByte (name @ s) c = LastIndexByte name c" if "c \<notin> set s" for s c
    using that by (induction name) (auto simp: LastIndexByte_None_iff)
  then have "LastIndexByte (name @ CHR '':'' # port) (CHR '']'') = LastIndexByte name (CHR '']'')"
    using assms(2) by simp
  then show "last_index (name @ CHR '':'' # port) (CHR '']'') < int (length name)"
    by (auto simp: last_index_def dest: LastIndexByte_SomeD split: option.split)
qed

lemma isLocalhostHost_port:
  assumes "CHR '':'' \<notin> set port" and "CHR '']'' \<notin> set port"
  shows "isLocalhostHost (name @ CHR '':'' # port) = local_host (TrimSuffix (TrimPrefix name ''['') '']'')"
  using last_index_port [OF assms, of name] by (simp add: isLocalhostHost_def Let_def)

section \<open>Where the comments promise something else\<close>

text \<open>Neither the scheme nor the port of an origin matters: only its host is compared.\<close>

lemma origin_only_host:
  "parse a = parse b \<Longrightarrow> a \<noteq> [] \<Longrightarrow> b \<noteq> [] \<Longrightarrow> Check parse c a = Check parse c b"
  by (simp add: Check_def split: option.split)

text \<open>A bare IPv6 loopback host loses its last group as if it were a port.\<close>

lemma bare_ipv6_loopback_refused: "\<not> isLocalhostHost ''::1''"
  by (simp add: isLocalhostHost_def last_index_def Let_def local_host_def TrimPrefix_def TrimSuffix_def
      HasPrefix_def HasSuffix_def)

end
