(* ===== verification/RateLimit.thy ===== *)
theory RateLimit
  imports Middleware
begin

text \<open>
  \<open>middleware/ratelimit.go\<close>. The token bucket is the library \<open>golang.org/x/time/rate\<close>:
  \<open>new_limiter\<close> is \<open>rate.NewLimiter\<close> and \<open>take_token\<close> is \<open>Limiter.Allow\<close> at a time, which gives
  the decision and the bucket after it. A limiter object is its address; its buckets are in the
  world. Rates are finite floating point numbers and so rationals.
\<close>

section \<open>The limiter\<close>

record rate_limit_config =
  GlobalPerSec :: rat
  PerKeyPerSec :: rat
  PerKeyBurst :: int
  KeyLimiterTTL :: int

definition DefaultRateLimitConfig :: rate_limit_config where
  "DefaultRateLimitConfig = \<lparr>GlobalPerSec = 100, PerKeyPerSec = 5, PerKeyBurst = 3,
     KeyLimiterTTL = 5 * 60 * second\<rparr>"

record ('b, 'x) rate_limiter =
  Config :: rate_limit_config
  address :: nat
  hasGlobal :: bool
  OnRejected :: "(string \<Rightarrow> ('b, 'x) world \<Rightarrow> ('b, 'x) world) option"

definition NewRateLimiter ::
  "(rat \<Rightarrow> int \<Rightarrow> 'b) \<Rightarrow> nat \<Rightarrow> rate_limit_config \<Rightarrow> ('b, 'x) world \<Rightarrow>
   ('b, 'x) rate_limiter option \<times> ('b, 'x) world"
where
  "NewRateLimiter new_limiter a cfg w =
     (if GlobalPerSec cfg \<le> 0 \<and> PerKeyPerSec cfg \<le> 0 then (None, w)
      else
        let w = w\<lparr>key_buckets := (key_buckets w)(a := (\<lambda>k. None))\<rparr>;
            rl = \<lparr>Config = cfg, address = a, hasGlobal = False, OnRejected = None\<rparr>
        in if 0 < GlobalPerSec cfg then
             (Some (rl\<lparr>hasGlobal := True\<rparr>),
              w\<lparr>buckets := (buckets w)(a := Some (new_limiter (GlobalPerSec cfg) \<lfloor>GlobalPerSec cfg\<rfloor>))\<rparr>)
           else (Some rl, w\<lparr>buckets := (buckets w)(a := None)\<rparr>))"

text \<open>
  \<open>getKeyLimiter\<close> and the \<open>Allow\<close> on what it returns: the entry is made when it is missing,
  its time of last use is set, and the bucket it points to loses a token.
\<close>

definition getKeyLimiter ::
  "(rat \<Rightarrow> int \<Rightarrow> 'b) \<Rightarrow> ('b, 'x) rate_limiter \<Rightarrow> string \<Rightarrow> ('b, 'x) world \<Rightarrow> 'b \<times> ('b, 'x) world" where
  "getKeyLimiter new_limiter rl key w =
     (let limiter = (case key_buckets w (address rl) key of
            Some (l, seen) \<Rightarrow> l
          | None \<Rightarrow> new_limiter (PerKeyPerSec (Config rl)) (PerKeyBurst (Config rl)))
      in (limiter, w\<lparr>key_buckets := (key_buckets w)(address rl :=
            (key_buckets w (address rl))(key \<mapsto> (limiter, clock w)))\<rparr>))"

definition allow_key ::
  "(rat \<Rightarrow> int \<Rightarrow> 'b) \<Rightarrow> ('b \<Rightarrow> int \<Rightarrow> bool \<times> 'b) \<Rightarrow> ('b, 'x) rate_limiter \<Rightarrow> string \<Rightarrow>
   ('b, 'x) world \<Rightarrow> bool \<times> ('b, 'x) world"
where
  "allow_key new_limiter take_token rl key w =
     (case getKeyLimiter new_limiter rl key w of (l, w) \<Rightarrow>
        (case take_token l (clock w) of (ok, l) \<Rightarrow>
           (ok, w\<lparr>key_buckets := (key_buckets w)(address rl :=
              (key_buckets w (address rl))(key \<mapsto> (l, clock w)))\<rparr>)))"

definition allow_global ::
  "('b \<Rightarrow> int \<Rightarrow> bool \<times> 'b) \<Rightarrow> ('b, 'x) rate_limiter \<Rightarrow> ('b, 'x) world \<Rightarrow> bool \<times> ('b, 'x) world" where
  "allow_global take_token rl w =
     (if hasGlobal rl then
        (case buckets w (address rl) of
           None \<Rightarrow> (True, w)
         | Some l \<Rightarrow> (case take_token l (clock w) of (ok, l) \<Rightarrow>
             (ok, w\<lparr>buckets := (buckets w)(address rl := Some l)\<rparr>)))
      else (True, w))"

definition Allow ::
  "(rat \<Rightarrow> int \<Rightarrow> 'b) \<Rightarrow> ('b \<Rightarrow> int \<Rightarrow> bool \<times> 'b) \<Rightarrow> ('b, 'x) rate_limiter option \<Rightarrow> string \<Rightarrow>
   ('b, 'x) world \<Rightarrow> bool \<times> ('b, 'x) world"
where
  "Allow new_limiter take_token rl key w =
     (case rl of
        None \<Rightarrow> (True, w)
      | Some rl \<Rightarrow>
          (case allow_global take_token rl w of
             (False, w) \<Rightarrow> (False, w)
           | (True, w) \<Rightarrow>
               if 0 < PerKeyPerSec (Config rl) then allow_key new_limiter take_token rl key w
               else (True, w)))"

text \<open>One tick of the clean-up goroutine: entries not used since the cutoff go.\<close>

definition cleanupKeyLimiters :: "('b, 'x) rate_limiter \<Rightarrow> ('b, 'x) world \<Rightarrow> ('b, 'x) world" where
  "cleanupKeyLimiters rl w =
     (let cutoff = clock w - KeyLimiterTTL (Config rl) in
      w\<lparr>key_buckets := (key_buckets w)(address rl := (\<lambda>key.
         case key_buckets w (address rl) key of
           Some (l, seen) \<Rightarrow> if seen < cutoff then None else Some (l, seen)
         | None \<Rightarrow> None))\<rparr>)"

definition RateLimit_Middleware ::
  "(rat \<Rightarrow> int \<Rightarrow> 'b) \<Rightarrow> ('b \<Rightarrow> int \<Rightarrow> bool \<times> 'b) \<Rightarrow> (request \<Rightarrow> string) \<Rightarrow>
   (request \<Rightarrow> string) option \<Rightarrow> ('b, 'x) rate_limiter option \<Rightarrow> ('b, 'x) middleware"
where
  "RateLimit_Middleware new_limiter take_token cip keyFunc rl next r w =
     (case rl of
        None \<Rightarrow> next r w
      | Some l \<Rightarrow>
          let key = (case keyFunc of None \<Rightarrow> cip r | Some f \<Rightarrow> f r) in
          (case Allow new_limiter take_token rl key w of
             (True, w) \<Rightarrow> next r w
           | (False, w) \<Rightarrow>
               let w = (case OnRejected l of None \<Rightarrow> w | Some f \<Rightarrow> f key w);
                   w = slog Warn ''Rate limited request''
                     [(''component'', AStr ''ratelimit''), (''key'', AStr key), (''path'', AStr (Path r))] w
               in (Returned, http_Error ''{\"error\":\"rate limit exceeded\"}'' 429 w)))"

section \<open>Frames\<close>

lemma allow_key_frame:
  "allow_key nl tt rl key w = (ok, w') \<Longrightarrow>
   clock w' = clock w \<and> app w' = app w \<and> sent w' = sent w \<and> log w' = log w \<and> buckets w' = buckets w \<and>
   (\<forall>a k. (a, k) \<noteq> (address rl, key) \<longrightarrow> key_buckets w' a k = key_buckets w a k)"
  by (auto simp: allow_key_def getKeyLimiter_def Let_def split: prod.splits)

lemma allow_global_frame:
  "allow_global tt rl w = (ok, w') \<Longrightarrow>
   clock w' = clock w \<and> app w' = app w \<and> sent w' = sent w \<and> log w' = log w \<and> key_buckets w' = key_buckets w \<and>
   (\<forall>a. a \<noteq> address rl \<longrightarrow> buckets w' a = buckets w a)"
  by (auto simp: allow_global_def split: prod.splits option.splits if_splits)

lemma Allow_frame:
  "Allow nl tt rl key w = (ok, w') \<Longrightarrow> clock w' = clock w \<and> app w' = app w \<and> sent w' = sent w \<and> log w' = log w"
  by (auto simp: Allow_def split: option.splits prod.splits bool.splits if_splits
      dest!: allow_key_frame allow_global_frame)

section \<open>The gate\<close>

definition rate_gate ::
  "(rat \<Rightarrow> int \<Rightarrow> 'b) \<Rightarrow> ('b \<Rightarrow> int \<Rightarrow> bool \<times> 'b) \<Rightarrow> (request \<Rightarrow> string) \<Rightarrow> ('b, 'x) rate_limiter \<Rightarrow> ('b, 'x) gate"
where
  "rate_gate nl tt key rl = open_gate\<lparr>
     admit := (\<lambda>r w. fst (Allow nl tt (Some rl) (key r) w)),
     enter := (\<lambda>r w. (r, snd (Allow nl tt (Some rl) (key r) w))),
     refuse := (\<lambda>r w. http_Error ''{\"error\":\"rate limit exceeded\"}'' 429
       (slog Warn ''Rate limited request''
         [(''component'', AStr ''ratelimit''), (''key'', AStr (key r)), (''path'', AStr (Path r))]
         (snd (Allow nl tt (Some rl) (key r) w))))\<rparr>"

text \<open>The contract holds for a limiter without a rejection callback.\<close>

definition quiet :: "('b, 'x) rate_limiter \<Rightarrow> ('b, 'x) rate_limiter" where
  "quiet rl = rl\<lparr>OnRejected := None\<rparr>"

interpretation rate: gate_contract
  "RateLimit_Middleware nl tt cip (Some key) (Some (quiet rl))" "rate_gate nl tt key (quiet rl)" 429
proof unfold_locales
  fix "next" r and w :: "('a, 'b) world"
  show "RateLimit_Middleware nl tt cip (Some key) (Some (quiet rl)) next r w =
      gate_run (rate_gate nl tt key (quiet rl)) next r w"
    by (simp add: RateLimit_Middleware_def gate_simps rate_gate_def quiet_def Let_def split: prod.split bool.split)
next
  fix r and w :: "('a, 'b) world"
  obtain ok w' where a: "Allow nl tt (Some (quiet rl)) (key r) w = (ok, w')"
    by (cases "Allow nl tt (Some (quiet rl)) (key r) w")
  note f = Allow_frame [OF a]
  show "sent w = None \<Longrightarrow> final_status (refuse (rate_gate nl tt key (quiet rl)) r w) = 429"
    using a f by (simp add: rate_gate_def open_gate_def)
  show "app (refuse (rate_gate nl tt key (quiet rl)) r w) = app w"
    using a f by (simp add: rate_gate_def open_gate_def)
  show "app (snd (enter (rate_gate nl tt key (quiet rl)) r w)) = app w"
    using a f by (simp add: rate_gate_def open_gate_def)
qed simp

section \<open>Sequences of requests\<close>

text \<open>Requests as pairs of a time and a key, and the decisions of the limiter on them.\<close>

fun decisions ::
  "(rat \<Rightarrow> int \<Rightarrow> 'b) \<Rightarrow> ('b \<Rightarrow> int \<Rightarrow> bool \<times> 'b) \<Rightarrow> ('b, 'x) rate_limiter \<Rightarrow>
   (int \<times> string) list \<Rightarrow> ('b, 'x) world \<Rightarrow> (string \<times> bool) list"
where
  "decisions nl tt rl [] w = []"
| "decisions nl tt rl ((t, key) # reqs) w =
     (case Allow nl tt (Some rl) key (w\<lparr>clock := t\<rparr>) of (ok, w) \<Rightarrow> (key, ok) # decisions nl tt rl reqs w)"

lemma Allow_only_key:
  assumes "\<not> hasGlobal rl" and "key_buckets w (address rl) key = key_buckets w' (address rl) key"
    and "Allow nl tt (Some rl) key (w\<lparr>clock := t\<rparr>) = (ok, v)" and "Allow nl tt (Some rl) key (w'\<lparr>clock := t\<rparr>) = (ok', v')"
  shows "ok = ok' \<and> key_buckets v (address rl) key = key_buckets v' (address rl) key"
  using assms
  by (auto simp: Allow_def allow_global_def allow_key_def getKeyLimiter_def Let_def
      split: prod.splits if_splits)

lemma Allow_other_key:
  assumes "\<not> hasGlobal rl" and "key' \<noteq> key" and "Allow nl tt (Some rl) key' (w\<lparr>clock := t\<rparr>) = (ok, v)"
  shows "key_buckets v (address rl) key = key_buckets w (address rl) key"
  using assms allow_key_frame [of nl tt rl key' "w\<lparr>clock := t\<rparr>" ok v]
  by (auto simp: Allow_def allow_global_def split: if_splits)

lemma decisions_key:
  assumes "\<not> hasGlobal rl" and "key_buckets w (address rl) key = key_buckets w' (address rl) key"
  shows "filter (\<lambda>d. fst d = key) (decisions nl tt rl reqs w) =
    decisions nl tt rl (filter (\<lambda>q. snd q = key) reqs) w'"
  using assms(2)
proof (induction reqs arbitrary: w w')
  case (Cons q reqs)
  obtain t k where q: "q = (t, k)" by (cases q)
  obtain ok v where a: "Allow nl tt (Some rl) k (w\<lparr>clock := t\<rparr>) = (ok, v)"
    by (cases "Allow nl tt (Some rl) k (w\<lparr>clock := t\<rparr>)")
  show ?case
  proof (cases "k = key")
    case True
    obtain ok' v' where a': "Allow nl tt (Some rl) key (w'\<lparr>clock := t\<rparr>) = (ok', v')"
      by (cases "Allow nl tt (Some rl) key (w'\<lparr>clock := t\<rparr>)")
    have "ok = ok'" "key_buckets v (address rl) key = key_buckets v' (address rl) key"
      using Allow_only_key [OF assms(1) Cons.prems a [unfolded True] a'] by auto
    then show ?thesis using Cons.IH q a a' True by simp
  next
    case False
    have "key_buckets v (address rl) key = key_buckets w' (address rl) key"
      using Allow_other_key [OF assms(1) False a] Cons.prems by simp
    then show ?thesis using Cons.IH q a False by simp
  qed
qed simp

section \<open>Properties\<close>


text \<open>A bucket that counts down, for the examples.\<close>

definition countdown :: "nat \<Rightarrow> int \<Rightarrow> bool \<times> nat" where
  "countdown n t = (0 < n, n - 1)"

definition per_key_config :: rate_limit_config where
  "per_key_config = \<lparr>GlobalPerSec = 0, PerKeyPerSec = 1, PerKeyBurst = 1, KeyLimiterTTL = 0\<rparr>"


text \<open>
  What a request costs. A request refused by the global limit costs its key nothing; a
  request costs at most one token of its own key and of the global bucket, and never touches
  another key or another limiter; and a request that is over a limit is answered with 429 and
  does not reach the handler.
\<close>

theorem rate_limit_costs:
  assumes "Allow nl tt (Some rl) key w = (ok, w')"
  shows "(\<forall>a k. (a, k) \<noteq> (address rl, key) \<longrightarrow> key_buckets w' a k = key_buckets w a k) \<and>
    (\<forall>a. a \<noteq> address rl \<longrightarrow> buckets w' a = buckets w a) \<and>
    (\<not> fst (allow_global tt rl w) \<longrightarrow> \<not> ok \<and> key_buckets w' = key_buckets w) \<and>
    (\<not> ok \<and> sent w = None \<and> OnRejected rl = None \<longrightarrow>
      (\<exists>w''. (\<forall>next. RateLimit_Middleware nl tt cip (Some (\<lambda>r. key)) (Some rl) next r w = (Returned, w'')) \<and>
        final_status w'' = 429 \<and> app w'' = app w))"
proof -
  obtain gok v where g: "allow_global tt rl w = (gok, v)" by (cases "allow_global tt rl w")
  note gf = allow_global_frame [OF g]
  have quiet: "OnRejected rl = None \<Longrightarrow> quiet rl = rl" by (simp add: quiet_def)
  have block: "\<exists>w''. (\<forall>next. RateLimit_Middleware nl tt cip (Some (\<lambda>r. key)) (Some rl) next r w = (Returned, w'')) \<and>
        final_status w'' = 429 \<and> app w'' = app w"
    if "\<not> ok" "sent w = None" "OnRejected rl = None"
  proof -
    have "\<not> admit (rate_gate nl tt (\<lambda>r. key) (quiet rl)) r w"
      using assms that by (simp add: rate_gate_def quiet)
    then show ?thesis
      using rate.refuse_status [of nl tt "\<lambda>r. key" rl r w] rate.refuse_app [of nl tt "\<lambda>r. key" rl r w]
        rate.runs [of nl tt cip "\<lambda>r. key" rl _ r w] that
      by (auto simp: quiet gate_run_def)
  qed
  show ?thesis
  proof (cases gok)
    case False
    then have "ok = False" "w' = v" using assms g by (simp_all add: Allow_def)
    then show ?thesis using gf g False block by simp
  next
    case True
    then have "(if 0 < PerKeyPerSec (Config rl) then allow_key nl tt rl key v else (True, v)) = (ok, w')"
      using assms g by (simp add: Allow_def)
    then have "buckets w' = buckets v \<and> (\<forall>a k. (a, k) \<noteq> (address rl, key) \<longrightarrow> key_buckets w' a k = key_buckets v a k)"
      using allow_key_frame [of nl tt rl key v ok w'] by (auto split: if_splits)
    then show ?thesis using gf g True block by simp
  qed
qed

definition sample_limiter :: "(nat, unit) rate_limiter" where
  "sample_limiter = \<lparr>Config = per_key_config, address = 0, hasGlobal = False, OnRejected = None\<rparr>"

theorem rate_limit_costs_witness:
  "key_buckets (snd (Allow (\<lambda>r b. nat b) countdown (Some sample_limiter) ''a'' (fresh_world ()))) 0 ''b'' = None"
proof -
  obtain ok w' where a: "Allow (\<lambda>r b. nat b) countdown (Some sample_limiter) ''a'' (fresh_world ()) = (ok, w')"
    by (cases "Allow (\<lambda>r b. nat b) countdown (Some sample_limiter) ''a'' (fresh_world ())")
  have "\<forall>b k. (b, k) \<noteq> (0, ''a'') \<longrightarrow> key_buckets w' b k = key_buckets (fresh_world () :: (nat, unit) world) b k"
    using rate_limit_costs [OF a, of RemoteAddr sample_request] by (simp add: sample_limiter_def)
  then show ?thesis using a by (simp add: fresh_world_def)
qed

text \<open>
  The global token is spent before the key is looked at: requests that a key's own limit refuses
  still use up the global rate.
\<close>

lemma refused_key_spends_global:
  assumes "hasGlobal rl" and "buckets w (address rl) = Some l" and "tt l (clock w) = (True, l')"
    and "0 < PerKeyPerSec (Config rl)" and "Allow nl tt (Some rl) key w = (False, w')"
  shows "buckets w' (address rl) = Some l'"
proof -
  let ?v = "w\<lparr>buckets := (buckets w)(address rl := Some l')\<rparr>"
  have "allow_key nl tt rl key ?v = (False, w')"
    using assms by (simp add: Allow_def allow_global_def)
  from allow_key_frame [OF this] show ?thesis by simp
qed

end
