(* ===== verification/ConnLimit.thy ===== *)
theory ConnLimit
  imports Middleware
begin

text \<open>
  \<open>middleware/connlimit.go\<close>: the limiter's counter is atomic, so a request is the sequence of its
  atomic steps, and requests interleave between them. The middleware is given twice: as a handler
  transformer for one request at a time, and as a step relation over any number of requests,
  where the bound is proved.
\<close>

section \<open>The middleware\<close>

record conn_limiter =
  cl_max :: int
  cl_addr :: nat

definition NewConnLimiter :: "nat \<Rightarrow> int \<Rightarrow> conn_limiter option" where
  "NewConnLimiter a mx = (if mx \<le> 0 then None else Some \<lparr>cl_max = mx, cl_addr = a\<rparr>)"

definition atomic_Add :: "nat \<Rightarrow> int \<Rightarrow> ('b, 'x) world \<Rightarrow> int \<times> ('b, 'x) world" where
  "atomic_Add a d w = (conn_active w a + d, w\<lparr>conn_active := (conn_active w)(a := conn_active w a + d)\<rparr>)"

definition Active :: "conn_limiter option \<Rightarrow> ('b, 'x) world \<Rightarrow> int" where
  "Active c w = (case c of None \<Rightarrow> 0 | Some c \<Rightarrow> conn_active w (cl_addr c))"

definition ConnLimit_Middleware :: "(request \<Rightarrow> string) \<Rightarrow> conn_limiter option \<Rightarrow> ('b, 'x) middleware" where
  "ConnLimit_Middleware cip c next r w =
     (case c of
        None \<Rightarrow> next r w
      | Some c \<Rightarrow>
          (case atomic_Add (cl_addr c) 1 w of (current, w) \<Rightarrow>
             if cl_max c < current then
               let w = snd (atomic_Add (cl_addr c) (-1) w);
                   w = slog Warn ''Rejected connection''
                     [(''component'', AStr ''connlimit''), (''active'', AInt (current - 1)),
                      (''max'', AInt (cl_max c)), (''ip'', AStr (cip r))] w
               in (Returned, http_Error ''{\"error\":\"too many connections\"}'' 503 w)
             else
               (case next r w of (res, w) \<Rightarrow> (res, snd (atomic_Add (cl_addr c) (-1) w)))))"

lemma atomic_Add_frame [simp]:
  "sent (snd (atomic_Add a d w)) = sent w" "app (snd (atomic_Add a d w)) = app w"
  "log (snd (atomic_Add a d w)) = log w"
  "conn_active (snd (atomic_Add a d w)) b = (if b = a then conn_active w a + d else conn_active w b)"
  "fst (atomic_Add a d w) = conn_active w a + d"
  by (simp_all add: atomic_Add_def)

definition conn_gate :: "(request \<Rightarrow> string) \<Rightarrow> conn_limiter \<Rightarrow> ('b, 'x) gate" where
  "conn_gate cip c = \<lparr>
     admit = (\<lambda>r w. conn_active w (cl_addr c) + 1 \<le> cl_max c),
     enter = (\<lambda>r w. (r, snd (atomic_Add (cl_addr c) 1 w))),
     depart = (\<lambda>r w res. (fst res, snd (atomic_Add (cl_addr c) (-1) (snd res)))),
     refuse = (\<lambda>r w. http_Error ''{\"error\":\"too many connections\"}'' 503
       (slog Warn ''Rejected connection''
         [(''component'', AStr ''connlimit''), (''active'', AInt (conn_active w (cl_addr c))),
          (''max'', AInt (cl_max c)), (''ip'', AStr (cip r))]
         (snd (atomic_Add (cl_addr c) (-1) (snd (atomic_Add (cl_addr c) 1 w))))))\<rparr>"

interpretation conn_limit: gate_contract "ConnLimit_Middleware cip (Some c)" "conn_gate cip c" 503
  by unfold_locales
    (auto simp: gate_run_def conn_gate_def ConnLimit_Middleware_def atomic_Add_def Let_def split: prod.split)

section \<open>Interleaved requests\<close>

text \<open>
  Where a request stands: not arrived, past its \<open>Add(1)\<close> with the value it returned, inside the
  handler, or done, admitted or not.
\<close>

datatype stand = Absent | Added int | InHandler | Served | Turned

record conn_system =
  active :: int
  stand_of :: "nat \<Rightarrow> stand"

definition conn_start :: conn_system where
  "conn_start = \<lparr>active = 0, stand_of = (\<lambda>i. Absent)\<rparr>"

inductive limit_step :: "int \<Rightarrow> conn_system \<Rightarrow> conn_system \<Rightarrow> bool" for mx :: int where
  arrive: "stand_of s i = Absent \<Longrightarrow>
    limit_step mx s (s\<lparr>active := active s + 1, stand_of := (stand_of s)(i := Added (active s + 1))\<rparr>)"
| turn_away: "stand_of s i = Added c \<Longrightarrow> mx < c \<Longrightarrow>
    limit_step mx s (s\<lparr>active := active s - 1, stand_of := (stand_of s)(i := Turned)\<rparr>)"
| let_in: "stand_of s i = Added c \<Longrightarrow> c \<le> mx \<Longrightarrow>
    limit_step mx s (s\<lparr>stand_of := (stand_of s)(i := InHandler)\<rparr>)"
| leave: "stand_of s i = InHandler \<Longrightarrow>
    limit_step mx s (s\<lparr>active := active s - 1, stand_of := (stand_of s)(i := Served)\<rparr>)"

inductive limit_reach :: "int \<Rightarrow> conn_system \<Rightarrow> bool" for mx :: int where
  reach_start: "limit_reach mx conn_start"
| reach_step: "limit_reach mx s \<Longrightarrow> limit_step mx s s' \<Longrightarrow> limit_reach mx s'"

text \<open>
  The requests that hold a unit of the counter, and those among them that are or will be in the
  handler.
\<close>

definition holding :: "conn_system \<Rightarrow> nat set" where
  "holding s = {i. stand_of s i = InHandler \<or> (\<exists>c. stand_of s i = Added c)}"

definition admitted :: "int \<Rightarrow> conn_system \<Rightarrow> nat set" where
  "admitted mx s = {i. stand_of s i = InHandler \<or> (\<exists>c. stand_of s i = Added c \<and> c \<le> mx)}"

definition limit_inv :: "int \<Rightarrow> conn_system \<Rightarrow> bool" where
  "limit_inv mx s \<longleftrightarrow> finite (holding s) \<and> active s = int (card (holding s)) \<and> int (card (admitted mx s)) \<le> mx"

lemma admitted_holding: "admitted mx s \<subseteq> holding s"
  by (auto simp: admitted_def holding_def)

lemma limit_inv_start: "0 \<le> mx \<Longrightarrow> limit_inv mx conn_start"
  by (simp add: limit_inv_def conn_start_def holding_def admitted_def)

lemma limit_inv_arrive:
  assumes "limit_inv mx s" and "stand_of s i = Absent"
    and s': "s' = s\<lparr>active := active s + 1, stand_of := (stand_of s)(i := Added (active s + 1))\<rparr>"
  shows "limit_inv mx s'"
proof -
  have new: "i \<notin> holding s" "i \<notin> admitted mx s" using assms(2) by (auto simp: holding_def admitted_def)
  have hold: "holding s' = insert i (holding s)" using assms(2) by (auto simp: s' holding_def)
  have adm: "admitted mx s' = (if active s + 1 \<le> mx then insert i (admitted mx s) else admitted mx s)"
    using assms(2) by (auto simp: s' admitted_def)
  have fin: "finite (holding s)" and act: "active s = int (card (holding s))" using assms(1) by (auto simp: limit_inv_def)
  have "card (admitted mx s) \<le> card (holding s)" by (rule card_mono [OF fin admitted_holding])
  moreover have "finite (admitted mx s)" by (rule finite_subset [OF admitted_holding fin])
  ultimately show ?thesis
    using assms(1) fin act new adm hold by (auto simp: limit_inv_def s')
qed

lemma limit_inv_drop:
  assumes "limit_inv mx s" and "i \<in> holding s" and "x \<in> {Served, Turned}"
    and s': "s' = s\<lparr>active := active s - 1, stand_of := (stand_of s)(i := x)\<rparr>"
  shows "limit_inv mx s'"
proof -
  have hold: "holding s' = holding s - {i}" using assms(3) by (auto simp: s' holding_def)
  have adm: "admitted mx s' \<subseteq> admitted mx s" using assms(3) by (auto simp: s' admitted_def)
  have fin: "finite (holding s)" using assms(1) by (simp add: limit_inv_def)
  have "card (admitted mx s') \<le> card (admitted mx s)"
    by (rule card_mono [OF finite_subset [OF admitted_holding fin] adm])
  moreover have "int (card (holding s - {i})) = int (card (holding s)) - 1"
    using card.remove [OF fin assms(2)] by simp
  ultimately show ?thesis using assms(1) fin hold by (simp add: limit_inv_def s')
qed

lemma limit_inv_step: "limit_step mx s s' \<Longrightarrow> limit_inv mx s \<Longrightarrow> limit_inv mx s'"
proof (induction rule: limit_step.induct)
  case (arrive s i)
  then show ?case using limit_inv_arrive [OF _ _ refl, of mx s i] by simp
next
  case (turn_away s i c)
  then have "i \<in> holding s" by (auto simp: holding_def)
  with turn_away show ?case using limit_inv_drop [OF _ _ _ refl, of mx s i Turned] by simp
next
  case (let_in s i c)
  have "holding (s\<lparr>stand_of := (stand_of s)(i := InHandler)\<rparr>) = holding s"
    using let_in(1) by (auto simp: holding_def)
  moreover have "admitted mx (s\<lparr>stand_of := (stand_of s)(i := InHandler)\<rparr>) = admitted mx s"
    using let_in(1,2) by (auto simp: admitted_def)
  ultimately show ?case using let_in(3) by (simp add: limit_inv_def)
next
  case (leave s i)
  then have "i \<in> holding s" by (auto simp: holding_def)
  with leave show ?case using limit_inv_drop [OF _ _ _ refl, of mx s i Served] by simp
qed

lemma limit_inv_reach: "limit_reach mx s \<Longrightarrow> 0 \<le> mx \<Longrightarrow> limit_inv mx s"
  by (induction rule: limit_reach.induct) (auto intro: limit_inv_start limit_inv_step)

section \<open>Properties\<close>

text \<open>
  C8: Never more than the limit. In every state that any number of requests can reach, whatever
  the interleaving of their atomic steps, the handler runs for at most the configured number of
  requests at once, and the counter is exactly the number of requests that were counted and have
  neither left nor been turned away; so it is zero again when all of them are gone.
\<close>

theorem conn_limit_holds:
  assumes "NewConnLimiter a mx = Some c" and "limit_reach (cl_max c) s"
  shows "int (card {i. stand_of s i = InHandler}) \<le> mx \<and>
    active s = int (card {i. stand_of s i = InHandler \<or> (\<exists>k. stand_of s i = Added k)}) \<and>
    finite {i. stand_of s i = InHandler \<or> (\<exists>k. stand_of s i = Added k)}"
proof -
  have mx: "cl_max c = mx" "0 \<le> mx" using assms(1) by (auto simp: NewConnLimiter_def split: if_splits)
  have inv: "limit_inv mx s" using limit_inv_reach [OF assms(2)] mx by simp
  have "{i. stand_of s i = InHandler} \<subseteq> admitted mx s" by (auto simp: admitted_def)
  moreover have "finite (admitted mx s)"
    using inv finite_subset [OF admitted_holding] by (auto simp: limit_inv_def)
  ultimately have "card {i. stand_of s i = InHandler} \<le> card (admitted mx s)" by (intro card_mono)
  then show ?thesis using inv by (simp add: limit_inv_def holding_def)
qed

text \<open>A state with one request inside and one counted above the limit of one.\<close>

definition two_requests :: conn_system where
  "two_requests = \<lparr>active = 2, stand_of = (\<lambda>i. if i = 0 then InHandler else if i = 1 then Added 2 else Absent)\<rparr>"

lemma two_requests_reach: "limit_reach 1 two_requests"
proof -
  let ?s1 = "conn_start\<lparr>active := active conn_start + 1,
    stand_of := (stand_of conn_start)(0 := Added (active conn_start + 1))\<rparr>"
  let ?s2 = "?s1\<lparr>stand_of := (stand_of ?s1)(0 := InHandler)\<rparr>"
  let ?s3 = "?s2\<lparr>active := active ?s2 + 1, stand_of := (stand_of ?s2)(1 := Added (active ?s2 + 1))\<rparr>"
  have "limit_reach 1 ?s1"
    by (rule reach_step [OF reach_start], rule limit_step.arrive) (simp add: conn_start_def)
  then have "limit_reach 1 ?s2"
    by (rule reach_step, intro limit_step.let_in [where c = 1]) (simp_all add: conn_start_def)
  then have "limit_reach 1 ?s3"
    by (rule reach_step, intro limit_step.arrive) (simp add: conn_start_def)
  moreover have "?s3 = two_requests" by (simp add: conn_start_def two_requests_def fun_eq_iff)
  ultimately show ?thesis by metis
qed

theorem conn_limit_holds_witness:
  "int (card {i. stand_of two_requests i = InHandler}) \<le> 1"
  using conn_limit_holds [of 0 1 "\<lparr>cl_max = 1, cl_addr = 0\<rparr>" two_requests] two_requests_reach
  by (simp add: NewConnLimiter_def)

text \<open>
  A slot is given back on every way out. For one request at a time, the counter after the
  middleware is what the handler made of it: a handler that leaves the counter as it found it,
  whether it returns or panics, leaves it as it was before the request; and at the limit the
  request gets 503 and neither reaches the handler nor changes the counter.
\<close>

theorem conn_limit_gives_back:
  assumes "\<And>r w. conn_active (snd (next r w)) = conn_active w" and "sent w = None"
  shows "conn_active (snd (ConnLimit_Middleware cip (Some c) next r w)) = conn_active w \<and>
    (if conn_active w (cl_addr c) < cl_max c
     then fst (ConnLimit_Middleware cip (Some c) next r w) = fst (next r (snd (atomic_Add (cl_addr c) 1 w)))
     else fst (ConnLimit_Middleware cip (Some c) next r w) = Returned \<and>
       final_status (snd (ConnLimit_Middleware cip (Some c) next r w)) = 503)"
proof (cases "admit (conn_gate cip c) r w")
  case True
  then show ?thesis
    using conn_limit.admitted [OF True, of "next"] assms(1)
    by (auto simp: conn_gate_def fun_eq_iff)
next
  case False
  have "conn_active (refuse (conn_gate cip c) r w) = conn_active w"
    by (auto simp: conn_gate_def fun_eq_iff)
  then show ?thesis
    using False conn_limit.refuse_status [OF False assms(2)]
    by (simp add: conn_limit.runs gate_run_def) (simp add: conn_gate_def)
qed

theorem conn_limit_gives_back_witness:
  "fst (ConnLimit_Middleware RemoteAddr (Some \<lparr>cl_max = 1, cl_addr = 0\<rparr>) (\<lambda>r w. (Panicked ''boom'', w))
      sample_request (fresh_world () :: (unit, unit) world)) = Panicked ''boom''"
  using conn_limit_gives_back [of "\<lambda>r w. (Panicked ''boom'', w)" "fresh_world () :: (unit, unit) world" RemoteAddr
      "\<lparr>cl_max = 1, cl_addr = 0\<rparr>" sample_request]
  by (simp add: fresh_world_def)

end
