(* ===== verification/Stack.thy ===== *)
theory Stack
  imports SseServe Origin RateLimit ConnLimit
begin

text \<open>
  Properties of the middleware put together, as the comments of \<open>middleware/guard.go\<close> and the
  README compose it: the production guard of a WebSocket endpoint, and a stream behind the
  request logger.
\<close>

section \<open>The production guard\<close>

definition production_guard ::
  "('b, 'x) middleware option \<Rightarrow> ('b, 'x) middleware option \<Rightarrow> ('b, 'x) middleware option \<Rightarrow>
   ('b, 'x) middleware option \<Rightarrow> ('b, 'x) guard"
where
  "production_guard origin_mw rate_mw auth_mw conn_mw =
     Use [origin_mw, rate_mw, auth_mw, conn_mw] \<lparr>middlewares = []\<rparr>"

lemma is_gate_origin: "is_gate (Origin_Middleware parse cip c) (origin_gate parse cip c)"
  by (rule gate_contract_is_gate [OF origin.gate_contract_axioms])

lemma is_gate_rate:
  "is_gate (RateLimit_Middleware nl tt cip (Some key) (Some (quiet rl))) (rate_gate nl tt key (quiet rl))"
  by (rule gate_contract_is_gate [OF rate.gate_contract_axioms])

lemma is_gate_conn: "is_gate (ConnLimit_Middleware cip (Some c)) (conn_gate cip c)"
  by (rule gate_contract_is_gate [OF conn_limit.gate_contract_axioms])

lemma is_gate_eq: "is_gate mw g \<Longrightarrow> mw = gate_run g"
  by (intro ext) (simp add: is_gate_def)

lemma gate_run_through:
  "admit g r w \<Longrightarrow> enter g r w = (r', w') \<Longrightarrow> depart g r w (next r' w') = res \<Longrightarrow> gate_run g next r w = res"
  by (simp add: gate_run_def)

lemma gate_run_refused: "\<not> admit g r w \<Longrightarrow> gate_run g next r w = (Returned, refuse g r w)"
  by (simp add: gate_run_def)

lemma foldr_gates:
  assumes "is_gate m1 g1" and "is_gate m2 g2" and "is_gate m3 g3"
  shows "foldr (\<lambda>m h. m h) [m1, m2, m3] h = gate_run g1 (gate_run g2 (gate_run g3 h))"
  using assms [THEN is_gate_eq] by simp

text \<open>The status with which each link refuses.\<close>

lemma production_wrap:
  "Wrap (Some (production_guard (Some (Origin_Middleware parse cip oc))
      (Some (RateLimit_Middleware nl tt cip (Some key) (Some (quiet rl)))) None
      (Some (ConnLimit_Middleware cip (Some cl))))) h =
    gate_run (origin_gate parse cip oc) (gate_run (rate_gate nl tt key (quiet rl)) (gate_run (conn_gate cip cl) h))"
  using foldr_gates [OF is_gate_origin is_gate_rate is_gate_conn]
  by (simp add: Wrap_Some production_guard_def Use_middlewares List.map_filter_simps)

section \<open>Properties\<close>

text \<open>The stages one by one: a refusal, or the next stage on what the link leaves.\<close>

lemma conn_stage:
  assumes "gate_run (conn_gate cip cl) h r v = (p, w')" and "sent v = None"
  shows "if cl_max cl \<le> conn_active v (cl_addr cl)
    then p = Returned \<and> final_status w' = 503 \<and> conn_active w' = conn_active v
    else \<exists>u. h r (snd (atomic_Add (cl_addr cl) 1 v)) = (p, u) \<and> w' = snd (atomic_Add (cl_addr cl) (-1) u)"
proof (cases "admit (conn_gate cip cl) r v")
  case False
  then have "p = Returned" "w' = refuse (conn_gate cip cl) r v"
    using assms(1) gate_run_refused [OF False] by simp_all
  then show ?thesis
    using False conn_limit.refuse_status [OF False assms(2)] by (auto simp: conn_gate_def fun_eq_iff)
next
  case True
  obtain p' u where h: "h r (snd (atomic_Add (cl_addr cl) 1 v)) = (p', u)"
    by (cases "h r (snd (atomic_Add (cl_addr cl) 1 v))")
  then have "p = p'" "w' = snd (atomic_Add (cl_addr cl) (-1) u)"
    using assms(1) True by (simp_all add: gate_run_def conn_gate_def)
  then show ?thesis using True h by (simp add: conn_gate_def)
qed

lemma rate_stage:
  assumes "gate_run (rate_gate nl tt key (quiet rl)) g r w = (p, w')" and "sent w = None"
    and "Allow nl tt (Some (quiet rl)) (key r) w = (ok, v)"
  shows "if \<not> ok then p = Returned \<and> final_status w' = 429 \<and> conn_active w' = conn_active v else g r v = (p, w')"
proof (cases ok)
  case False
  then have out: "\<not> admit (rate_gate nl tt key (quiet rl)) r w" using assms(3) by (simp add: rate_gate_def)
  then have "p = Returned" "w' = refuse (rate_gate nl tt key (quiet rl)) r w"
    using assms(1) gate_run_refused [OF out] by simp_all
  then show ?thesis
    using False rate.refuse_status [OF out assms(2)] assms(3) by (simp add: rate_gate_def open_gate_def)
next
  case True
  then show ?thesis
    using assms(1,3) gate_run_through [of "rate_gate nl tt key (quiet rl)" r w r v]
    by (simp add: rate_gate_def open_gate_def)
qed

lemma origin_stage:
  assumes "gate_run (origin_gate parse cip oc) g r w = (p, w')" and "sent w = None"
  shows "if oc \<noteq> None \<and> EqualFold (header_get (Header r) ''Upgrade'') ''websocket'' \<and>
      \<not> Check parse oc (header_get (Header r) ''Origin'')
    then p = Returned \<and> final_status w' = 403 \<and> key_buckets w' = key_buckets w \<and> buckets w' = buckets w \<and>
      conn_active w' = conn_active w
    else g r w = (p, w')"
proof (cases "admit (origin_gate parse cip oc) r w")
  case False
  then have "p = Returned" "w' = refuse (origin_gate parse cip oc) r w"
    using assms(1) gate_run_refused [OF False] by simp_all
  then show ?thesis
    using False origin.refuse_status [OF False assms(2)]
    by (simp add: origin_gate_def open_gate_def del: EqualFold.simps)
next
  case True
  have "enter (origin_gate parse cip oc) r w = (r, w)" "depart (origin_gate parse cip oc) r w res = res" for res
    by (simp_all add: origin_gate_def open_gate_def)
  then have "g r w = (p, w')" using assms(1) gate_run_through [OF True, of r w] by metis
  then show ?thesis using True by (auto simp: origin_gate_def simp del: EqualFold.simps)
qed


definition sample_guard :: "(nat, unit) guard" where
  "sample_guard = production_guard (Some (Origin_Middleware simple_host RemoteAddr (Some [])))
      (Some (RateLimit_Middleware (\<lambda>r b. nat b) countdown RemoteAddr (Some Host) (Some (quiet sample_limiter)))) None
      (Some (ConnLimit_Middleware RemoteAddr (Some \<lparr>cl_max = 0, cl_addr = 0\<rparr>)))"


text \<open>
  C36: A stream cannot start behind the request logger. The recorder that the logger puts around
  the response writer is no Flusher, so the start of a BaseSSEConn fails: whatever connection the
  application supplies, the client gets 500 instead of a stream, and the log line says 500.
\<close>

theorem sse_behind_logger_fails:
  assumes "\<And>r w. fst (validate r w) = Some (new_conn n i) \<and> sent (snd (validate r w)) = sent w \<and>
      can_flush (snd (validate r w)) = can_flush w"
    and "sent w = None" and "Path r \<notin> set skip"
  shows "case RequestLogger cip skip (\<lambda>r w. (Returned, snd (SSEServe_open (base_ops rnd) validate r w))) r w of (p, w') \<Rightarrow>
    final_status w' = 500 \<and> status_attr (last (log w')) = Some (AInt 500)"
proof -
  let ?w = "w\<lparr>recorded := None, can_flush := False\<rparr>"
  let ?next = "\<lambda>r w. (Returned, snd (SSEServe_open (base_ops rnd) validate r w))"
  obtain c v where v: "validate r ?w = (Some (new_conn n i), v)" "sent v = None" "\<not> can_flush v"
    using assms(1) [of r ?w] assms(2) by (cases "validate r ?w") auto
  obtain w' where w': "?next r ?w = (Returned, w')" by simp
  have st: "final_status w' = 500 \<and> recorded w' = Some 500"
    using v w' by (auto simp: SSEServe_open_def OnStart_def Let_def sse_headers_def)
  show ?thesis
  proof (rule RequestLogger_returned [of ?next r w, OF w' assms(3), of cip])
    fix attrs w''
    assume "RequestLogger cip skip ?next r w = (Returned, slog Info ''HTTP request'' attrs w'')"
      and "map_of attrs ''status'' = Some (AInt (case recorded w' of None \<Rightarrow> 200 | Some c \<Rightarrow> c))"
      and "sent w'' = sent w'"
    then show ?thesis using st by (simp add: status_attr_def final_status_def)
  qed
qed

theorem sse_behind_logger_fails_witness:
  "case RequestLogger RemoteAddr [] (\<lambda>r w. (Returned, snd (SSEServe_open (base_ops ''r'')
      (\<lambda>r w. (Some (new_conn ''demo'' ''c1'' :: int base_sse_conn), w)) r w))) sample_request
      (fresh_world () :: (unit, unit) world) of (p, w') \<Rightarrow>
    final_status w' = 500 \<and> status_attr (last (log w')) = Some (AInt 500)"
  by (rule sse_behind_logger_fails [of _ "''demo''" "''c1''"]) (simp_all add: fresh_world_def)

end
