(* ===== verification/BaseConn.thy ===== *)
theory BaseConn
  imports HttpModel
begin

text \<open>
  \<open>http/codec.go\<close> and \<open>http/baseconn.go\<close>: the codecs, the union message of a WebSocket
  connection, the callback that puts a message on the wire, and \<open>BaseConn\<close> with its ping counter.
  JSON and protobuf marshalling, \<open>reflect.New\<close> and the socket are parameters.
\<close>

section \<open>Codecs\<close>

definition TextMessage :: int where "TextMessage = 1"
definition BinaryMessage :: int where "BinaryMessage = 2"

text \<open>
  The interface \<open>Codec\<close>. \<open>Decode\<close> gives the value and an error together, as in Go.
\<close>

record ('i, 'o) codec =
  Decode :: "bytes \<Rightarrow> int \<Rightarrow> 'i \<times> string option"
  Encode :: "'o \<Rightarrow> string + bytes \<times> int"

definition tagged :: "int \<Rightarrow> string + bytes \<Rightarrow> string + bytes \<times> int" where
  "tagged t r = (case r of Inl e \<Rightarrow> Inl e | Inr data \<Rightarrow> Inr (data, t))"

definition JSONCodec :: "(bytes \<Rightarrow> 'a \<times> string option) \<Rightarrow> ('a \<Rightarrow> string + bytes) \<Rightarrow> ('a, 'a) codec" where
  "JSONCodec unmarshal marshal =
     \<lparr>Decode = (\<lambda>data msgType. unmarshal data), Encode = (\<lambda>msg. tagged TextMessage (marshal msg))\<rparr>"

definition TypedJSONCodec :: "(bytes \<Rightarrow> 'i \<times> string option) \<Rightarrow> ('o \<Rightarrow> string + bytes) \<Rightarrow> ('i, 'o) codec" where
  "TypedJSONCodec unmarshal marshal =
     \<lparr>Decode = (\<lambda>data msgType. unmarshal data), Encode = (\<lambda>msg. tagged TextMessage (marshal msg))\<rparr>"

text \<open>
  The protobuf codecs make a message to unmarshal into: from the factory when there is one, and by
  reflection on the exemplar otherwise.
\<close>

definition newInput :: "('i \<Rightarrow> 'i) \<Rightarrow> 'i option \<Rightarrow> 'i \<Rightarrow> 'i" where
  "newInput reflect_new factory exemplar =
     (case factory of Some fresh \<Rightarrow> fresh | None \<Rightarrow> reflect_new exemplar)"

definition ProtoJSONCodec ::
  "('i \<Rightarrow> 'i) \<Rightarrow> 'i option \<Rightarrow> 'i \<Rightarrow> (bytes \<Rightarrow> 'i \<Rightarrow> 'i \<times> string option) \<Rightarrow> ('o \<Rightarrow> string + bytes) \<Rightarrow>
   ('i, 'o) codec"
where
  "ProtoJSONCodec reflect_new factory exemplar unmarshal marshal =
     \<lparr>Decode = (\<lambda>data msgType. unmarshal data (newInput reflect_new factory exemplar)),
      Encode = (\<lambda>msg. tagged TextMessage (marshal msg))\<rparr>"

definition BinaryProtoCodec ::
  "('i \<Rightarrow> 'i) \<Rightarrow> 'i option \<Rightarrow> 'i \<Rightarrow> (bytes \<Rightarrow> 'i \<Rightarrow> 'i \<times> string option) \<Rightarrow> ('o \<Rightarrow> string + bytes) \<Rightarrow>
   ('i, 'o) codec"
where
  "BinaryProtoCodec reflect_new factory exemplar unmarshal marshal =
     \<lparr>Decode = (\<lambda>data msgType. unmarshal data (newInput reflect_new factory exemplar)),
      Encode = (\<lambda>msg. tagged BinaryMessage (marshal msg))\<rparr>"

section \<open>Messages of a connection\<close>

text \<open>The errors that reach a connection; an error of no interest is its message.\<close>

datatype ws_error = WsEOF | NetErrClosed | CloseError int | OtherError string

definition ws_error_text :: "(int \<Rightarrow> string) \<Rightarrow> ws_error \<Rightarrow> string" where
  "ws_error_text close_text e = (case e of
      WsEOF \<Rightarrow> ''EOF''
    | NetErrClosed \<Rightarrow> ''use of closed network connection''
    | CloseError c \<Rightarrow> close_text c
    | OtherError m \<Rightarrow> m)"

record ping_data =
  pd_PingId :: "64 word"
  pd_ConnId :: string
  pd_Name :: string

record 'o outgoing_message =
  og_Data :: "'o option"
  og_Ping :: "ping_data option"
  og_Error :: "ws_error option"

definition no_message :: "'o outgoing_message" where
  "no_message = \<lparr>og_Data = None, og_Ping = None, og_Error = None\<rparr>"

section \<open>The writer callback\<close>

text \<open>
  \<open>send\<close> is \<open>WriteMessage\<close> of the socket, on a socket state \<open>'w\<close>. \<open>marshal\<close> is \<open>json.Marshal\<close>
  of a map with string keys, whose values are strings and numbers here.
\<close>

datatype json_value = JStr string | JInt int

type_synonym 'w ws_send = "'w \<Rightarrow> int \<Rightarrow> bytes \<Rightarrow> string option \<times> 'w"

definition writeMessage :: "'w ws_send \<Rightarrow> ('i, 'o) codec \<Rightarrow> 'o \<Rightarrow> 'w \<Rightarrow> string option \<times> 'w" where
  "writeMessage send codec msg conn =
     (case Encode codec msg of
        Inl e \<Rightarrow> (Some e, conn)
      | Inr (data, msgType) \<Rightarrow> send conn msgType data)"

definition write_json ::
  "'w ws_send \<Rightarrow> ((string \<times> json_value) list \<Rightarrow> string + bytes) \<Rightarrow> (string \<times> json_value) list \<Rightarrow> 'w \<Rightarrow>
   string option \<times> 'w"
where
  "write_json send marshal obj conn =
     (case marshal obj of
        Inl e \<Rightarrow> (Some e, conn)
      | Inr data \<Rightarrow> send conn TextMessage data)"

definition writeError ::
  "'w ws_send \<Rightarrow> ((string \<times> json_value) list \<Rightarrow> string + bytes) \<Rightarrow> (int \<Rightarrow> string) \<Rightarrow> ws_error \<Rightarrow> 'w \<Rightarrow>
   string option \<times> 'w"
where
  "writeError send marshal close_text err =
     write_json send marshal [(''type'', JStr ''error''), (''error'', JStr (ws_error_text close_text err))]"

definition writePing ::
  "'w ws_send \<Rightarrow> ((string \<times> json_value) list \<Rightarrow> string + bytes) \<Rightarrow> ping_data \<Rightarrow> 'w \<Rightarrow> string option \<times> 'w" where
  "writePing send marshal ping =
     write_json send marshal
       [(''type'', JStr ''ping''), (''pingId'', JInt (sint (pd_PingId ping))),
        (''connId'', JStr (pd_ConnId ping)), (''name'', JStr (pd_Name ping))]"

definition ws_write ::
  "'w ws_send \<Rightarrow> ((string \<times> json_value) list \<Rightarrow> string + bytes) \<Rightarrow> (int \<Rightarrow> string) \<Rightarrow> ('i, 'o) codec \<Rightarrow>
   'o outgoing_message \<Rightarrow> 'w \<Rightarrow> string option \<times> 'w"
where
  "ws_write send marshal close_text codec msg conn =
     (case og_Ping msg of
        Some ping \<Rightarrow> writePing send marshal ping conn
      | None \<Rightarrow>
          (case og_Error msg of
             Some err \<Rightarrow> if err = WsEOF then (None, conn) else writeError send marshal close_text err conn
           | None \<Rightarrow>
               (case og_Data msg of
                  Some d \<Rightarrow> writeMessage send codec d conn
                | None \<Rightarrow> (None, conn))))"

section \<open>The connection\<close>

record 'o base_conn =
  WSWriter :: "'o outgoing_message writer_call list option"
  WSNameStr :: string
  WSConnIdStr :: string
  PingId :: "64 word"
  wsConn :: bool

definition new_base_conn :: "string \<Rightarrow> string \<Rightarrow> 'o base_conn" where
  "new_base_conn name ident =
     \<lparr>WSWriter = None, WSNameStr = name, WSConnIdStr = ident, PingId = 0, wsConn = False\<rparr>"

definition WSName :: "'o base_conn \<Rightarrow> string \<times> 'o base_conn" where
  "WSName b = (let b = (if WSNameStr b = [] then b\<lparr>WSNameStr := ''BaseConn''\<rparr> else b) in (WSNameStr b, b))"

definition WSConnId :: "string \<Rightarrow> 'o base_conn \<Rightarrow> string \<times> 'o base_conn" where
  "WSConnId rnd b = (let b = (if WSConnIdStr b = [] then b\<lparr>WSConnIdStr := rnd\<rparr> else b) in (WSConnIdStr b, b))"

definition WSOnStart :: "string \<Rightarrow> 'o base_conn \<Rightarrow> string option \<times> 'o base_conn" where
  "WSOnStart rnd b =
     (let b = snd (WSConnId rnd (snd (WSName b))) in
      (None, b\<lparr>wsConn := True, WSWriter := Some []\<rparr>))"

definition ws_call_writer :: "'o outgoing_message writer_call \<Rightarrow> 'o base_conn \<Rightarrow> 'o base_conn" where
  "ws_call_writer k b = (case WSWriter b of None \<Rightarrow> b | Some ks \<Rightarrow> b\<lparr>WSWriter := Some (ks @ [k])\<rparr>)"

definition SendPing :: "string \<Rightarrow> 'o base_conn \<Rightarrow> string option \<times> 'o base_conn" where
  "SendPing rnd b =
     (let b = b\<lparr>PingId := PingId b + 1\<rparr> in
      if WSWriter b = None then (None, b)
      else
        (case WSConnId rnd b of (ident, b) \<Rightarrow>
           (case WSName b of (name, b) \<Rightarrow>
              (None, ws_call_writer (WSend (no_message\<lparr>og_Ping :=
                 Some \<lparr>pd_PingId = PingId b, pd_ConnId = ident, pd_Name = name\<rparr>\<rparr>)) b))))"

definition HandleMessage :: "'i \<Rightarrow> 'o base_conn \<Rightarrow> string option \<times> 'o base_conn" where
  "HandleMessage msg b = (None, b)"

definition OnError :: "ws_error \<Rightarrow> 'o base_conn \<Rightarrow> ws_error option \<times> 'o base_conn" where
  "OnError err b = (Some err, b)"

definition OnTimeout :: "'o base_conn \<Rightarrow> bool \<times> 'o base_conn" where
  "OnTimeout b = (True, b)"

definition WSOnClose :: "string \<Rightarrow> 'o base_conn \<Rightarrow> 'o base_conn" where
  "WSOnClose rnd b = snd (WSConnId rnd (snd (WSName (ws_call_writer WStop b))))"

definition WSSendOutput :: "'o \<Rightarrow> 'o base_conn \<Rightarrow> 'o base_conn" where
  "WSSendOutput msg b = ws_call_writer (WSend (no_message\<lparr>og_Data := Some msg\<rparr>)) b"

definition SendError :: "ws_error \<Rightarrow> 'o base_conn \<Rightarrow> 'o base_conn" where
  "SendError err b = ws_call_writer (WSend (no_message\<lparr>og_Error := Some err\<rparr>)) b"

text \<open>
  The writer's input channel and debugging view belong to the library: \<open>input\<close> and \<open>view\<close> stand
  for them. A nil channel is \<open>None\<close>.
\<close>

definition WSInputChan :: "'h \<Rightarrow> 'o base_conn \<Rightarrow> 'h option" where
  "WSInputChan input b = (if WSWriter b = None then None else Some input)"

datatype 'v debug_value = DStr string | DInt int | DWriter 'v

definition DebugInfo :: "'v \<Rightarrow> 'o base_conn \<Rightarrow> (string \<times> 'v debug_value) list" where
  "DebugInfo view b =
     [(''name'', DStr (WSNameStr b)), (''connId'', DStr (WSConnIdStr b)), (''pingId'', DInt (sint (PingId b)))] @
     (if WSWriter b = None then [] else [(''writer'', DWriter view)])"

text \<open>
  Reading: \<open>read\<close> is \<open>ReadMessage\<close> of the socket; a frame that arrives goes through the codec.
\<close>

definition WSReadMessage ::
  "('i, 'o) codec \<Rightarrow> 'i \<Rightarrow> ws_error + int \<times> bytes \<Rightarrow> 'i \<times> ws_error option" where
  "WSReadMessage codec zero read =
     (case read of
        Inl err \<Rightarrow> (zero, Some err)
      | Inr (msgType, data) \<Rightarrow>
          (case Decode codec data msgType of (v, e) \<Rightarrow> (v, map_option OtherError e)))"

definition BaseHandler_Validate :: "string \<Rightarrow> 'o base_conn option" where
  "BaseHandler_Validate name = Some (new_base_conn name [])"

section \<open>Rules\<close>

lemma ws_call_writer_frame [simp, go_state]:
  "WSNameStr (ws_call_writer k b) = WSNameStr b" "WSConnIdStr (ws_call_writer k b) = WSConnIdStr b"
  "PingId (ws_call_writer k b) = PingId b" "wsConn (ws_call_writer k b) = wsConn b"
  "WSWriter (ws_call_writer k b) = map_option (\<lambda>ks. ks @ [k]) (WSWriter b)"
  by (simp_all add: ws_call_writer_def split: option.split)

lemma snd_WSName_frame [simp, go_state]:
  "WSWriter (snd (WSName b)) = WSWriter b" "WSConnIdStr (snd (WSName b)) = WSConnIdStr b"
  "PingId (snd (WSName b)) = PingId b" "wsConn (snd (WSName b)) = wsConn b"
  by (simp_all add: WSName_def Let_def)

lemma snd_WSConnId_frame [simp, go_state]:
  "WSWriter (snd (WSConnId rnd b)) = WSWriter b" "WSNameStr (snd (WSConnId rnd b)) = WSNameStr b"
  "PingId (snd (WSConnId rnd b)) = PingId b" "wsConn (snd (WSConnId rnd b)) = wsConn b"
  by (simp_all add: WSConnId_def Let_def)

text \<open>The pings among the calls to a writer.\<close>

definition pings :: "'o outgoing_message writer_call list \<Rightarrow> 64 word list" where
  "pings ks = concat (map (\<lambda>k. case k of
      WSend m \<Rightarrow> (case og_Ping m of Some p \<Rightarrow> [pd_PingId p] | None \<Rightarrow> [])
    | WStop \<Rightarrow> []) ks)"

lemma pings_simps [simp]: "pings [] = []" "pings (xs @ ys) = pings xs @ pings ys"
  by (simp_all add: pings_def)

lemma pings_other [simp]:
  "pings [WStop] = []" "pings [WSend (no_message\<lparr>og_Data := d\<rparr>)] = []"
  "pings [WSend (no_message\<lparr>og_Error := e\<rparr>)] = []"
  by (simp_all add: pings_def no_message_def)

lemma SendPing_writer:
  assumes "WSWriter b = Some ks"
  shows "\<exists>p. WSWriter (snd (SendPing rnd b)) = Some (ks @ [WSend (no_message\<lparr>og_Ping := Some p\<rparr>)]) \<and>
    pd_PingId p = PingId b + 1"
  using assms
  by (auto simp: SendPing_def Let_def WSConnId_def WSName_def ws_call_writer_def)

lemma SendPing_frame [simp]: "PingId (snd (SendPing rnd b)) = PingId b + 1" "fst (SendPing rnd b) = None"
  by (simp_all add: SendPing_def Let_def WSConnId_def WSName_def)

lemma SendPing_pings:
  assumes "WSWriter b = Some ks"
  shows "\<exists>ks'. WSWriter (snd (SendPing rnd b)) = Some ks' \<and> pings ks' = pings ks @ [PingId b + 1]"
  using SendPing_writer [OF assms, of rnd] by (auto simp: pings_def no_message_def)

section \<open>Round trip\<close>

text \<open>
  When the peer's codec decodes what this codec encodes, a data message that the callback puts on
  the wire is read back by the peer as the same value.
\<close>

lemma ws_data_roundtrip:
  assumes "Encode out_codec m = Inr (d, t)" and "Decode in_codec d t = (m, None)"
    and "og_Ping msg = None" and "og_Error msg = None" and "og_Data msg = Some m"
  shows "ws_write (\<lambda>sent t d. (None, sent @ [(t, d)])) marshal close_text out_codec msg [] = (None, [(t, d)]) \<and>
    WSReadMessage in_codec zero (Inr (t, d)) = (m, None)"
  using assms by (simp add: ws_write_def writeMessage_def WSReadMessage_def)

text \<open>The end of the stream and the empty message send nothing.\<close>

lemma ws_write_silent:
  "og_Ping msg = None \<Longrightarrow> og_Error msg = Some WsEOF \<or> og_Error msg = None \<and> og_Data msg = None \<Longrightarrow>
   ws_write send marshal close_text codec msg conn = (None, conn)"
  by (auto simp: ws_write_def)

end
