(* ===== verification/WsServe.thy ===== *)
theory WsServe
  imports BaseConn
begin

text \<open>
  \<open>http/bidir.go\<close> and \<open>http/ws.go\<close>: the upgrade handler and \<open>WSHandleConn\<close>, the loop that owns a
  WebSocket connection. One goroutine runs all of it, and what it does depends only on the order
  in which the cases of its select fire, so a run is a function of the list of those events: ping
  ticks, pong checks at a time, and results of the reader. The result says whether the handler
  has returned or still waits, and lists the calls it made.
\<close>

section \<open>Configuration and interface\<close>

record ws_conn_config =
  PingPeriod :: int
  PongPeriod :: int

definition DefaultBiDirStreamConfig :: ws_conn_config where
  "DefaultBiDirStreamConfig = \<lparr>PingPeriod = 30 * 10 ^ 9, PongPeriod = 300 * 10 ^ 9\<rparr>"

definition DefaultWSConnConfig :: ws_conn_config where
  "DefaultWSConnConfig = DefaultBiDirStreamConfig"

text \<open>The interfaces \<open>BiDirStreamConn\<close> and \<open>WSConn\<close>, over the connection's own state.\<close>

record ('i, 'c) ws_ops =
  op_OnStart :: "'c \<Rightarrow> string option \<times> 'c"
  op_SendPing :: "'c \<Rightarrow> string option \<times> 'c"
  op_HandleMessage :: "'i \<Rightarrow> 'c \<Rightarrow> string option \<times> 'c"
  op_OnError :: "ws_error \<Rightarrow> 'c \<Rightarrow> ws_error option \<times> 'c"
  op_OnTimeout :: "'c \<Rightarrow> bool \<times> 'c"
  op_OnClose :: "'c \<Rightarrow> 'c"

section \<open>The loop\<close>

text \<open>
  The function given to the reader: \<open>unexpected\<close> is \<open>websocket.IsUnexpectedCloseError\<close> with its
  list of expected codes.
\<close>

definition read_result ::
  "(ws_error \<Rightarrow> int list \<Rightarrow> bool) \<Rightarrow> ws_error + 'i \<Rightarrow> ws_error + 'i" where
  "read_result unexpected res =
     (case res of
        Inl err \<Rightarrow> if unexpected err [1001, 1005, 1006] then Inl NetErrClosed else Inl err
      | Inr v \<Rightarrow> Inr v)"

datatype 'i ws_event = PingTick | PongTick int | Arrived int "ws_error + 'i"

datatype 'i ws_call =
    Started "string option"
  | Pinged
  | TimedOut bool
  | Deadline int
  | GoingAway
  | Errored ws_error bool
  | Handled 'i "string option"
  | ClosedCtx | StoppedPong | StoppedPing | StoppedReader

datatype ws_end = Waiting | Ended | Crashed string

text \<open>The deferred calls, last deferred first.\<close>

definition ws_finish :: "('i, 'c) ws_ops \<Rightarrow> 'c \<Rightarrow> ws_end \<times> 'i ws_call list \<times> 'c" where
  "ws_finish ops c = (Ended, [ClosedCtx, StoppedPong, StoppedPing, StoppedReader], op_OnClose ops c)"

definition also_calls :: "'i ws_call list \<Rightarrow> ws_end \<times> 'i ws_call list \<times> 'c \<Rightarrow> ws_end \<times> 'i ws_call list \<times> 'c" where
  "also_calls tr r = (case r of (e, tr', c) \<Rightarrow> (e, tr @ tr', c))"

fun ws_loop ::
  "('i, 'c) ws_ops \<Rightarrow> ws_conn_config \<Rightarrow> (ws_error \<Rightarrow> int list \<Rightarrow> bool) \<Rightarrow> int \<Rightarrow> 'i ws_event list \<Rightarrow> 'c \<Rightarrow>
   ws_end \<times> 'i ws_call list \<times> 'c"
where
  "ws_loop ops cfg unexpected lastReadAt [] c = (Waiting, [], c)"
| "ws_loop ops cfg unexpected lastReadAt (PingTick # es) c =
     (case op_SendPing ops c of (_, c) \<Rightarrow> also_calls [Pinged] (ws_loop ops cfg unexpected lastReadAt es c))"
| "ws_loop ops cfg unexpected lastReadAt (PongTick now # es) c =
     (if PongPeriod cfg < now - lastReadAt then
        (case op_OnTimeout ops c of
           (True, c) \<Rightarrow> also_calls [TimedOut True] (ws_finish ops c)
         | (False, c) \<Rightarrow> also_calls [TimedOut False] (ws_loop ops cfg unexpected lastReadAt es c))
      else ws_loop ops cfg unexpected lastReadAt es c)"
| "ws_loop ops cfg unexpected lastReadAt (Arrived now res # es) c =
     also_calls [Deadline (now + PongPeriod cfg)]
       (case read_result unexpected res of
          Inl err \<Rightarrow>
            if err = WsEOF then ws_loop ops cfg unexpected now es c
            else if err = CloseError 1001 then also_calls [GoingAway] (ws_finish ops c)
            else (case op_OnError ops err c of
                (Some _, c) \<Rightarrow> also_calls [Errored err True] (ws_finish ops c)
              | (None, c) \<Rightarrow> also_calls [Errored err False] (ws_loop ops cfg unexpected now es c))
        | Inr v \<Rightarrow>
            (case op_HandleMessage ops v c of
               (e, c) \<Rightarrow> also_calls [Handled v e] (ws_loop ops cfg unexpected now es c)))"

text \<open>\<open>time.NewTicker\<close> panics on a period that is not positive, before OnClose is deferred.\<close>

definition WSHandleConn ::
  "('i, 'c) ws_ops \<Rightarrow> ws_conn_config option \<Rightarrow> (ws_error \<Rightarrow> int list \<Rightarrow> bool) \<Rightarrow> int \<Rightarrow> 'i ws_event list \<Rightarrow> 'c \<Rightarrow>
   ws_end \<times> 'i ws_call list \<times> 'c"
where
  "WSHandleConn ops config unexpected now es c =
     (let cfg = (case config of None \<Rightarrow> DefaultWSConnConfig | Some cfg \<Rightarrow> cfg) in
      if PingPeriod cfg \<le> 0 \<or> PongPeriod cfg \<le> 0 then
        (Crashed ''non-positive interval for NewTicker'', [StoppedReader], c)
      else
        (case op_OnStart ops c of
           (Some e, c) \<Rightarrow> also_calls [Started (Some e)] (ws_finish ops c)
         | (None, c) \<Rightarrow> also_calls [Started None, Deadline (now + PongPeriod cfg)]
                          (ws_loop ops cfg unexpected now es c)))"

text \<open>
  The upgrade handler up to the loop: \<open>validate\<close> is the application's, \<open>upgrade\<close> the upgrader's
  decision with its own response when it fails.
\<close>

datatype 'c upgraded = NotValid | UpgradeFailed | Upgraded 'c

definition WSServe ::
  "(request \<Rightarrow> ('b, 'x) world \<Rightarrow> 'c option \<times> ('b, 'x) world) \<Rightarrow>
   (request \<Rightarrow> ('b, 'x) world \<Rightarrow> bool \<times> ('b, 'x) world) \<Rightarrow> request \<Rightarrow> ('b, 'x) world \<Rightarrow>
   'c upgraded \<times> ('b, 'x) world"
where
  "WSServe validate upgrade req w =
     (case validate req w of
        (None, w) \<Rightarrow> (NotValid, w)
      | (Some ctx, w) \<Rightarrow>
          (case upgrade req w of
             (False, w) \<Rightarrow> (UpgradeFailed, http_Error ''WS Upgrade failed'' 400 w)
           | (True, w) \<Rightarrow> (Upgraded ctx, w)))"

text \<open>The untyped JSON connection and its handler, which accepts every request.\<close>

definition NewJSONConn :: "(bytes \<Rightarrow> 'a \<times> string option) \<Rightarrow> ('a \<Rightarrow> string + bytes) \<Rightarrow> ('a, 'a) codec \<times> 'a base_conn" where
  "NewJSONConn unmarshal marshal = (JSONCodec unmarshal marshal, new_base_conn ''JSONConn'' [])"

definition JSONHandler_Validate ::
  "(bytes \<Rightarrow> 'a \<times> string option) \<Rightarrow> ('a \<Rightarrow> string + bytes) \<Rightarrow> request \<Rightarrow> ('b, 'x) world \<Rightarrow>
   (('a, 'a) codec \<times> 'a base_conn) option \<times> ('b, 'x) world"
where
  "JSONHandler_Validate unmarshal marshal r w = (Some (NewJSONConn unmarshal marshal), w)"

section \<open>Rules for the loop\<close>

lemma also_calls_simps [simp]:
  "also_calls tr (e, tr', c) = (e, tr @ tr', c)"
  "fst (also_calls tr r) = fst r" "fst (snd (also_calls tr r)) = tr @ fst (snd r)"
  "snd (snd (also_calls tr r)) = snd (snd r)"
  by (simp_all add: also_calls_def split: prod.split)

lemma ws_finish_simps [simp]:
  "fst (ws_finish ops c) = Ended"
  "fst (snd (ws_finish ops c)) = [ClosedCtx, StoppedPong, StoppedPing, StoppedReader]"
  "snd (snd (ws_finish ops c)) = op_OnClose ops c"
  by (simp_all add: ws_finish_def)

text \<open>
  One pass: a property that holds of stopping at once and is kept by each way of going on holds
  of the loop.
\<close>

lemma ws_loop_induct [case_names stop ping idle wait gone eof closing kept message]:
  assumes "\<And>seen c. P [] seen (Waiting, [], c)"
    and "\<And>es seen c r. P es seen r \<Longrightarrow> P (PingTick # es) seen (also_calls [Pinged] r)"
    and "\<And>es seen now c r. P es seen r \<Longrightarrow> P (PongTick now # es) seen r"
    and "\<And>es seen now c r. P es seen r \<Longrightarrow> P (PongTick now # es) seen (also_calls [TimedOut False] r)"
    and "\<And>es seen now c. P (PongTick now # es) seen (also_calls [TimedOut True] (ws_finish ops c))"
    and "\<And>es seen now res r d. P es now r \<Longrightarrow> read_result unexpected res = Inl WsEOF \<Longrightarrow>
      P (Arrived now res # es) seen (also_calls [Deadline d] r)"
    and "\<And>es seen now res c d err. read_result unexpected res = Inl err \<Longrightarrow>
      P (Arrived now res # es) seen (also_calls [Deadline d] (also_calls [if err = CloseError 1001 then GoingAway else Errored err True] (ws_finish ops c)))"
    and "\<And>es seen now res r d err. P es now r \<Longrightarrow> read_result unexpected res = Inl err \<Longrightarrow>
      P (Arrived now res # es) seen (also_calls [Deadline d] (also_calls [Errored err False] r))"
    and "\<And>es seen now res r d v e. P es now r \<Longrightarrow> read_result unexpected res = Inr v \<Longrightarrow>
      P (Arrived now res # es) seen (also_calls [Deadline d] (also_calls [Handled v e] r))"
  shows "P es seen (ws_loop ops cfg unexpected seen es c)"
proof (induction es arbitrary: seen c)
  case Nil
  show ?case using assms(1) by simp
next
  case (Cons ev es)
  show ?case
  proof (cases ev)
    case PingTick
    then show ?thesis using assms(2) Cons.IH by (simp split: prod.split)
  next
    case (PongTick now)
    then show ?thesis using assms(3,4,5) Cons.IH by (simp split: prod.split bool.split)
  next
    case (Arrived now res)
    show ?thesis
    proof (cases "read_result unexpected res")
      case (Inl err)
      consider "err = WsEOF" | "err = CloseError 1001" | "err \<noteq> WsEOF" "err \<noteq> CloseError 1001" by blast
      then show ?thesis
      proof cases
        case 1
        then show ?thesis using Arrived Inl assms(6) Cons.IH by simp
      next
        case 2
        then show ?thesis using Arrived Inl assms(7) [OF Inl] by simp
      next
        case 3
        obtain oe c' where oe: "op_OnError ops err c = (oe, c')" by (cases "op_OnError ops err c")
        then show ?thesis
          using Arrived Inl 3 assms(7) [OF Inl] assms(8) [OF Cons.IH Inl] by (cases oe) simp_all
      qed
    next
      case (Inr v)
      then show ?thesis using Arrived assms(9) [OF Cons.IH Inr] by (simp split: prod.split)
    qed
  qed
qed

section \<open>What a run did\<close>

definition successes :: "(ws_error \<Rightarrow> int list \<Rightarrow> bool) \<Rightarrow> 'i ws_event list \<Rightarrow> 'i list" where
  "successes unexpected es = concat (map (\<lambda>e. case e of
      Arrived now res \<Rightarrow> (case read_result unexpected res of Inr v \<Rightarrow> [v] | Inl _ \<Rightarrow> []) | _ \<Rightarrow> []) es)"

definition handled :: "'i ws_call list \<Rightarrow> 'i list" where
  "handled tr = concat (map (\<lambda>k. case k of Handled v e \<Rightarrow> [v] | _ \<Rightarrow> []) tr)"

lemma handled_simps [simp]: "handled [] = []" "handled (xs @ ys) = handled xs @ handled ys"
  "handled (k # tr) = (case k of Handled v e \<Rightarrow> [v] | _ \<Rightarrow> []) @ handled tr"
  by (simp_all add: handled_def)

lemma successes_simps [simp]:
  "successes u [] = []" "successes u (PingTick # es) = successes u es" "successes u (PongTick n # es) = successes u es"
  "read_result u res = Inr v \<Longrightarrow> successes u (Arrived n res # es) = v # successes u es"
  "read_result u res = Inl err \<Longrightarrow> successes u (Arrived n res # es) = successes u es"
  by (simp_all add: successes_def)

fun ending :: "'i ws_call \<Rightarrow> bool" where
  "ending (Started (Some e)) = True"
| "ending (TimedOut b) = b"
| "ending GoingAway = True"
| "ending (Errored e b) = b"
| "ending _ = False"

definition deferred :: "'i ws_call list" where
  "deferred = [ClosedCtx, StoppedPong, StoppedPing, StoppedReader]"

definition going :: "'i ws_call \<Rightarrow> bool" where
  "going k \<longleftrightarrow> \<not> ending k \<and> k \<notin> set deferred"

definition end_ok :: "ws_end \<Rightarrow> 'i ws_call list \<Rightarrow> bool" where
  "end_ok e tr \<longleftrightarrow> (case e of
      Waiting \<Rightarrow> list_all going tr
    | Ended \<Rightarrow> (\<exists>pre k. tr = pre @ k # deferred \<and> list_all going pre \<and> ending k)
    | Crashed m \<Rightarrow> False)"

definition handled_ok :: "(ws_error \<Rightarrow> int list \<Rightarrow> bool) \<Rightarrow> 'i ws_event list \<Rightarrow> ws_end \<Rightarrow> 'i ws_call list \<Rightarrow> bool" where
  "handled_ok u es e tr \<longleftrightarrow> (\<exists>rest. successes u es = handled tr @ rest \<and> (e = Waiting \<longrightarrow> rest = []))"

lemma end_ok_also: "end_ok e tr \<Longrightarrow> going k \<Longrightarrow> end_ok e (k # tr)"
  unfolding end_ok_def
  by (cases e) (auto intro: exI [of _ "k # pre" for pre])

lemma end_ok_finish: "ending k \<Longrightarrow> end_ok Ended (k # deferred)"
  unfolding end_ok_def by (auto intro: exI [of _ "[]"])

lemma going_simps [simp]:
  "going Pinged" "going (TimedOut False)" "going (Deadline d)" "going (Errored err False)" "going (Handled v e)"
  "going (Started None)"
  by (simp_all add: going_def deferred_def)

lemma ws_finish_deferred: "fst (snd (ws_finish ops c)) = deferred"
  by (simp add: deferred_def)

lemma ws_loop_end_ok:
  "end_ok (fst (ws_loop ops cfg u seen es c)) (fst (snd (ws_loop ops cfg u seen es c)))"
  by (rule ws_loop_induct [where P = "\<lambda>es seen r. end_ok (fst r) (fst (snd r))"])
     (simp_all add: end_ok_also end_ok_finish ws_finish_deferred del: ws_finish_simps(2),
      simp_all add: end_ok_def)

lemma handled_ok_also: "handled_ok u es e tr \<Longrightarrow> handled [k] = [] \<Longrightarrow> handled_ok u es e (k # tr)"
  by (auto simp: handled_ok_def)

lemma handled_deferred: "handled deferred = []"
  by (simp add: deferred_def)

lemma ws_loop_handled_ok:
  "handled_ok u es (fst (ws_loop ops cfg u seen es c)) (fst (snd (ws_loop ops cfg u seen es c)))"
  by (rule ws_loop_induct [where P = "\<lambda>es seen r. handled_ok u es (fst r) (fst (snd r))" and unexpected = u])
     (auto simp: handled_ok_def handled_deferred ws_finish_deferred simp del: ws_finish_simps(2))

definition periods_ok :: "ws_conn_config option \<Rightarrow> bool" where
  "periods_ok config = (case config of None \<Rightarrow> True | Some cfg \<Rightarrow> 0 < PingPeriod cfg \<and> 0 < PongPeriod cfg)"

definition effective :: "ws_conn_config option \<Rightarrow> ws_conn_config" where
  "effective config = (case config of None \<Rightarrow> DefaultWSConnConfig | Some cfg \<Rightarrow> cfg)"

lemma handler_started:
  assumes "periods_ok config" and "op_OnStart ops c = (None, c1)"
  shows "WSHandleConn ops config u now es c =
    also_calls [Started None, Deadline (now + PongPeriod (effective config))] (ws_loop ops (effective config) u now es c1)"
  using assms
  by (auto simp: WSHandleConn_def Let_def effective_def periods_ok_def DefaultWSConnConfig_def
      DefaultBiDirStreamConfig_def split: option.splits)

lemma handler_not_started:
  assumes "periods_ok config" and "op_OnStart ops c = (Some err, c1)"
  shows "WSHandleConn ops config u now es c = also_calls [Started (Some err)] (ws_finish ops c1)"
  using assms
  by (auto simp: WSHandleConn_def Let_def periods_ok_def DefaultWSConnConfig_def DefaultBiDirStreamConfig_def
      split: option.splits)

lemma handler_handled_ok:
  assumes "periods_ok config" and "fst (op_OnStart ops c) = None"
    and "WSHandleConn ops config u now es c = (e, tr, c')"
  shows "handled_ok u es e tr"
proof -
  obtain c1 where "op_OnStart ops c = (None, c1)" using assms(2) by (cases "op_OnStart ops c") simp
  from handler_started [OF assms(1) this, of u now es] show ?thesis
    using ws_loop_handled_ok [of u es ops "effective config" now c1] assms(3)
    by (cases "ws_loop ops (effective config) u now es c1") (simp add: handled_ok_def)
qed

text \<open>The time of the last read after some events, and how a run continues after them.\<close>

definition last_read :: "int \<Rightarrow> 'i ws_event list \<Rightarrow> int" where
  "last_read t es = fold (\<lambda>e t. case e of Arrived now res \<Rightarrow> now | _ \<Rightarrow> t) es t"

lemma also_calls_assoc: "also_calls xs (also_calls ys r) = also_calls (xs @ ys) r"
  by (cases r) simp

lemma fst_also_calls_eq: "also_calls xs r = (e, tr, c) \<longleftrightarrow> (\<exists>tr'. r = (e, tr', c) \<and> tr = xs @ tr')"
  by (cases r) auto

lemma ws_loop_append:
  "ws_loop ops cfg u t pre c = (Waiting, tr, c1) \<Longrightarrow>
   ws_loop ops cfg u t (pre @ es) c = also_calls tr (ws_loop ops cfg u (last_read t pre) es c1)"
proof (induction pre arbitrary: t c tr)
  case Nil
  then show ?case by (cases "ws_loop ops cfg u t es c") (simp add: last_read_def)
next
  case (Cons e pre)
  show ?case
  proof (cases e)
    case PingTick
    then show ?thesis using Cons
      by (auto simp: fst_also_calls_eq also_calls_assoc last_read_def split: prod.splits)
  next
    case (PongTick now)
    then show ?thesis using Cons
      by (auto simp: fst_also_calls_eq also_calls_assoc last_read_def ws_finish_def split: prod.splits bool.splits if_splits)
  next
    case (Arrived now res)
    show ?thesis
    proof (cases "read_result u res")
      case (Inl err)
      then show ?thesis using Cons Arrived
        by (auto simp: fst_also_calls_eq also_calls_assoc last_read_def ws_finish_def
            split: prod.splits option.splits if_splits)
    next
      case (Inr v)
      then show ?thesis using Cons Arrived
        by (auto simp: fst_also_calls_eq also_calls_assoc last_read_def split: prod.splits)
    qed
  qed
qed

section \<open>Pings of a connection\<close>

text \<open>
  The contract of a connection that numbers its pings: \<open>counter\<close> is its last number and
  \<open>ping_log\<close> what it has sent; only SendPing adds to them, the next number each time.
\<close>

locale pinging =
  fixes ops :: "('i, 'c) ws_ops" and counter :: "'c \<Rightarrow> 64 word" and ping_log :: "'c \<Rightarrow> 64 word list"
    and up :: "'c \<Rightarrow> bool"
  assumes ping: "up c \<Longrightarrow> op_SendPing ops c = (e, c') \<Longrightarrow>
      up c' \<and> counter c' = counter c + 1 \<and> ping_log c' = ping_log c @ [counter c + 1]"
    and message: "up c \<Longrightarrow> op_HandleMessage ops v c = (e, c') \<Longrightarrow>
      up c' \<and> counter c' = counter c \<and> ping_log c' = ping_log c"
    and failure: "up c \<Longrightarrow> op_OnError ops err c = (oe, c') \<Longrightarrow>
      up c' \<and> counter c' = counter c \<and> ping_log c' = ping_log c"
    and timeout: "up c \<Longrightarrow> op_OnTimeout ops c = (b, c') \<Longrightarrow>
      up c' \<and> counter c' = counter c \<and> ping_log c' = ping_log c"
    and closing: "up c \<Longrightarrow> ping_log (op_OnClose ops c) = ping_log c"
begin

definition numbers :: "64 word \<Rightarrow> 'i ws_call list \<Rightarrow> 64 word list" where
  "numbers n tr = map (\<lambda>i. n + of_nat i) [1..<Suc (count_list tr Pinged)]"

lemma numbers_simps [simp]:
  "numbers n [] = []" "k \<noteq> Pinged \<Longrightarrow> numbers n (k # tr) = numbers n tr"
  "numbers n (Pinged # tr) = (n + 1) # numbers (n + 1) tr"
proof -
  have "[1..<Suc (Suc m)] = 1 # map Suc [1..<Suc m]" for m
    by (metis One_nat_def Suc_le_mono le0 map_Suc_upt upt_conv_Cons zero_less_Suc less_Suc_eq_le)
  then show "numbers n (Pinged # tr) = (n + 1) # numbers (n + 1) tr"
    by (simp add: numbers_def comp_def algebra_simps del: upt_Suc)
qed (simp_all add: numbers_def)

lemma numbers_deferred [simp]: "numbers n [ClosedCtx, StoppedPong, StoppedPing, StoppedReader] = []"
  by simp

lemma loop_numbers:
  "up c \<Longrightarrow> ws_loop ops cfg u t es c = (e, tr, c') \<Longrightarrow> ping_log c' = ping_log c @ numbers (counter c) tr"
proof (induction es arbitrary: t c e tr c')
  case (Cons ev es)
  show ?case
  proof (cases ev)
    case PingTick
    obtain er c1 where p: "op_SendPing ops c = (er, c1)" by (cases "op_SendPing ops c")
    show ?thesis using Cons.prems Cons.IH [of c1] ping [OF Cons.prems(1) p] p PingTick
      by (auto simp: fst_also_calls_eq)
  next
    case (PongTick now)
    obtain b c1 where p: "op_OnTimeout ops c = (b, c1)" by (cases "op_OnTimeout ops c")
    show ?thesis using Cons.prems Cons.IH timeout [OF Cons.prems(1) p] closing [of c1] p PongTick
      by (auto simp: fst_also_calls_eq ws_finish_def split: if_splits bool.splits)
  next
    case (Arrived now res)
    show ?thesis
    proof (cases "read_result u res")
      case (Inl err)
      obtain oe c1 where p: "op_OnError ops err c = (oe, c1)" by (cases "op_OnError ops err c")
      show ?thesis using Cons.prems Cons.IH failure [OF Cons.prems(1) p] closing [of c1] closing [of c] p Arrived Inl
        by (auto simp: fst_also_calls_eq ws_finish_def split: if_splits option.splits)
    next
      case (Inr v)
      obtain er c1 where p: "op_HandleMessage ops v c = (er, c1)" by (cases "op_HandleMessage ops v c")
      show ?thesis using Cons.prems Cons.IH message [OF Cons.prems(1) p] p Arrived Inr
        by (auto simp: fst_also_calls_eq)
    qed
  qed
qed simp

text \<open>The same for the whole handler, once OnStart has succeeded.\<close>

lemma handler_numbers:
  assumes "periods_ok config" and "op_OnStart ops c = (None, c1)" and "up c1"
    and "WSHandleConn ops config u now es c = (e, tr, c')"
  shows "ping_log c' = ping_log c1 @ numbers (counter c1) tr"
proof -
  obtain e' tr' d where l: "ws_loop ops (effective config) u now es c1 = (e', tr', d)" by (rule prod_cases3)
  then have "tr = Started None # Deadline (now + PongPeriod (effective config)) # tr'" "d = c'"
    using assms(4) handler_started [OF assms(1,2), of u now es] by simp_all
  then show ?thesis using loop_numbers [OF assms(3) l] by simp
qed

end

definition base_conn_ops :: "string \<Rightarrow> ('i, 'o base_conn) ws_ops" where
  "base_conn_ops rnd = \<lparr>op_OnStart = WSOnStart rnd, op_SendPing = SendPing rnd, op_HandleMessage = HandleMessage,
     op_OnError = OnError, op_OnTimeout = OnTimeout, op_OnClose = WSOnClose rnd\<rparr>"

definition conn_pings :: "'o base_conn \<Rightarrow> 64 word list" where
  "conn_pings b = (case WSWriter b of Some ks \<Rightarrow> pings ks | None \<Rightarrow> [])"

interpretation base_conn: pinging "base_conn_ops rnd" PingId conn_pings "\<lambda>b. WSWriter b \<noteq> None"
proof unfold_locales
  fix c c' :: "'b base_conn" and e
  assume "WSWriter c \<noteq> None" and s: "op_SendPing (base_conn_ops rnd) c = (e, c')"
  then obtain ks where ks: "WSWriter c = Some ks" by auto
  have "c' = snd (SendPing rnd c)" using s by (simp add: base_conn_ops_def)
  then show "WSWriter c' \<noteq> None \<and> PingId c' = PingId c + 1 \<and> conn_pings c' = conn_pings c @ [PingId c + 1]"
    using SendPing_pings [OF ks, of rnd] ks by (auto simp: conn_pings_def)
qed (auto simp: base_conn_ops_def HandleMessage_def OnError_def OnTimeout_def WSOnClose_def conn_pings_def)

section \<open>Properties\<close>


text \<open>
  Every message is handled, once and in order. The messages given to HandleMessage are the
  values that the reader delivered, in the order of their arrival, up to the event at which the
  handler returned; while it has not returned none is missing.
\<close>

theorem ws_messages_in_order:
  assumes "WSHandleConn ops config u now es c = (e, tr, c')" and "fst (op_OnStart ops c) = None"
    and "periods_ok config"
  shows "\<exists>rest. successes u es = handled tr @ rest \<and> (e = Waiting \<longrightarrow> rest = [])"
  using handler_handled_ok [OF assms(3,2,1)] by (simp add: handled_ok_def)

text \<open>
  The heartbeat. A BaseConn under the handler sends one ping for each ping tick that it gets
  before it returns, numbered 1, 2, 3 and so on in 64-bit arithmetic, and none at any other time.
\<close>

theorem ws_heartbeat:
  assumes "periods_ok config"
    and "WSHandleConn (base_conn_ops rnd :: ('i, 'o base_conn) ws_ops) config u now es (new_base_conn n i) = (e, tr, c')"
  shows "conn_pings c' = map of_nat [1..<Suc (count_list tr Pinged)]"
proof -
  let ?c = "snd (WSOnStart rnd (new_base_conn n i)) :: 'o base_conn"
  have st: "WSWriter ?c = Some []" "PingId ?c = 0"
    "op_OnStart (base_conn_ops rnd :: ('i, 'o base_conn) ws_ops) (new_base_conn n i) = (None, ?c)"
    by (simp_all add: base_conn_ops_def WSOnStart_def Let_def new_base_conn_def WSConnId_def WSName_def)
  have "conn_pings c' = conn_pings ?c @ base_conn.numbers (PingId ?c) tr"
    using st(1) by (intro base_conn.handler_numbers [OF assms(1) st(3) _ assms(2)]) simp
  then show ?thesis
    using st by (simp add: conn_pings_def base_conn.numbers_def del: upt_Suc)
qed

text \<open>
  C37: Idle peers are found, and only idle ones. When the handler is still waiting after some events
  and the pong check fires, it asks OnTimeout exactly when more than the pong period has passed
  since the last arrival, or since the start when nothing arrived; a BaseConn then returns, and
  otherwise it goes on waiting unchanged.
\<close>

theorem ws_idle_detection:
  assumes "ws_loop (base_conn_ops rnd) cfg u t pre c = (Waiting, tr, c1)"
  shows "ws_loop (base_conn_ops rnd) cfg u t (pre @ [PongTick now]) c =
    (if PongPeriod cfg < now - last_read t pre
     then (Ended, tr @ TimedOut True # deferred, WSOnClose rnd c1)
     else (Waiting, tr, c1))"
  using ws_loop_append [OF assms, of "[PongTick now]"]
  by (simp add: base_conn_ops_def OnTimeout_def ws_finish_def deferred_def)

section \<open>Runs\<close>

definition sample_config :: ws_conn_config where
  "sample_config = \<lparr>PingPeriod = 1, PongPeriod = 10\<rparr>"

definition any_close :: "ws_error \<Rightarrow> int list \<Rightarrow> bool" where
  "any_close err codes = (case err of CloseError c \<Rightarrow> c \<notin> set codes | _ \<Rightarrow> False)"

definition sample_events :: "nat ws_event list" where
  "sample_events = [PingTick, Arrived 1 (Inr 7), PongTick 5, PingTick, Arrived 6 (Inr 8), PongTick 20, Arrived 21 (Inr 9)]"

definition sample_run :: "ws_end \<times> nat ws_call list \<times> int base_conn" where
  "sample_run = WSHandleConn (base_conn_ops ''r'') (Some sample_config) any_close 0 sample_events (new_base_conn ''n'' ''i'')"

lemma sample_run_trace:
  "fst sample_run = Ended"
  "fst (snd sample_run) = [Started None, Deadline 10, Pinged, Deadline 11, Handled 7 None, Pinged, Deadline 16,
     Handled 8 None, TimedOut True, ClosedCtx, StoppedPong, StoppedPing, StoppedReader]"
  by (simp_all add: sample_run_def WSHandleConn_def sample_config_def sample_events_def base_conn_ops_def
      WSOnStart_def Let_def read_result_def HandleMessage_def OnTimeout_def ws_finish_def split: prod.split)


theorem ws_messages_in_order_witness:
  "\<exists>rest. successes any_close sample_events = handled (fst (snd sample_run)) @ rest"
proof -
  obtain e tr c' where r: "sample_run = (e, tr, c')" by (rule prod_cases3)
  have per: "periods_ok (Some sample_config)" by (simp add: periods_ok_def sample_config_def)
  have "fst (op_OnStart (base_conn_ops ''r'' :: (nat, int base_conn) ws_ops) (new_base_conn ''n'' ''i'')) = None"
    by (simp add: base_conn_ops_def WSOnStart_def Let_def)
  from ws_messages_in_order [OF r [unfolded sample_run_def] this per] show ?thesis
    unfolding r by auto
qed

theorem ws_heartbeat_witness:
  "conn_pings (snd (snd sample_run)) = [1, 2]"
proof -
  obtain e tr c' where r: "sample_run = (e, tr, c')" by (rule prod_cases3)
  have "periods_ok (Some sample_config)" by (simp add: periods_ok_def sample_config_def)
  note pings = ws_heartbeat [OF this r [unfolded sample_run_def]]
  have "count_list tr Pinged = 2" using sample_run_trace(2) unfolding r by simp
  then show ?thesis using pings unfolding r by (simp add: upt_rec)
qed

theorem ws_idle_detection_witness:
  "ws_loop (base_conn_ops ''r'') sample_config any_close 0 ([Arrived 6 (Inr (8 :: nat))] @ [PongTick 20])
     (new_base_conn ''n'' ''i'' :: int base_conn) =
   (Ended, [Deadline 16, Handled 8 None] @ TimedOut True # deferred, WSOnClose ''r'' (new_base_conn ''n'' ''i''))"
proof -
  have "ws_loop (base_conn_ops ''r'') sample_config any_close 0 [Arrived 6 (Inr (8 :: nat))]
     (new_base_conn ''n'' ''i'' :: int base_conn) = (Waiting, [Deadline 16, Handled 8 None], new_base_conn ''n'' ''i'')"
    by (simp add: read_result_def base_conn_ops_def HandleMessage_def sample_config_def)
  from ws_idle_detection [OF this, of 20] show ?thesis by (simp add: last_read_def sample_config_def)
qed

section \<open>Where the comments promise something else\<close>

text \<open>
  The interface says that an error of HandleMessage closes the connection; the loop drops it: two
  connections that differ only in the errors of HandleMessage have the same run.
\<close>

lemma handler_error_ignored:
  "ws_loop ops cfg u t (Arrived now (Inr v) # es) c =
     also_calls [Deadline (now + PongPeriod cfg), Handled v (fst (op_HandleMessage ops v c))]
       (ws_loop ops cfg u now es (snd (op_HandleMessage ops v c)))"
  by (simp add: read_result_def also_calls_assoc split: prod.split)

text \<open>
  The cases for an abnormal and a normal closure are empty and do not fall through to the return
  of the last case: an abnormal closure is passed to OnError, which may keep the loop going.
\<close>

lemma abnormal_closure_not_final:
  assumes "\<not> u (CloseError 1006) [1001, 1005, 1006]" and "op_OnError ops (CloseError 1006) c = (None, c')"
  shows "ws_loop ops cfg u t (Arrived now (Inl (CloseError 1006)) # es) c =
    also_calls [Deadline (now + PongPeriod cfg), Errored (CloseError 1006) False] (ws_loop ops cfg u now es c')"
  using assms by (simp add: read_result_def also_calls_assoc)

end
