(* ===== verification/WsStream.thy ===== *)
theory WsStream
  imports WsServe
begin

text \<open>
  A WebSocket stream from end to end: the methods of the sending \<open>BaseConn\<close>, the callback of its
  Writer that turns messages into frames (\<open>http/baseconn.go\<close>), and the receiving connection, which
  reads frames through its codec and hands them to the loop of \<open>WSHandleConn\<close> (\<open>http/ws.go\<close>).
\<close>

section \<open>The sender\<close>

datatype 'o out_op = OutData 'o | OutError ws_error | OutPing string

fun out_step :: "'o out_op \<Rightarrow> 'o base_conn \<Rightarrow> 'o base_conn" where
  "out_step (OutData m) b = WSSendOutput m b"
| "out_step (OutError err) b = SendError err b"
| "out_step (OutPing rnd) b = snd (SendPing rnd b)"

text \<open>The messages of a sequence of calls; \<open>p\<close> is the ping counter before them.\<close>

fun out_msgs :: "string \<Rightarrow> string \<Rightarrow> 64 word \<Rightarrow> 'o out_op list \<Rightarrow> 'o outgoing_message list" where
  "out_msgs ident name p [] = []"
| "out_msgs ident name p (OutData m # xs) = no_message\<lparr>og_Data := Some m\<rparr> # out_msgs ident name p xs"
| "out_msgs ident name p (OutError err # xs) = no_message\<lparr>og_Error := Some err\<rparr> # out_msgs ident name p xs"
| "out_msgs ident name p (OutPing rnd # xs) =
     no_message\<lparr>og_Ping := Some \<lparr>pd_PingId = p + 1, pd_ConnId = ident, pd_Name = name\<rparr>\<rparr> #
     out_msgs ident name (p + 1) xs"

lemma out_step_writer:
  assumes "WSWriter b = Some ks" and "WSConnIdStr b \<noteq> []" and "WSNameStr b \<noteq> []"
  shows "WSWriter (fold out_step xs b) =
    Some (ks @ map WSend (out_msgs (WSConnIdStr b) (WSNameStr b) (PingId b) xs))"
  using assms
proof (induction xs arbitrary: b ks)
  case (Cons x xs)
  show ?case
  proof (cases x)
    case (OutPing rnd)
    have "SendPing rnd b = (None, ws_call_writer (WSend (no_message\<lparr>og_Ping :=
        Some \<lparr>pd_PingId = PingId b + 1, pd_ConnId = WSConnIdStr b, pd_Name = WSNameStr b\<rparr>\<rparr>)) (b\<lparr>PingId := PingId b + 1\<rparr>))"
      using Cons.prems by (simp add: SendPing_def Let_def WSConnId_def WSName_def)
    then show ?thesis using Cons.prems OutPing by (simp add: Cons.IH)
  qed (use Cons.prems in \<open>simp_all add: Cons.IH WSSendOutput_def SendError_def\<close>)
qed simp

text \<open>
  The frames that the callback of the Writer puts on a socket that takes every frame; the Writer
  calls it for one message after the other.
\<close>

definition recording :: "(int \<times> bytes) list ws_send" where
  "recording w t d = (None, w @ [(t, d)])"

definition ws_wire ::
  "((string \<times> json_value) list \<Rightarrow> string + bytes) \<Rightarrow> (int \<Rightarrow> string) \<Rightarrow> ('i, 'o) codec \<Rightarrow>
   'o outgoing_message list \<Rightarrow> (int \<times> bytes) list"
where
  "ws_wire marshal close_text codec ms =
     foldl (\<lambda>w m. snd (ws_write recording marshal close_text codec m w)) [] ms"

definition ws_frames ::
  "((string \<times> json_value) list \<Rightarrow> string + bytes) \<Rightarrow> (int \<Rightarrow> string) \<Rightarrow> ('i, 'o) codec \<Rightarrow>
   'o outgoing_message \<Rightarrow> (int \<times> bytes) list"
where
  "ws_frames marshal close_text codec m = snd (ws_write recording marshal close_text codec m [])"

definition appends :: "('w list \<Rightarrow> 'e \<times> 'w list) \<Rightarrow> bool" where
  "appends f \<longleftrightarrow> (\<forall>w. f w = (fst (f []), w @ snd (f [])))"

lemma appends_parts:
  "appends (\<lambda>w. (e, w))" "appends (write_json recording marshal obj)" "appends (writeMessage recording codec d)"
  by (auto simp: appends_def write_json_def writeMessage_def recording_def split: sum.split)

lemma appends_ws_write: "appends (ws_write recording marshal close_text codec m)"
proof -
  have "ws_write recording marshal close_text codec m = (case og_Ping m of
      Some p \<Rightarrow> writePing recording marshal p
    | None \<Rightarrow> (case og_Error m of
        Some err \<Rightarrow> if err = WsEOF then (\<lambda>w. (None, w)) else writeError recording marshal close_text err
      | None \<Rightarrow> (case og_Data m of Some d \<Rightarrow> writeMessage recording codec d | None \<Rightarrow> (\<lambda>w. (None, w)))))"
    by (rule ext) (simp add: ws_write_def split: option.split)
  then show ?thesis by (simp add: appends_parts writePing_def writeError_def split: option.split)
qed

lemma ws_write_frames:
  "snd (ws_write recording marshal close_text codec m w) = w @ ws_frames marshal close_text codec m"
  using appends_ws_write [of marshal close_text codec m] unfolding appends_def ws_frames_def
  by (metis snd_conv)

lemma ws_wire_frames: "ws_wire marshal close_text codec ms = concat (map (ws_frames marshal close_text codec) ms)"
proof -
  have "foldl (\<lambda>w m. snd (ws_write recording marshal close_text codec m w)) w ms =
      w @ concat (map (ws_frames marshal close_text codec) ms)" for w
    by (induction ms arbitrary: w) (simp_all add: ws_write_frames)
  then show ?thesis by (simp add: ws_wire_def)
qed

section \<open>The receiver\<close>

text \<open>What the reader of the receiving loop delivers for a frame, and the values among the results.\<close>

definition read_frame :: "('i, 'p) codec \<Rightarrow> 'i \<Rightarrow> int \<times> bytes \<Rightarrow> ws_error + 'i" where
  "read_frame codec zero f =
     (case WSReadMessage codec zero (Inr f) of (v, None) \<Rightarrow> Inr v | (_, Some e) \<Rightarrow> Inl e)"

fun arrivals :: "'i ws_event list \<Rightarrow> (ws_error + 'i) list" where
  "arrivals [] = []"
| "arrivals (Arrived now res # es) = res # arrivals es"
| "arrivals (PingTick # es) = arrivals es"
| "arrivals (PongTick now # es) = arrivals es"

definition received :: "(ws_error + 'i) list \<Rightarrow> 'i list" where
  "received rs = List.map_filter (\<lambda>r. case r of Inr v \<Rightarrow> Some v | Inl _ \<Rightarrow> None) rs"

lemma received_simps [simp]:
  "received [] = []" "received (Inr v # rs) = v # received rs" "received (Inl e # rs) = received rs"
  "received (rs @ rs') = received rs @ received rs'" "received (map Inl es) = []"
  by (simp_all add: received_def List.map_filter_def)

lemma successes_arrivals: "successes u es = received (arrivals es)"
proof (induction es rule: arrivals.induct)
  case (2 now res es)
  then show ?case
    by (cases res) (simp_all add: successes_def read_result_def split: if_split)
qed (simp_all add: successes_def)

text \<open>
  What the peer makes of a message: the value itself, if it is one; nothing, for the end of the
  stream; and for a ping or an error, which travel as JSON text, whatever its codec decodes from it.
\<close>

definition peer_values ::
  "((string \<times> json_value) list \<Rightarrow> string + bytes) \<Rightarrow> (int \<Rightarrow> string) \<Rightarrow> ('i, 'p) codec \<Rightarrow>
   'i outgoing_message \<Rightarrow> 'i list"
where
  "peer_values marshal close_text codec m =
     (let decoded = (\<lambda>obj. case marshal obj of
          Inl _ \<Rightarrow> []
        | Inr d \<Rightarrow> (case Decode codec d TextMessage of (v, None) \<Rightarrow> [v] | (_, Some _) \<Rightarrow> []))
      in case og_Ping m of
        Some p \<Rightarrow> decoded [(''type'', JStr ''ping''), (''pingId'', JInt (sint (pd_PingId p))),
                           (''connId'', JStr (pd_ConnId p)), (''name'', JStr (pd_Name p))]
      | None \<Rightarrow>
          (case og_Error m of
             Some WsEOF \<Rightarrow> []
           | Some err \<Rightarrow> decoded [(''type'', JStr ''error''), (''error'', JStr (ws_error_text close_text err))]
           | None \<Rightarrow> (case og_Data m of Some d \<Rightarrow> [d] | None \<Rightarrow> [])))"

definition codecs_agree :: "('j, 'o) codec \<Rightarrow> ('o, 'p) codec \<Rightarrow> 'o \<Rightarrow> bool" where
  "codecs_agree out_codec in_codec m \<longleftrightarrow>
     (case Encode out_codec m of Inl _ \<Rightarrow> False | Inr (d, t) \<Rightarrow> Decode in_codec d t = (m, None))"

lemma received_read_frame [simp]:
  "received [read_frame codec zero (t, d)] = (case Decode codec d t of (v, None) \<Rightarrow> [v] | (_, Some _) \<Rightarrow> [])"
  by (simp add: read_frame_def WSReadMessage_def split: prod.split option.split)

lemma frames_received:
  assumes "\<And>d. og_Data m = Some d \<Longrightarrow> codecs_agree out_codec in_codec d"
  shows "received (map (read_frame in_codec zero) (ws_frames marshal close_text out_codec m)) =
    peer_values marshal close_text in_codec m"
  using assms
  by (auto simp: peer_values_def Let_def codecs_agree_def ws_frames_def ws_write_def writePing_def writeError_def
      writeMessage_def write_json_def recording_def split: option.split sum.splits ws_error.split)

lemma wire_received:
  assumes "\<And>m d. m \<in> set ms \<Longrightarrow> og_Data m = Some d \<Longrightarrow> codecs_agree out_codec in_codec d"
  shows "received (map (read_frame in_codec zero) (ws_wire marshal close_text out_codec ms)) =
    concat (map (peer_values marshal close_text in_codec) ms)"
  using assms
proof (induction ms)
  case (Cons m ms)
  have "received (map (read_frame in_codec zero) (ws_frames marshal close_text out_codec m)) =
      peer_values marshal close_text in_codec m"
    using Cons.prems [OF list.set_intros(1)] by (rule frames_received)
  moreover have "received (map (read_frame in_codec zero) (ws_wire marshal close_text out_codec ms)) =
      concat (map (peer_values marshal close_text in_codec) ms)"
    using Cons.prems [OF list.set_intros(2)] by (rule Cons.IH)
  ultimately show ?case by (simp add: ws_wire_frames)
qed (simp add: ws_wire_def)

lemma out_msgs_data:
  "m \<in> set (out_msgs ident name p xs) \<Longrightarrow> og_Data m = Some d \<Longrightarrow> OutData d \<in> set xs"
  by (induction xs arbitrary: p rule: out_msgs.induct) (auto simp: no_message_def)

section \<open>End to end\<close>

lemma started_sender:
  assumes "rnd \<noteq> []"
  shows "WSWriter (fold out_step xs (snd (WSOnStart rnd b))) =
    Some (map WSend (out_msgs (fst (WSConnId rnd b)) (fst (WSName b)) (PingId b) xs))"
proof -
  have "WSWriter (snd (WSOnStart rnd b)) = Some []" "WSConnIdStr (snd (WSOnStart rnd b)) = fst (WSConnId rnd b)"
    "WSNameStr (snd (WSOnStart rnd b)) = fst (WSName b)" "PingId (snd (WSOnStart rnd b)) = PingId b"
    "fst (WSConnId rnd b) \<noteq> []" "fst (WSName b) \<noteq> []"
    using assms by (simp_all add: WSOnStart_def Let_def WSConnId_def WSName_def)
  then show ?thesis using out_step_writer [of "snd (WSOnStart rnd b)" "[]" xs] by simp
qed

lemma sends_WSend [simp]: "sends (map WSend ms) = ms"
  by (induction ms) simp_all

text \<open>
  C5: What one side of a WebSocket sends is what the other side handles. Take any connection after
  its OnStart, any sequence of data, errors and pings sent on it, and a peer whose codec decodes what
  this side's codec encodes. If the peer's loop gets the frames that the Writer puts on the wire, in
  order, at any times, between ping ticks and pong checks, and then possibly read errors, it hands
  to HandleMessage exactly the values sent, in order and once each, up to the event at which it
  returned; while it has not returned none is missing. The end of the stream sends nothing; errors
  and pings, numbered on from the connection's counter, go to the peer's codec like any other frame.
\<close>

theorem ws_end_to_end:
  assumes "rnd \<noteq> []" and "WSWriter (fold out_step xs (snd (WSOnStart rnd b))) = Some ks"
    and "\<forall>m. OutData m \<in> set xs \<longrightarrow> codecs_agree out_codec in_codec m"
    and "arrivals es = map (read_frame in_codec zero) (ws_wire marshal close_text out_codec (sends ks)) @ map Inl errs"
    and "periods_ok config" and "fst (op_OnStart ops c) = None"
    and "WSHandleConn ops config u now es c = (e, tr, c')"
  shows "\<exists>rest. concat (map (peer_values marshal close_text in_codec)
      (out_msgs (fst (WSConnId rnd b)) (fst (WSName b)) (PingId b) xs)) = handled tr @ rest \<and>
    (e = Waiting \<longrightarrow> rest = [])"
proof -
  let ?ms = "out_msgs (fst (WSConnId rnd b)) (fst (WSName b)) (PingId b) xs"
  have "sends ks = ?ms" using assms(2) started_sender [OF assms(1), of xs b] by auto
  moreover have "codecs_agree out_codec in_codec d" if "m \<in> set ?ms" and "og_Data m = Some d" for m d
    using out_msgs_data [OF that] assms(3) by simp
  ultimately have "successes u es = concat (map (peer_values marshal close_text in_codec) ?ms)"
    by (simp add: successes_arrivals assms(4) wire_received)
  then show ?thesis
    using handler_handled_ok [OF assms(5,6,7)] by (simp add: handled_ok_def)
qed

text \<open>
  A comment of the codec interface says that pings are handled by the connection and not by codecs.
  On the receiving side they are not: a peer whose codec decodes the ping's JSON is given it as a
  message.
\<close>

lemma ping_reaches_handler:
  assumes "marshal [(''type'', JStr ''ping''), (''pingId'', JInt (sint (pd_PingId p))),
      (''connId'', JStr (pd_ConnId p)), (''name'', JStr (pd_Name p))] = Inr d"
    and "Decode in_codec d TextMessage = (v, None)"
  shows "peer_values marshal close_text in_codec (no_message\<lparr>og_Ping := Some p\<rparr>) = [v]"
  using assms by (simp add: peer_values_def Let_def)

text \<open>Two texts with a ping between them, to a peer that takes every frame as text.\<close>

definition text_codec :: "(string, string) codec" where
  "text_codec = TypedJSONCodec (\<lambda>d. (d, None)) Inr"

definition demo_sends :: "string out_op list" where
  "demo_sends = [OutData ''hi'', OutPing ''r'', OutData ''you'', OutError WsEOF]"

definition demo_arrivals :: "string ws_event list" where
  "demo_arrivals = [PingTick, Arrived 1 (Inr ''hi''), PongTick 2, Arrived 3 (Inr ''ping''), Arrived 4 (Inr ''you'')]"

lemma demo_wire:
  "map (read_frame text_codec []) (ws_wire (\<lambda>_. Inr ''ping'') (\<lambda>_. []) text_codec
     (out_msgs ''c1'' ''n'' 0 demo_sends)) = [Inr ''hi'', Inr ''ping'', Inr ''you'']"
  by (simp add: ws_wire_def demo_sends_def text_codec_def TypedJSONCodec_def tagged_def ws_write_def writePing_def
      writeMessage_def write_json_def recording_def no_message_def read_frame_def WSReadMessage_def)

theorem ws_end_to_end_witness:
  "\<exists>e tr c' rest. WSHandleConn (base_conn_ops ''p'') (Some sample_config) any_close 0 demo_arrivals
      (new_base_conn [] [] :: int base_conn) = (e, tr, c') \<and> [''hi'', ''ping'', ''you''] = handled tr @ rest"
proof -
  let ?b = "new_base_conn ''n'' ''c1'' :: string base_conn"
  have per: "periods_ok (Some sample_config)" by (simp add: periods_ok_def sample_config_def)
  have agree: "\<forall>m. OutData m \<in> set demo_sends \<longrightarrow> codecs_agree text_codec text_codec m"
    by (simp add: codecs_agree_def text_codec_def TypedJSONCodec_def tagged_def)
  have st: "fst (WSConnId ''r'' ?b) = ''c1''" "fst (WSName ?b) = ''n''" "PingId ?b = 0"
    by (simp_all add: WSConnId_def WSName_def new_base_conn_def)
  have ks: "WSWriter (fold out_step demo_sends (snd (WSOnStart ''r'' ?b))) =
      Some (map WSend (out_msgs ''c1'' ''n'' 0 demo_sends))"
    using started_sender [of "''r''" demo_sends ?b] st by simp
  have arr: "arrivals demo_arrivals = map (read_frame text_codec []) (ws_wire (\<lambda>_. Inr ''ping'') (\<lambda>_. []) text_codec
      (sends (map WSend (out_msgs ''c1'' ''n'' 0 demo_sends)))) @ map Inl []"
    by (simp add: demo_wire demo_arrivals_def)
  have start: "fst (op_OnStart (base_conn_ops ''p'' :: (string, int base_conn) ws_ops) (new_base_conn [] [])) = None"
    by (simp add: base_conn_ops_def WSOnStart_def Let_def)
  obtain e tr c' where run: "WSHandleConn (base_conn_ops ''p'') (Some sample_config) any_close 0 demo_arrivals
      (new_base_conn [] [] :: int base_conn) = (e, tr, c')" by (rule prod_cases3)
  have view: "concat (map (peer_values (\<lambda>_. Inr ''ping'') (\<lambda>_. []) text_codec) (out_msgs ''c1'' ''n'' 0 demo_sends)) =
      [''hi'', ''ping'', ''you'']"
    by (simp add: demo_sends_def peer_values_def Let_def text_codec_def TypedJSONCodec_def no_message_def)
  from ws_end_to_end [OF _ ks agree arr per start run] show ?thesis
    unfolding st view run by auto
qed

end
