(* ===== verification/Streamable.thy ===== *)
theory Streamable
  imports SseServe BaseConn
begin

text \<open>
  \<open>http/streamable.go\<close>: a handler that answers one request with either a single JSON response or a
  stream of events. What the loop of a stream does depends on which case of its select fires, so
  a run takes the list of these: an event received, the channel closed, the client gone.
\<close>

section \<open>Responses\<close>

datatype 'd stream_item = NextEvent "'d sse_event" | ChannelClosed | ClientGone

datatype ('j, 'd) streamable_response =
    SingleResponse int "'j option"
  | StreamResponse "'d stream_item list"
  | UnknownResponse

text \<open>
  \<open>encode_json\<close> is \<open>json.NewEncoder(w).Encode\<close>: the value and a line feed in one write, or
  nothing when the value cannot be marshalled.
\<close>

definition writeSingleResponse ::
  "('j \<Rightarrow> string + bytes) \<Rightarrow> int \<Rightarrow> 'j option \<Rightarrow> ('b, 'x) world \<Rightarrow> ('b, 'x) world" where
  "writeSingleResponse encode_json statusCode body w =
     (let w = SetHeader ''Content-Type'' ''application/json'' w;
          status = (if statusCode = 0 then 200 else statusCode);
          w = WriteHeader status w
      in (case body of
            None \<Rightarrow> w
          | Some v \<Rightarrow> (case encode_json v of Inl e \<Rightarrow> w | Inr data \<Rightarrow> Write_resp (data @ [LF]) w)))"

text \<open>The loop; the flag says whether the handler has returned.\<close>

fun stream_loop ::
  "('d \<Rightarrow> string + bytes \<times> int) \<Rightarrow> ('d \<Rightarrow> string + bytes) \<Rightarrow> 'd stream_item list \<Rightarrow> ('b, 'x) world \<Rightarrow>
   bool \<times> ('b, 'x) world"
where
  "stream_loop encode marshal [] w = (False, w)"
| "stream_loop encode marshal (ClientGone # items) w = (True, w)"
| "stream_loop encode marshal (ChannelClosed # items) w = (True, w)"
| "stream_loop encode marshal (NextEvent e # items) w =
     stream_loop encode marshal items (fold rw_apply (writeSSEEvent encode marshal e) w)"

definition writeStreamResponse ::
  "('d \<Rightarrow> string + bytes \<times> int) \<Rightarrow> ('d \<Rightarrow> string + bytes) \<Rightarrow> 'd stream_item list \<Rightarrow> ('b, 'x) world \<Rightarrow>
   bool \<times> ('b, 'x) world"
where
  "writeStreamResponse encode marshal items w =
     (if \<not> can_flush w then (True, http_Error ''streaming not supported'' 500 w)
      else stream_loop encode marshal items (rw_apply Flush (sse_headers w)))"

definition StreamableServe ::
  "('d \<Rightarrow> string + bytes \<times> int) \<Rightarrow> ('d \<Rightarrow> string + bytes) \<Rightarrow> ('j \<Rightarrow> string + bytes) \<Rightarrow>
   (request \<Rightarrow> ('b, 'x) world \<Rightarrow> ('j, 'd) streamable_response \<times> ('b, 'x) world) \<Rightarrow>
   request \<Rightarrow> ('b, 'x) world \<Rightarrow> bool \<times> ('b, 'x) world"
where
  "StreamableServe encode marshal encode_json handler r w =
     (case handler r w of
        (SingleResponse statusCode body, w) \<Rightarrow> (True, writeSingleResponse encode_json statusCode body w)
      | (StreamResponse items, w) \<Rightarrow> writeStreamResponse encode marshal items w
      | (UnknownResponse, w) \<Rightarrow> (True, http_Error ''internal error: unknown response type'' 500 w))"

text \<open>
  The default configuration is the untyped JSON codec, as are the connections of \<open>JSONSSEHandler\<close>,
  which accepts every request; \<open>unmarshal\<close> and \<open>marshal\<close> are \<open>encoding/json\<close>.
\<close>

record 'a streamable_config =
  sc_Codec :: "('a, 'a) codec"

definition DefaultStreamableConfig ::
  "(bytes \<Rightarrow> 'a \<times> string option) \<Rightarrow> ('a \<Rightarrow> string + bytes) \<Rightarrow> 'a streamable_config" where
  "DefaultStreamableConfig unmarshal marshal = \<lparr>sc_Codec = JSONCodec unmarshal marshal\<rparr>"

definition JSONSSEHandler_Validate ::
  "(bytes \<Rightarrow> 'a \<times> string option) \<Rightarrow> ('a \<Rightarrow> string + bytes) \<Rightarrow> request \<Rightarrow> ('b, 'x) world \<Rightarrow>
   (('a, 'a) codec \<times> 'a base_sse_conn) option \<times> ('b, 'x) world"
where
  "JSONSSEHandler_Validate unmarshal marshal r w = (Some (JSONCodec unmarshal marshal, new_conn ''JSONSSEConn'' []), w)"

section \<open>The body of a stream\<close>

lemma rw_apply_sent:
  "sent w = Some (200, h) \<Longrightarrow> fold rw_apply ops w = w\<lparr>resp_body := resp_body w @ wire ops\<rparr>"
proof (induction ops arbitrary: w)
  case (Cons x ops)
  then have "rw_apply x w = w\<lparr>resp_body := resp_body w @ wire [x]\<rparr>"
    by (cases x) (simp_all add: Write_resp_def send_header_sent Let_def body_allowed_def)
  then show ?case using Cons.IH [of "w\<lparr>resp_body := resp_body w @ wire [x]\<rparr>"] Cons.prems
    by (simp add: wire_def)
qed simp

lemma stream_loop_body:
  assumes "sent w = Some (200, h)" and "stop \<in> {ChannelClosed, ClientGone}"
  shows "stream_loop encode marshal (map NextEvent es @ stop # items) w =
    (True, w\<lparr>resp_body := resp_body w @ concat (map (\<lambda>e. wire (writeSSEEvent encode marshal e)) es)\<rparr>)"
  using assms
proof (induction es arbitrary: w)
  case Nil
  then show ?case by auto
next
  case (Cons e es)
  then show ?case by (simp add: rw_apply_sent)
qed

lemma stream_wire:
  assumes "\<forall>e \<in> set es. \<exists>d r. se_Data e = Some d \<and> encode d = Inr r"
  shows "concat (map (\<lambda>e. wire (writeSSEEvent encode marshal e)) es) = sse_wire encode (map event_msg es)"
  using assms by (induction es) (auto simp: sse_wire_def writeSSEEvent_eq_sse_write)

definition stream_event :: "('d \<Rightarrow> string + bytes \<times> int) \<Rightarrow> 'd sse_event \<Rightarrow> sse_read_event" where
  "stream_event encode e =
     \<lparr>rd_Event = se_Event e, rd_Data = fst (projr (encode (the (se_Data e)))), rd_ID = se_ID e,
      rd_Retry = 0, rd_Comment = []\<rparr>"

lemma msg_event_stream:
  "se_Data e = Some d \<Longrightarrow> encode d = Inr r \<Longrightarrow> msg_event encode (event_msg e) = Some (stream_event encode e)"
  by (cases r) (simp add: msg_event_def event_msg_def stream_event_def)

section \<open>Properties\<close>

text \<open>
  C24: A streamed response arrives as it was produced. When the handler answers with a stream and
  the channel yields some events, each with a payload that the codec encodes and texts that fit
  the line format, and is then closed or the client goes away, the handler returns, the status is
  200 with the event-stream type, and reading the bytes of the body gives exactly those events in
  order and then the end of file.
\<close>

theorem streamable_end_to_end:
  assumes "handler r w0 = (StreamResponse (map NextEvent es @ stop # items), w)"
    and "stop \<in> {ChannelClosed, ClientGone}"
    and "can_flush w" and "sent w = None" and "resp_body w = []"
    and "\<forall>e \<in> set es. (\<exists>d p. se_Data e = Some d \<and> encode d = Inr p) \<and> safe_msg encode (event_msg e)"
  shows "case StreamableServe encode marshal encode_json handler r w0 of (returned, w') \<Rightarrow>
    returned \<and> final_status w' = 200 \<and>
    ReadEvents (NewSSEEventReader (source_of (resp_body w'))) = (map (stream_event encode) es, zero_event, EOF)"
proof -
  let ?w = "rw_apply Flush (sse_headers w)"
  have st: "sent ?w = Some (200, resp_header (sse_headers w))" "resp_body ?w = []"
    using assms(4,5) by (simp_all add: send_header_fresh sse_headers_def)
  have run: "StreamableServe encode marshal encode_json handler r w0 =
      (True, ?w\<lparr>resp_body := sse_wire encode (map event_msg es)\<rparr>)"
    using assms(1,3) stream_loop_body [OF st(1) assms(2), of encode marshal es items] st(2)
      stream_wire [of es encode marshal] assms(6)
    by (simp add: StreamableServe_def writeStreamResponse_def)
  have "\<forall>m \<in> set (map event_msg es). safe_msg encode m" using assms(6) by simp
  then have "ReadEvents (NewSSEEventReader (source_of (sse_wire encode (map event_msg es)))) =
      (List.map_filter (msg_event encode) (map event_msg es), zero_event, EOF)"
    by (rule sse_wire_read_back)
  moreover have "List.map_filter (msg_event encode) (map event_msg es) = map (stream_event encode) es"
    using assms(6) msg_event_stream
    by (induction es) (fastforce simp: List.map_filter_simps)+
  ultimately show ?thesis
    using st by (simp add: run final_status_def)
qed

definition sample_stream :: "string sse_event list" where
  "sample_stream = [\<lparr>se_Event = ''progress'', se_Data = Some ''1'', se_ID = ''a''\<rparr>,
     \<lparr>se_Event = [], se_Data = Some ''done'', se_ID = []\<rparr>]"

theorem streamable_end_to_end_witness:
  "case StreamableServe (\<lambda>d. Inr (d, 1)) (\<lambda>d. Inl []) (\<lambda>j. Inr [])
      (\<lambda>r w. (StreamResponse (map NextEvent sample_stream @ [ClientGone]) :: (unit, string) streamable_response, w))
      undefined (fresh_world () :: (unit, unit) world) of (returned, w') \<Rightarrow>
    returned \<and> final_status w' = 200 \<and>
    ReadEvents (NewSSEEventReader (source_of (resp_body w'))) =
      (map (stream_event (\<lambda>d. Inr (d, 1))) sample_stream, zero_event, EOF)"
  by (rule streamable_end_to_end [where stop = ClientGone and items = "[]" and w = "fresh_world ()"])
    (simp_all add: sample_stream_def safe_msg_def event_msg_def clean_text_def)

text \<open>
  A single response has the status the handler chose, 200 when it chose none, and its body is
  the marshalled value with a line feed when the status allows a body and there is a value that
  can be marshalled, and empty otherwise; an unknown response is a 500.
\<close>

theorem streamable_single:
  assumes "handler r w0 = (SingleResponse code body, w)" and "code = 0 \<or> 200 \<le> code" and "sent w = None" and "resp_body w = []"
  shows "case StreamableServe encode marshal encode_json handler r w0 of (returned, w') \<Rightarrow>
    returned \<and> final_status w' = (if code = 0 then 200 else code) \<and>
    header_get (resp_header w') ''Content-Type'' = ''application/json'' \<and>
    resp_body w' =
      (case body of
         None \<Rightarrow> []
       | Some v \<Rightarrow> if body_allowed (if code = 0 then 200 else code)
           then (case encode_json v of Inl e \<Rightarrow> [] | Inr data \<Rightarrow> data @ [LF]) else [])"
proof -
  let ?status = "if code = 0 then 200 else code"
  let ?w = "WriteHeader ?status (SetHeader ''Content-Type'' ''application/json'' w)"
  have ge: "200 \<le> ?status" using assms(2) by auto
  have st: "sent ?w = Some (?status, resp_header (SetHeader ''Content-Type'' ''application/json'' w))"
    using WriteHeader_fresh [OF _ ge, of "SetHeader ''Content-Type'' ''application/json'' w"] assms(3) by simp
  have body: "resp_body (Write_resp b ?w) = (if body_allowed ?status then b else [])" for b
    unfolding Write_resp_def Let_def using st assms(4) by (simp add: send_header_sent)
  have hdr: "header_get (resp_header ?w) ''Content-Type'' = ''application/json''" by simp
  have status: "final_status ?w = ?status" using st by (simp add: final_status_def)
  have run: "StreamableServe encode marshal encode_json handler r w0 =
      (True, case body of None \<Rightarrow> ?w | Some v \<Rightarrow> (case encode_json v of Inl e \<Rightarrow> ?w | Inr d \<Rightarrow> Write_resp (d @ [LF]) ?w))"
    using assms(1) by (simp add: StreamableServe_def writeSingleResponse_def Let_def)
  show ?thesis
  proof (cases body)
    case None
    then show ?thesis using status hdr assms(4) unfolding run by simp
  next
    case (Some v)
    then show ?thesis using status hdr body assms(4) unfolding run by (cases "encode_json v") simp_all
  qed
qed

theorem streamable_single_witness:
  "case StreamableServe (\<lambda>d. Inr (d, 1)) (\<lambda>d. Inl []) Inr
      (\<lambda>r w. (SingleResponse 201 (Some ''{}'') :: (string, string) streamable_response, w))
      undefined (fresh_world () :: (unit, unit) world) of (returned, w') \<Rightarrow>
    returned \<and> final_status w' = 201 \<and>
    header_get (resp_header w') ''Content-Type'' = ''application/json'' \<and> resp_body w' = ''{}'' @ [LF]"
proof -
  let ?handler = "\<lambda>r w. (SingleResponse 201 (Some ''{}'') :: (string, string) streamable_response, w)"
  have "?handler undefined (fresh_world () :: (unit, unit) world) = (SingleResponse 201 (Some ''{}''), fresh_world ())"
    by simp
  from streamable_single [where handler = ?handler and encode = "\<lambda>d. Inr (d, 1)" and marshal = "\<lambda>d. Inl []"
      and encode_json = Inr, OF this]
  show ?thesis by (simp add: body_allowed_def)
qed

end
