(* ===== verification/Graceful.thy ===== *)
theory Graceful
  imports Prelude
begin

text \<open>
  \<open>http/graceful.go\<close>: the options of a graceful server and \<open>ListenAndServeGraceful\<close>. The call
  blocks in one select, so what it does depends on the events around it in their order: the
  listener returns, a signal arrives, a context is cancelled. \<open>'s\<close> is the state that the
  callbacks and \<open>Shutdown\<close> of the server change; the latter is a parameter.
\<close>

section \<open>Options\<close>

text \<open>A context is known by a number here; only whether it is cancelled matters.\<close>

record 's graceful_config =
  drainTimeout :: int
  signals :: "string list"
  onShutdown :: "('s \<Rightarrow> outcome \<times> 's) list"
  gctx :: "nat option"

type_synonym 's graceful_option = "'s graceful_config \<Rightarrow> 's graceful_config"

definition defaultGracefulConfig :: "'s graceful_config" where
  "defaultGracefulConfig =
     \<lparr>drainTimeout = 30 * 10 ^ 9, signals = [''SIGTERM'', ''SIGINT''], onShutdown = [], gctx = None\<rparr>"

definition WithDrainTimeout :: "int \<Rightarrow> 's graceful_option" where
  "WithDrainTimeout d = (\<lambda>c. c\<lparr>drainTimeout := d\<rparr>)"

definition WithSignals :: "string list \<Rightarrow> 's graceful_option" where
  "WithSignals sigs = (\<lambda>c. c\<lparr>signals := sigs\<rparr>)"

definition WithOnShutdown :: "('s \<Rightarrow> outcome \<times> 's) \<Rightarrow> 's graceful_option" where
  "WithOnShutdown fn = (\<lambda>c. c\<lparr>onShutdown := onShutdown c @ [fn]\<rparr>)"

definition WithContext :: "nat option \<Rightarrow> 's graceful_option" where
  "WithContext ctx = (\<lambda>c. c\<lparr>gctx := ctx\<rparr>)"

definition apply_options :: "'s graceful_option list \<Rightarrow> 's graceful_config" where
  "apply_options opts = fold (\<lambda>o'. o') opts defaultGracefulConfig"

section \<open>The call\<close>

datatype listen_error = ErrServerClosed | ListenError string

datatype graceful_event =
    ListenReturned "listen_error option"
  | SignalArrives string
  | ContextCancelled nat

datatype wake = ServerErr string | Signalled string | CtxDone

text \<open>\<open>signal.Notify\<close> relays every signal when it is given no list.\<close>

definition relayed :: "string list \<Rightarrow> string \<Rightarrow> bool" where
  "relayed sigs s \<longleftrightarrow> sigs = [] \<or> s \<in> set sigs"

text \<open>The select: the goroutine of the listener passes on only an error other than ErrServerClosed.\<close>

fun await_shutdown :: "'s graceful_config \<Rightarrow> graceful_event list \<Rightarrow> wake option" where
  "await_shutdown cfg [] = None"
| "await_shutdown cfg (ListenReturned r # es) =
     (case r of
        Some (ListenError e) \<Rightarrow> Some (ServerErr e)
      | _ \<Rightarrow> await_shutdown cfg es)"
| "await_shutdown cfg (SignalArrives s # es) =
     (if relayed (signals cfg) s then Some (Signalled s) else await_shutdown cfg es)"
| "await_shutdown cfg (ContextCancelled n # es) =
     (if gctx cfg = Some n then Some CtxDone else await_shutdown cfg es)"

fun run_callbacks :: "('s \<Rightarrow> outcome \<times> 's) list \<Rightarrow> 's \<Rightarrow> outcome \<times> 's" where
  "run_callbacks [] s = (Returned, s)"
| "run_callbacks (fn # fns) s =
     (case fn s of
        (Returned, s) \<Rightarrow> run_callbacks fns s
      | (Panicked m, s) \<Rightarrow> (Panicked m, s))"

datatype graceful_result = StillServing | ReturnedErr "string option" | CallbackPanicked string

definition ListenAndServeGraceful ::
  "(int \<Rightarrow> 's \<Rightarrow> string option \<times> 's) \<Rightarrow> 's graceful_option list \<Rightarrow> graceful_event list \<Rightarrow> 's \<Rightarrow>
   graceful_result \<times> 's"
where
  "ListenAndServeGraceful shutdown opts es s =
     (let cfg = apply_options opts in
      case await_shutdown cfg es of
        None \<Rightarrow> (StillServing, s)
      | Some (ServerErr e) \<Rightarrow> (ReturnedErr (Some e), s)
      | Some _ \<Rightarrow>
          (case run_callbacks (onShutdown cfg) s of
             (Panicked m, s) \<Rightarrow> (CallbackPanicked m, s)
           | (Returned, s) \<Rightarrow> (case shutdown (drainTimeout cfg) s of (err, s) \<Rightarrow> (ReturnedErr err, s))))"

section \<open>Options compose\<close>

text \<open>The options as data, to say what a list of them means.\<close>

datatype 's setting =
    SetDrain int
  | SetSignals "string list"
  | AddCallback "'s \<Rightarrow> outcome \<times> 's"
  | SetContext "nat option"

fun option_of :: "'s setting \<Rightarrow> 's graceful_option" where
  "option_of (SetDrain d) = WithDrainTimeout d"
| "option_of (SetSignals ss) = WithSignals ss"
| "option_of (AddCallback fn) = WithOnShutdown fn"
| "option_of (SetContext c) = WithContext c"

text \<open>The last value chosen by a list, and what it adds.\<close>

definition last_of :: "('a \<Rightarrow> 'b option) \<Rightarrow> 'b \<Rightarrow> 'a list \<Rightarrow> 'b" where
  "last_of f d xs = fold (\<lambda>x acc. case f x of Some v \<Rightarrow> v | None \<Rightarrow> acc) xs d"

definition drains :: "'s setting \<Rightarrow> int option" where
  "drains s = (case s of SetDrain d \<Rightarrow> Some d | _ \<Rightarrow> None)"
definition signal_lists :: "'s setting \<Rightarrow> string list option" where
  "signal_lists s = (case s of SetSignals d \<Rightarrow> Some d | _ \<Rightarrow> None)"
definition contexts :: "'s setting \<Rightarrow> nat option option" where
  "contexts s = (case s of SetContext d \<Rightarrow> Some d | _ \<Rightarrow> None)"
definition callbacks :: "'s setting list \<Rightarrow> ('s \<Rightarrow> outcome \<times> 's) list" where
  "callbacks ss = concat (map (\<lambda>s. case s of AddCallback fn \<Rightarrow> [fn] | _ \<Rightarrow> []) ss)"

lemma fold_options:
  "fold (\<lambda>o'. o') (map option_of ss) cfg =
     cfg\<lparr>drainTimeout := last_of drains (drainTimeout cfg) ss,
         signals := last_of signal_lists (signals cfg) ss,
         onShutdown := onShutdown cfg @ callbacks ss,
         gctx := last_of contexts (gctx cfg) ss\<rparr>"
proof (induction ss arbitrary: cfg)
  case Nil
  then show ?case by (simp add: last_of_def callbacks_def)
next
  case (Cons a ss)
  show ?case
    by (cases a) (simp_all add: Cons.IH last_of_def callbacks_def drains_def signal_lists_def contexts_def
      WithDrainTimeout_def WithSignals_def WithOnShutdown_def WithContext_def)
qed

lemma apply_options_settings:
  "apply_options (map option_of ss) =
     \<lparr>drainTimeout = last_of drains (30 * 10 ^ 9) ss,
      signals = last_of signal_lists [''SIGTERM'', ''SIGINT''] ss,
      onShutdown = callbacks ss, gctx = last_of contexts None ss\<rparr>"
  by (simp add: apply_options_def fold_options defaultGracefulConfig_def)

section \<open>The shutdown sequence\<close>

lemma run_callbacks_append:
  "run_callbacks (xs @ ys) s =
     (case run_callbacks xs s of (Returned, s) \<Rightarrow> run_callbacks ys s | (Panicked m, s) \<Rightarrow> (Panicked m, s))"
  by (induction xs arbitrary: s) (auto split: prod.split outcome.split)

text \<open>What an event list wakes the call with: nothing exactly when no event of it is a trigger.\<close>

definition triggers :: "'s graceful_config \<Rightarrow> graceful_event \<Rightarrow> bool" where
  "triggers cfg e \<longleftrightarrow> (case e of
      ListenReturned r \<Rightarrow> (\<exists>m. r = Some (ListenError m))
    | SignalArrives s \<Rightarrow> relayed (signals cfg) s
    | ContextCancelled n \<Rightarrow> gctx cfg = Some n)"

lemma await_skips:
  "\<forall>e \<in> set es. \<not> triggers cfg e \<Longrightarrow> await_shutdown cfg (es @ es') = await_shutdown cfg es'"
  by (induction cfg es rule: await_shutdown.induct)
    (auto simp: triggers_def split: option.split listen_error.split)

lemma await_None: "await_shutdown cfg es = None \<longleftrightarrow> (\<forall>e \<in> set es. \<not> triggers cfg e)"
  by (induction cfg es rule: await_shutdown.induct)
    (auto simp: triggers_def split: option.split listen_error.split)

text \<open>
  C38: Graceful shutdown runs in its documented order. Take any options and any events up to the
  first trigger (a listen error, a relayed signal or the cancellation of the parent context).
  Before the trigger the call keeps serving and the state is untouched. A listen error is returned
  at once and no callback runs. On a signal or a cancellation the callbacks registered by
  WithOnShutdown run in the order of registration, all before Shutdown, which gets the last drain
  timeout set (30 seconds if none) and whose error is the result.
\<close>

theorem graceful_sequence:
  assumes "\<forall>e \<in> set before. \<not> triggers (apply_options (map option_of ss)) e"
    and "triggers (apply_options (map option_of ss)) ev"
  shows "ListenAndServeGraceful shutdown (map option_of ss) before s = (StillServing, s) \<and>
    ListenAndServeGraceful shutdown (map option_of ss) (before @ ev # after) s =
      (case ev of
         ListenReturned (Some (ListenError e)) \<Rightarrow> (ReturnedErr (Some e), s)
       | _ \<Rightarrow>
          (case run_callbacks (callbacks ss) s of
             (Panicked m, s') \<Rightarrow> (CallbackPanicked m, s')
           | (Returned, s') \<Rightarrow>
               (ReturnedErr (fst (shutdown (last_of drains (30 * 10 ^ 9) ss) s')),
                snd (shutdown (last_of drains (30 * 10 ^ 9) ss) s'))))"
proof -
  let ?cfg = "apply_options (map option_of ss)"
  have "await_shutdown ?cfg before = None" using assms(1) by (simp add: await_None)
  moreover have "await_shutdown ?cfg (before @ ev # after) = await_shutdown ?cfg (ev # after)"
    by (rule await_skips [OF assms(1)])
  moreover have "onShutdown ?cfg = callbacks ss" "drainTimeout ?cfg = last_of drains (30 * 10 ^ 9) ss"
    by (simp_all add: apply_options_settings)
  ultimately show ?thesis
    using assms(2)
    by (auto simp: ListenAndServeGraceful_def Let_def triggers_def split: graceful_event.splits prod.split outcome.split)
qed

definition noting :: "string \<Rightarrow> string list \<Rightarrow> outcome \<times> string list" where
  "noting m t = (Returned, t @ [m])"

definition noting_shutdown :: "int \<Rightarrow> string list \<Rightarrow> string option \<times> string list" where
  "noting_shutdown d t = (None, t @ [if d = 5 then ''shutdown in 5'' else ''shutdown''])"

definition sample_settings :: "string list setting list" where
  "sample_settings = [AddCallback (noting ''first''), SetDrain 5, AddCallback (noting ''second'')]"

theorem graceful_sequence_witness:
  "ListenAndServeGraceful noting_shutdown (map option_of sample_settings)
     [SignalArrives ''SIGHUP'', SignalArrives ''SIGTERM''] [] =
   (ReturnedErr None, [''first'', ''second'', ''shutdown in 5''])"
proof -
  have "\<forall>e \<in> set [SignalArrives ''SIGHUP'']. \<not> triggers (apply_options (map option_of sample_settings)) e"
    and "triggers (apply_options (map option_of sample_settings)) (SignalArrives ''SIGTERM'')"
    unfolding apply_options_settings
    by (simp_all add: triggers_def relayed_def sample_settings_def last_of_def signal_lists_def)
  from graceful_sequence [OF this, of noting_shutdown "[]" "[]"] show ?thesis
    by (simp add: sample_settings_def callbacks_def last_of_def drains_def noting_def noting_shutdown_def)
qed

section \<open>What the sequence leaves out\<close>

text \<open>
  When the server is shut down elsewhere, ListenAndServe returns ErrServerClosed and the call does
  not notice: it waits on for a signal or the context, and then runs the callbacks.
\<close>

lemma closed_elsewhere_not_noticed:
  "ListenAndServeGraceful shutdown opts (ListenReturned (Some ErrServerClosed) # es) s =
   ListenAndServeGraceful shutdown opts es s"
  by (simp add: ListenAndServeGraceful_def)

text \<open>A callback that panics takes the callbacks after it and the shutdown with it.\<close>

lemma callback_panic_skips_shutdown:
  assumes "await_shutdown (apply_options opts) es \<noteq> None" and "\<forall>e. await_shutdown (apply_options opts) es \<noteq> Some (ServerErr e)"
    and "run_callbacks (onShutdown (apply_options opts)) s = (Panicked m, s')"
  shows "ListenAndServeGraceful shutdown opts es s = (CallbackPanicked m, s')"
  using assms by (auto simp: ListenAndServeGraceful_def Let_def split: wake.splits)

end
