(* ===== verification/Helpers.thy ===== *)
theory Helpers
  imports Origin
begin

text \<open>
  The small pieces of \<open>package http\<close>: id generators (\<open>idgen.go\<close>), session ids (\<open>session.go\<close>),
  the Accept header (\<open>accept.go\<close>), JSON-RPC batches (\<open>jsonrpc.go\<close>), references against a base URL
  (\<open>resolve.go\<close>), status errors (\<open>status.go\<close>) and the local CORS wrapper (\<open>local.go\<close>).
\<close>

section \<open>Identifiers\<close>

text \<open>
  The interface \<open>IDGen\<close>. A generator hands out the name of each number in turn: \<open>issued\<close> counts
  the identifiers handed out so far, and the names of the first \<open>limit\<close> numbers differ.
\<close>

locale id_gen =
  fixes next_id :: "'g \<Rightarrow> string \<times> 'g" and issued :: "'g \<Rightarrow> nat" and name_of :: "nat \<Rightarrow> string" and limit :: nat
  assumes next_issues: "issued g < limit \<Longrightarrow> next_id g = (i, g') \<Longrightarrow> i = name_of (issued g) \<and> issued g' = Suc (issued g)"
    and names_differ: "inj_on name_of {..<limit}"
begin

fun take_ids :: "nat \<Rightarrow> 'g \<Rightarrow> string list" where
  "take_ids 0 g = []"
| "take_ids (Suc n) g = (case next_id g of (i, g) \<Rightarrow> i # take_ids n g)"

lemma take_ids_names: "issued g + n \<le> limit \<Longrightarrow> take_ids n g = map name_of [issued g..<issued g + n]"
proof (induction n arbitrary: g)
  case (Suc n)
  obtain i g' where g: "next_id g = (i, g')" by (cases "next_id g")
  then have i: "i = name_of (issued g)" "issued g' = Suc (issued g)"
    using next_issues [of g i g'] Suc.prems by simp_all
  then have "take_ids n g' = map name_of [Suc (issued g)..<Suc (issued g) + n]"
    using Suc.IH [of g'] Suc.prems by simp
  moreover have "[issued g..<issued g + Suc n] = issued g # [Suc (issued g)..<Suc (issued g) + n]"
    by (subst upt_conv_Cons) simp_all
  ultimately show ?case using g i by (simp del: upt_Suc)
qed simp

lemma ids_distinct: "issued g + n \<le> limit \<Longrightarrow> distinct (take_ids n g)"
  using names_differ by (auto simp: take_ids_names distinct_map intro!: inj_on_subset [OF names_differ])

end

text \<open>
  The atomic counter of 64 bits. \<open>Add\<close> is one atomic step, so what concurrent callers get is what
  the calls get in the order of their steps.
\<close>

type_synonym atomic_id_gen = "64 word"

definition NextID :: "atomic_id_gen \<Rightarrow> string \<times> atomic_id_gen" where
  "NextID counter = (let n = counter + 1 in (dec_int (sint n), n))"

definition nth_id :: "nat \<Rightarrow> string" where
  "nth_id k = dec_int (sint (of_nat (Suc k) :: 64 word))"

lemma nth_id_inj: "inj_on nth_id {..<2 ^ 64 - 1}"
proof (rule inj_onI)
  fix a b
  assume ab: "a \<in> {..<2 ^ 64 - 1 :: nat}" "b \<in> {..<2 ^ 64 - 1 :: nat}" and eq: "nth_id a = nth_id b"
  have "sint (of_nat (Suc a) :: 64 word) = sint (of_nat (Suc b) :: 64 word)"
    using eq unfolding nth_id_def by (rule dec_int_inj)
  then have "(of_nat (Suc a) :: 64 word) = of_nat (Suc b)"
    by (rule signed_word_eqI)
  then have "unat (of_nat (Suc a) :: 64 word) = unat (of_nat (Suc b) :: 64 word)" by simp
  then show "a = b" using ab by (simp only: unat_of_nat) simp
qed

interpretation atomic: id_gen NextID "\<lambda>c. unat c" nth_id "2 ^ 64 - 1"
proof
  fix g i g'
  assume "unat (g :: 64 word) < 2 ^ 64 - 1" and n: "NextID g = (i, g')"
  then have "unat (g + 1) = Suc (unat g)"
    by (subst unat_plus_if_size) (simp add: word_size)
  moreover have "(of_nat (Suc (unat g)) :: 64 word) = g + 1" by simp
  ultimately show "i = nth_id (unat g) \<and> unat g' = Suc (unat g)"
    using n by (auto simp: NextID_def nth_id_def Let_def simp del: of_nat_Suc)
qed (rule nth_id_inj)

fun draw_ids :: "nat \<Rightarrow> atomic_id_gen \<Rightarrow> string list" where
  "draw_ids 0 g = []"
| "draw_ids (Suc n) g = (case NextID g of (i, g) \<Rightarrow> i # draw_ids n g)"

lemma draw_ids_take: "draw_ids n g = atomic.take_ids n g"
  by (induction n arbitrary: g) (simp_all split: prod.split)

lemma nth_id_dec: "Suc k < 2 ^ 63 \<Longrightarrow> nth_id k = dec_nat (Suc k)"
proof -
  assume k: "Suc k < 2 ^ 63"
  then have "uint (of_nat (Suc k) :: 64 word) = int (Suc k)"
    by (simp only: uint_nat unat_of_nat) simp
  then have "sint (of_nat (Suc k) :: 64 word) = signed_take_bit 63 (int (Suc k))"
    by (simp add: sint_uint del: of_nat_Suc)
  also have "\<dots> = int (Suc k)"
  proof (rule signed_take_bit_int_eq_self)
    have "int (Suc k) < int (2 ^ 63)" using k by (simp only: of_nat_less_iff)
    then show "int (Suc k) < 2 ^ 63" by simp
  qed simp
  finally show ?thesis by (simp add: nth_id_def dec_int_def del: of_nat_Suc)
qed

text \<open>
  Generated identifiers are unique. However many calls to Next share a fresh generator, up to
  2^64 - 1 of them get pairwise different identifiers, also past the point where the signed counter
  wraps to negative numbers; and the first 2^63 - 1 are the decimal numbers from 1 in the order of
  the calls.
\<close>

theorem idgen_unique:
  assumes "n < 2 ^ 64"
  shows "distinct (draw_ids n 0) \<and> (n < 2 ^ 63 \<longrightarrow> draw_ids n 0 = map dec_nat [1..<Suc n])"
proof
  have n: "unat (0 :: 64 word) + n \<le> 2 ^ 64 - 1" using assms by simp
  show "distinct (draw_ids n 0)"
    unfolding draw_ids_take by (rule atomic.ids_distinct [OF n])
  show "n < 2 ^ 63 \<longrightarrow> draw_ids n 0 = map dec_nat [1..<Suc n]"
  proof
    assume "n < 2 ^ 63"
    then have "map nth_id [0..<n] = map (\<lambda>k. dec_nat (Suc k)) [0..<n]" by (simp add: nth_id_dec)
    also have "\<dots> = map dec_nat (map Suc [0..<n])" by simp
    finally show "draw_ids n 0 = map dec_nat [1..<Suc n]"
      using atomic.take_ids_names [OF n] by (simp add: draw_ids_take map_Suc_upt)
  qed
qed

theorem idgen_unique_witness: "distinct (draw_ids 3 0) \<and> draw_ids 3 0 = map dec_nat [1..<Suc 3]"
proof -
  have "(3 :: nat) < 2 ^ 64" "(3 :: nat) < 2 ^ 63" by simp_all
  then show ?thesis using idgen_unique [of 3] by blast
qed

text \<open>Session ids: 16 random bytes in hexadecimal, or a panic when there are none.\<close>

definition GenerateSessionID :: "string + bytes \<Rightarrow> outcome \<times> string" where
  "GenerateSessionID rand =
     (case rand of
        Inl e \<Rightarrow> (Panicked (''crypto/rand failed: '' @ e), [])
      | Inr b \<Rightarrow> (Returned, hex_encode b))"

lemma session_id_format:
  assumes "length b = 16"
  shows "length (snd (GenerateSessionID (Inr b))) = 32"
  using assms by (simp add: GenerateSessionID_def length_hex_encode)

lemma session_id_keeps_entropy:
  "snd (GenerateSessionID (Inr a)) = snd (GenerateSessionID (Inr b)) \<longleftrightarrow> a = b"
  by (auto simp: GenerateSessionID_def dest: hex_encode_inj)

section \<open>The Accept header\<close>

definition media_type :: "string \<Rightarrow> string" where
  "media_type part =
     (let mediaType = TrimSpace part in
      case IndexByte mediaType (CHR '';'') of
        None \<Rightarrow> mediaType
      | Some semi \<Rightarrow> TrimSpace (take semi mediaType))"

definition accept_part :: "string \<Rightarrow> bool \<times> bool \<Rightarrow> bool \<times> bool" where
  "accept_part part acc = (case acc of (acceptsJSON, acceptsSSE) \<Rightarrow>
     (let mediaType = media_type part in
      if mediaType = ''application/json'' then (True, acceptsSSE)
      else if mediaType = ''text/event-stream'' then (acceptsJSON, True)
      else if mediaType = ''*/*'' then (True, True)
      else (acceptsJSON, acceptsSSE)))"

definition ParseAcceptTypes :: "string \<Rightarrow> bool \<times> bool" where
  "ParseAcceptTypes accept = fold accept_part (Split accept (CHR '','')) (False, False)"

lemma fold_accept_part:
  "fold accept_part parts (j, s) =
     (j \<or> (\<exists>p \<in> set parts. media_type p \<in> {''application/json'', ''*/*''}),
      s \<or> (\<exists>p \<in> set parts. media_type p \<in> {''text/event-stream'', ''*/*''}))"
  by (induction parts arbitrary: j s) (auto simp: accept_part_def Let_def)

text \<open>What the header accepts is decided by the media types of its entries alone.\<close>

lemma accept_exact:
  "fst (ParseAcceptTypes accept) \<longleftrightarrow>
     (\<exists>p \<in> set (Split accept (CHR '','')). media_type p \<in> {''application/json'', ''*/*''})"
  "snd (ParseAcceptTypes accept) \<longleftrightarrow>
     (\<exists>p \<in> set (Split accept (CHR '','')). media_type p \<in> {''text/event-stream'', ''*/*''})"
  by (simp_all add: ParseAcceptTypes_def fold_accept_part)

text \<open>A quality value is cut off and never read: a type refused with \<open>q=0\<close> counts as accepted.\<close>

lemma refused_type_accepted: "ParseAcceptTypes ''application/json;q=0'' = (True, False)"
proof -
  have "TrimSpace ''application/json;q=0'' = ''application/json;q=0''" "TrimSpace ''application/json'' = ''application/json''"
    by (rule TrimSpace_visible; simp add: visible_def)+
  then have "media_type ''application/json;q=0'' = ''application/json''"
    by (simp add: media_type_def)
  then show ?thesis by (simp add: ParseAcceptTypes_def accept_part_def)
qed

section \<open>JSON-RPC batches\<close>

definition DetectBatch :: "bytes \<Rightarrow> bool" where
  "DetectBatch body =
     (let body = TrimLeft body [SP, CHR 0x09, CR, LF] in body \<noteq> [] \<and> hd body = CHR ''['')"

text \<open>\<open>unmarshal\<close> is \<open>json.Unmarshal\<close> into a slice of raw messages.\<close>

definition SplitBatch :: "(bytes \<Rightarrow> string + 'raw list) \<Rightarrow> bytes \<Rightarrow> string + 'raw list" where
  "SplitBatch unmarshal body =
     (case unmarshal body of
        Inl e \<Rightarrow> Inl (''invalid JSON-RPC batch: '' @ e)
      | Inr batch \<Rightarrow> Inr batch)"

lemma detect_batch_exact:
  "DetectBatch body \<longleftrightarrow> (\<exists>ws rest. body = ws @ CHR ''['' # rest \<and> set ws \<subseteq> {SP, CHR 0x09, CR, LF})"
proof
  let ?P = "\<lambda>c. c \<in> set [SP, CHR 0x09, CR, LF]"
  assume "DetectBatch body"
  then obtain rest where "dropWhile ?P body = CHR ''['' # rest"
    by (cases "dropWhile ?P body") (auto simp: DetectBatch_def Let_def TrimLeft_def)
  then have "body = takeWhile ?P body @ CHR ''['' # rest"
    using takeWhile_dropWhile_id [of ?P body] by simp
  moreover have "set (takeWhile ?P body) \<subseteq> {SP, CHR 0x09, CR, LF}"
    using set_takeWhileD [of _ ?P body] by auto
  ultimately show "\<exists>ws rest. body = ws @ CHR ''['' # rest \<and> set ws \<subseteq> {SP, CHR 0x09, CR, LF}"
    by blast
next
  assume "\<exists>ws rest. body = ws @ CHR ''['' # rest \<and> set ws \<subseteq> {SP, CHR 0x09, CR, LF}"
  then obtain ws rest where b: "body = ws @ CHR ''['' # rest" and ws: "\<forall>c \<in> set ws. c \<in> set [SP, CHR 0x09, CR, LF]"
    by auto
  have "TrimLeft body [SP, CHR 0x09, CR, LF] = CHR ''['' # rest"
    unfolding b TrimLeft_def using ws by (subst dropWhile_append2) auto
  then show "DetectBatch body" by (simp add: DetectBatch_def)
qed

text \<open>
  The JSON value null is no array, but Go unmarshals it into a nil slice without an error: the
  batch of a body \<open>null\<close> is empty, not an error.
\<close>

lemma null_is_an_empty_batch:
  assumes "unmarshal ''null'' = Inr []"
  shows "SplitBatch unmarshal ''null'' = Inr [] \<and> \<not> DetectBatch ''null''"
  using assms by (simp add: SplitBatch_def DetectBatch_def TrimLeft_def)

section \<open>References\<close>

text \<open>
  \<open>parse\<close>, \<open>resolve\<close> and \<open>show\<close> are \<open>Parse\<close>, \<open>ResolveReference\<close> and \<open>String\<close> of
  \<open>net/url\<close>; \<open>quote\<close> is the quoting of \<open>%q\<close>.
\<close>

definition ResolveURL ::
  "(string \<Rightarrow> string + 'u) \<Rightarrow> ('u \<Rightarrow> 'u \<Rightarrow> 'u) \<Rightarrow> ('u \<Rightarrow> string) \<Rightarrow> (string \<Rightarrow> string) \<Rightarrow> string \<Rightarrow> string \<Rightarrow>
   string + string"
where
  "ResolveURL parse resolve show' quote baseURL ref =
     (case parse baseURL of
        Inl e \<Rightarrow> Inl (''parsing base URL: '' @ e)
      | Inr base \<Rightarrow>
          (case parse ref of
             Inl e \<Rightarrow> Inl (''parsing reference URL '' @ quote ref @ '': '' @ e)
           | Inr r \<Rightarrow> Inr (show' (resolve base r))))"

section \<open>Status errors\<close>

record http_status_error =
  se_StatusCode :: int
  se_Header :: header
  se_Body :: string

definition Error_status :: "http_status_error \<Rightarrow> string" where
  "Error_status e =
     (if se_Body e \<noteq> [] then ''HTTP '' @ dec_int (se_StatusCode e) @ '': '' @ se_Body e
      else ''HTTP '' @ dec_int (se_StatusCode e))"

definition IsHTTPTransient :: "int \<Rightarrow> bool" where
  "IsHTTPTransient statusCode \<longleftrightarrow> 500 \<le> statusCode"

section \<open>Local CORS\<close>

definition CORS_local :: "(string \<Rightarrow> string option) \<Rightarrow> ('b, 'x) middleware" where
  "CORS_local parse next = CORS parse None [] next"

lemma local_cors_allows_every_origin:
  assumes "header_get (Header r) ''Origin'' = origin" and "origin \<noteq> []" and "Method r = ''OPTIONS''"
    and "sent w = None"
  shows "fst (CORS_local parse next r w) = Returned \<and> final_status (snd (CORS_local parse next r w)) = 204"
  using assms by (simp add: CORS_local_def CORS_def Let_def cors_headers_for_def)

end
