(* ===== verification/Utils.thy ===== *)
theory Utils
  imports WsServe "HOL-Library.Multiset"
begin

text \<open>
  \<open>http/utils.go\<close>: query strings from maps, JSON responses with the status of a gRPC error, JSON
  over a WebSocket connection, and the normalisation of WebSocket URLs. The gRPC status package,
  JSON marshalling and the socket are parameters.
\<close>

section \<open>Query strings\<close>

text \<open>\<open>url.PathEscape\<close>: the bytes that may stand in a path segment are kept.\<close>

definition path_safe :: "char \<Rightarrow> bool" where
  "path_safe c \<longleftrightarrow> is_digit c \<or> to_lower c \<noteq> c \<or> to_upper c \<noteq> c \<or> c \<in> set ''-_.~$&+:=@''"

definition upper_hex :: "nat \<Rightarrow> char" where
  "upper_hex d = (if d < 10 then char_of (48 + d) else char_of (55 + d))"

definition percent :: "char \<Rightarrow> string" where
  "percent c = [CHR ''%'', upper_hex (of_char c div 16), upper_hex (of_char c mod 16)]"

definition PathEscape :: "string \<Rightarrow> string" where
  "PathEscape s = concat (map (\<lambda>c. if path_safe c then [c] else percent c) s)"

text \<open>
  A Go map is ranged over in no fixed order: \<open>entries\<close> lists the map as the range visits it. \<open>fmt\<close>
  is the format \<open>%v\<close> of the values.
\<close>

definition query_item :: "('v \<Rightarrow> string) \<Rightarrow> (string \<times> 'v) list \<Rightarrow> string \<Rightarrow> string" where
  "query_item fmt entries key = PathEscape key @ ''='' @ fmt (the (map_of entries key))"

definition JsonToQueryString :: "('v \<Rightarrow> string) \<Rightarrow> (string \<times> 'v) list \<Rightarrow> string" where
  "JsonToQueryString fmt entries =
     fold (\<lambda>key out. (if out \<noteq> [] then out @ ''&'' else out) @ query_item fmt entries key)
       (sort (map fst entries)) []"

text \<open>The inverse of the escaping, to state what a receiver reads.\<close>

definition hex_val :: "char \<Rightarrow> nat" where
  "hex_val c = (if is_digit c then of_char c - 48 else of_char c - 55)"

function unescape :: "string \<Rightarrow> string" where
  "unescape [] = []"
| "unescape (c # s) =
     (if c = CHR ''%'' \<and> 2 \<le> length s then char_of (16 * hex_val (s ! 0) + hex_val (s ! 1)) # unescape (drop 2 s)
      else c # unescape s)"
  by pat_completeness auto
termination by (relation "measure length") auto

lemma hex_val_upper_hex: "d < 16 \<Longrightarrow> hex_val (upper_hex d) = d"
  by (auto simp: hex_val_def upper_hex_def is_digit_def)

lemma unescape_percent: "unescape (percent c @ s) = c # unescape s"
proof -
  have n: "(of_char c :: nat) < 256" by (rule nat_of_char_less_256)
  then have "hex_val (upper_hex (of_char c div 16)) = of_char c div 16"
    "hex_val (upper_hex (of_char c mod 16)) = of_char c mod 16"
    by (auto intro!: hex_val_upper_hex simp: less_mult_imp_div_less)
  moreover have "16 * (of_char c div 16) + of_char c mod 16 = (of_char c :: nat)"
    by (simp add: mult.commute)
  ultimately show ?thesis by (simp add: percent_def)
qed

lemma path_safe_special: "\<not> path_safe (CHR ''%'')" "path_safe (CHR ''&'')" "path_safe (CHR ''='')"
  by (simp_all add: path_safe_def is_digit_def to_lower_def to_upper_def)

lemma unescape_PathEscape: "unescape (PathEscape s) = s"
proof (induction s)
  case (Cons c s)
  then show ?case
    using path_safe_special(1) unescape_percent [of c "PathEscape s"]
    by (cases "path_safe c") (auto simp: PathEscape_def)
qed (simp add: PathEscape_def)

lemma upper_hex_plain: "d < 16 \<Longrightarrow> upper_hex d \<noteq> CHR ''&'' \<and> upper_hex d \<noteq> CHR ''=''"
proof -
  assume d: "d < 16"
  have "(of_char (upper_hex d) :: nat) = (if d < 10 then 48 + d else 55 + d)"
    using d by (simp add: upper_hex_def)
  then show ?thesis using d by (auto split: if_splits)
qed

lemma PathEscape_special:
  assumes "c = CHR ''&'' \<or> c = CHR ''=''"
  shows "c \<in> set (PathEscape s) \<longleftrightarrow> c \<in> set s"
proof -
  have "c \<notin> set (percent x)" if "\<not> path_safe x" for x
  proof -
    have "(of_char x :: nat) div 16 < 16" "(of_char x :: nat) mod 16 < 16"
      using nat_of_char_less_256 [of x] by (auto simp: less_mult_imp_div_less)
    then have "upper_hex (of_char x div 16) \<noteq> c" "upper_hex (of_char x mod 16) \<noteq> c"
      using assms upper_hex_plain by metis+
    then show ?thesis using assms by (auto simp: percent_def)
  qed
  moreover have "path_safe c" using assms path_safe_special by auto
  ultimately show ?thesis by (induction s) (auto simp: PathEscape_def)
qed

lemma fold_query_join:
  assumes "\<And>k. item k \<noteq> []"
  shows "fold (\<lambda>key out. (if out \<noteq> [] then out @ ''&'' else out) @ item key) ks out =
    (if out = [] then Join (map item ks) ''&'' else Join (out # map item ks) ''&'')"
proof (induction ks arbitrary: out)
  case (Cons k ks)
  show ?case
  proof (cases "out = []")
    case True
    then show ?thesis using assms [of k] by (simp add: Cons.IH)
  next
    case False
    have "Join ((out @ ''&'' @ item k) # map item ks) ''&'' = Join (out # item k # map item ks) ''&''"
      by (cases ks) (simp_all add: Join_Cons)
    then show ?thesis using False assms [of k] by (simp add: Cons.IH)
  qed
qed simp

lemma query_join: "JsonToQueryString fmt entries = Join (map (query_item fmt entries) (sort (map fst entries))) ''&''"
  unfolding JsonToQueryString_def by (subst fold_query_join) (simp_all add: query_item_def)

lemma Split_Join:
  "ls \<noteq> [] \<Longrightarrow> \<forall>l \<in> set ls. c \<notin> set l \<Longrightarrow> Split (Join ls [c]) c = ls"
proof (induction ls)
  case (Cons l ls)
  then show ?case by (cases ls) (simp_all add: Split_single Split_append_sep)
qed simp

definition parse_pair :: "string \<Rightarrow> string \<times> string" where
  "parse_pair part = (case SplitN2 part (CHR ''='') of [k, v] \<Rightarrow> (unescape k, v) | _ \<Rightarrow> ([], []))"

text \<open>
  Query strings are deterministic and readable. For every map (distinct keys), the result does
  not depend on the order in which the map is ranged over. When no key has an ampersand or an equals
  sign and no formatted value has an ampersand, splitting the result at ampersands, each part at its
  first equals sign and unescaping the keys gives back the entries of the map in the order of their
  keys: no entry is lost, added or changed.
\<close>

theorem query_roundtrip:
  assumes "distinct (map fst entries)" and "mset entries' = mset entries"
    and "\<forall>(k, v) \<in> set entries. CHR ''&'' \<notin> set k \<and> CHR ''='' \<notin> set k \<and> CHR ''&'' \<notin> set (fmt v)"
    and "entries \<noteq> []"
  shows "JsonToQueryString fmt entries' = JsonToQueryString fmt entries \<and>
    map parse_pair (Split (JsonToQueryString fmt entries) (CHR ''&'')) =
      map (\<lambda>k. (k, fmt (the (map_of entries k)))) (sort (map fst entries))"
proof
  have set_eq: "set entries' = set entries" using assms(2) by (rule mset_eq_setD)
  have keys: "mset (map fst entries') = mset (map fst entries)" using assms(2) by simp
  then have "distinct (map fst entries')" using assms(1) by (metis mset_eq_imp_distinct_iff)
  then have lookup: "map_of entries' = map_of entries"
    using assms(1) set_eq by (intro map_of_inject_set [THEN iffD2]) simp_all
  have order: "sort (map fst entries') = sort (map fst entries)"
    using keys by (intro properties_for_sort) simp_all
  show "JsonToQueryString fmt entries' = JsonToQueryString fmt entries"
    using order lookup by (simp add: query_join query_item_def [abs_def])
  let ?ks = "sort (map fst entries)"
  have key: "CHR ''&'' \<notin> set k" "CHR ''='' \<notin> set k" "CHR ''&'' \<notin> set (fmt (the (map_of entries k)))"
    if "k \<in> set ?ks" for k
  proof -
    have "k \<in> fst ` set entries" using that by (simp only: set_sort set_map)
    then obtain v where "(k, v) \<in> set entries" by force
    moreover from this have "map_of entries k = Some v" using assms(1) by simp
    ultimately show "CHR ''&'' \<notin> set k" "CHR ''='' \<notin> set k" "CHR ''&'' \<notin> set (fmt (the (map_of entries k)))"
      using assms(3) by auto
  qed
  have ks: "?ks \<noteq> []" using assms(4) by (metis length_sort length_map length_0_conv)
  have "Split (JsonToQueryString fmt entries) (CHR ''&'') = map (query_item fmt entries) ?ks"
    unfolding query_join using ks key
    by (intro Split_Join) (auto simp: query_item_def PathEscape_special)
  moreover have "parse_pair (query_item fmt entries k) = (k, fmt (the (map_of entries k)))" if "k \<in> set ?ks" for k
    using key [OF that] by (simp add: parse_pair_def query_item_def SplitN2_hit PathEscape_special unescape_PathEscape)
  ultimately show "map parse_pair (Split (JsonToQueryString fmt entries) (CHR ''&'')) =
      map (\<lambda>k. (k, fmt (the (map_of entries k)))) ?ks"
    by simp
qed

theorem query_roundtrip_witness:
  "JsonToQueryString id [(''name'', ''John''), (''age'', ''30'')] = JsonToQueryString id [(''age'', ''30''), (''name'', ''John'')] \<and>
   map parse_pair (Split (JsonToQueryString id [(''age'', ''30''), (''name'', ''John'')]) (CHR ''&'')) =
     [(''age'', ''30''), (''name'', ''John'')]"
  using query_roundtrip [where entries = "[(''age'', ''30''), (''name'', ''John'')]"
    and entries' = "[(''name'', ''John''), (''age'', ''30'')]" and fmt = id]
  by (simp add: add.commute)

text \<open>
  The values are not escaped, and an ampersand in a key is not either: two different maps have the
  same query string.
\<close>

lemma query_value_injection:
  "JsonToQueryString id [(''a'', ''1&b=2'')] = JsonToQueryString id [(''a'', ''1''), (''b'', ''2'')]"
  by code_simp

section \<open>JSON responses\<close>

text \<open>
  \<open>from_error\<close> is \<open>status.FromError\<close> of gRPC: the code and message of a status error. The numbers
  are those of package \<open>codes\<close>.
\<close>

definition ErrorToHttpCode :: "('e \<Rightarrow> (int \<times> string) option) \<Rightarrow> 'e option \<Rightarrow> int" where
  "ErrorToHttpCode from_error err =
     (case err of
        None \<Rightarrow> 200
      | Some e \<Rightarrow>
          (case from_error e of
             Some (code, msg) \<Rightarrow>
               if code = 7 then 403
               else if code = 5 then 404
               else if code = 6 then 409
               else if code = 3 then 400
               else 500
           | None \<Rightarrow> 500))"

datatype 'r json_output = Plain 'r | StatusObj int string | ErrorObj string

definition SendJsonResponse ::
  "('e \<Rightarrow> (int \<times> string) option) \<Rightarrow> ('e \<Rightarrow> string) \<Rightarrow> ('r json_output \<Rightarrow> string + bytes) \<Rightarrow>
   'r \<Rightarrow> 'e option \<Rightarrow> ('b, 'x) world \<Rightarrow> ('b, 'x) world"
where
  "SendJsonResponse from_error error_text marshal resp err w =
     (let httpCode = ErrorToHttpCode from_error err;
          output = (case err of
              None \<Rightarrow> Plain resp
            | Some e \<Rightarrow> (case from_error e of
                  Some (code, msg) \<Rightarrow> StatusObj code msg
                | None \<Rightarrow> ErrorObj (error_text e)));
          w = WriteHeader httpCode (SetHeader ''Content-Type'' ''application/json'' w)
      in Write_resp (case marshal output of Inl _ \<Rightarrow> [] | Inr data \<Rightarrow> data) w)"

lemma ErrorToHttpCode_range: "ErrorToHttpCode from_error err \<in> {200, 400, 403, 404, 409, 500}"
  by (auto simp: ErrorToHttpCode_def split: option.split)

lemma ErrorToHttpCode_ok: "ErrorToHttpCode from_error err = 200 \<longleftrightarrow> err = None"
  by (auto simp: ErrorToHttpCode_def split: option.split)

lemma send_json_status:
  assumes "sent w = None"
  shows "final_status (SendJsonResponse from_error error_text marshal resp err w) = ErrorToHttpCode from_error err"
  using assms ErrorToHttpCode_range [of from_error err]
  by (auto simp: SendJsonResponse_def Let_def)

text \<open>
  The status is sent before the value is marshalled: a response that cannot be marshalled reaches
  the client as a success with an empty body.
\<close>

lemma unmarshallable_response_is_ok:
  assumes "marshal (Plain resp) = Inl e" and "sent w = None" and "resp_body w = []"
  shows "final_status (SendJsonResponse from_error error_text marshal resp None w) = 200 \<and>
    resp_body (SendJsonResponse from_error error_text marshal resp None w) = []"
  using assms
  by (simp add: SendJsonResponse_def Let_def ErrorToHttpCode_def Write_resp_def WriteHeader_def
    send_header_def final_status_def body_allowed_def)

section \<open>JSON over a WebSocket connection\<close>

definition WSConnWriteError ::
  "'w ws_send \<Rightarrow> (int option \<Rightarrow> string + bytes) \<Rightarrow> ('e \<Rightarrow> bool) \<Rightarrow> ('e \<Rightarrow> (int \<times> string) option) \<Rightarrow>
   'e option \<Rightarrow> 'w \<Rightarrow> string option \<times> 'w"
where
  "WSConnWriteError send marshal_errdata is_EOF from_error err conn =
     (case err of
        None \<Rightarrow> (None, conn)
      | Some e \<Rightarrow>
          if is_EOF e then (None, conn)
          else (case marshal_errdata (map_option fst (from_error e)) of
              Inl outerr \<Rightarrow> (Some outerr, conn)
            | Inr jsonData \<Rightarrow> send conn TextMessage jsonData))"

definition WSConnWriteMessage ::
  "'w ws_send \<Rightarrow> ('m \<Rightarrow> string + bytes) \<Rightarrow> 'm \<Rightarrow> 'w \<Rightarrow> string option \<times> 'w" where
  "WSConnWriteMessage send marshal msg conn =
     (case marshal msg of
        Inl e \<Rightarrow> (Some e, conn)
      | Inr jsonResp \<Rightarrow> send conn TextMessage jsonResp)"

text \<open>The two functions given to the reader and the writer; the reader maps close errors as the loop's does.\<close>

definition json_read :: "(ws_error \<Rightarrow> int list \<Rightarrow> bool) \<Rightarrow> ws_error + 'm \<Rightarrow> ws_error + 'm" where
  "json_read unexpected res = read_result unexpected res"

definition json_write ::
  "'w ws_send \<Rightarrow> (int option \<Rightarrow> string + bytes) \<Rightarrow> ('m \<Rightarrow> string + bytes) \<Rightarrow> ('e \<Rightarrow> bool) \<Rightarrow>
   ('e \<Rightarrow> (int \<times> string) option) \<Rightarrow> ('e \<Rightarrow> string) \<Rightarrow> 'm \<Rightarrow> 'e option \<Rightarrow> 'w \<Rightarrow> string option \<times> 'w"
where
  "json_write send marshal_errdata marshal is_EOF from_error error_text val err conn =
     (case err of
        Some e \<Rightarrow>
          if is_EOF e then (Some (error_text e), conn)
          else WSConnWriteError send marshal_errdata is_EOF from_error (Some e) conn
      | None \<Rightarrow> WSConnWriteMessage send marshal val conn)"

text \<open>The error sent for an error without a gRPC status says nothing: the object is empty.\<close>

lemma plain_error_sends_empty_object:
  assumes "from_error e = None" and "\<not> is_EOF e"
  shows "WSConnWriteError send marshal_errdata is_EOF from_error (Some e) conn =
    (case marshal_errdata None of Inl x \<Rightarrow> (Some x, conn) | Inr d \<Rightarrow> send conn TextMessage d)"
  using assms by (simp add: WSConnWriteError_def)

section \<open>WebSocket URLs\<close>

definition NormalizeWsUrl :: "string \<Rightarrow> string" where
  "NormalizeWsUrl u =
     (let u = (if HasSuffix u ''/'' then take (length u - 1) u else u);
          u = (if HasPrefix u ''http:'' then ''ws:'' @ drop 5 u else u);
          u = (if HasPrefix u ''https:'' then ''wss:'' @ drop 6 u else u)
      in u)"

lemma normalize_ws_url:
  assumes "rest \<noteq> []" and "last rest \<noteq> CHR ''/''"
  shows "NormalizeWsUrl (''http:'' @ rest) = ''ws:'' @ rest" "NormalizeWsUrl (''http:'' @ rest @ ''/'') = ''ws:'' @ rest"
    "NormalizeWsUrl (''https:'' @ rest) = ''wss:'' @ rest" "NormalizeWsUrl (''https:'' @ rest @ ''/'') = ''wss:'' @ rest"
    "NormalizeWsUrl (''ws:'' @ rest @ ''/'') = ''ws:'' @ rest" "NormalizeWsUrl (''wss:'' @ rest @ ''/'') = ''wss:'' @ rest"
proof -
  have no: "\<not> HasSuffix (p @ rest) ''/''" for p
    using assms by (auto simp: HasSuffix_iff) (metis last_append last_snoc)
  have yes: "HasSuffix (p @ rest @ ''/'') ''/''" for p
    unfolding HasSuffix_iff by (rule exI [of _ "p @ rest"]) simp
  show "NormalizeWsUrl (''http:'' @ rest) = ''ws:'' @ rest" using no [of "''http:''"] by (simp add: NormalizeWsUrl_def HasPrefix_def)
  show "NormalizeWsUrl (''https:'' @ rest) = ''wss:'' @ rest" using no [of "''https:''"] by (simp add: NormalizeWsUrl_def HasPrefix_def)
  show "NormalizeWsUrl (''http:'' @ rest @ ''/'') = ''ws:'' @ rest" using yes [of "''http:''"] by (simp add: NormalizeWsUrl_def HasPrefix_def)
  show "NormalizeWsUrl (''https:'' @ rest @ ''/'') = ''wss:'' @ rest" using yes [of "''https:''"] by (simp add: NormalizeWsUrl_def HasPrefix_def)
  show "NormalizeWsUrl (''ws:'' @ rest @ ''/'') = ''ws:'' @ rest" using yes [of "''ws:''"] by (simp add: NormalizeWsUrl_def HasPrefix_def)
  show "NormalizeWsUrl (''wss:'' @ rest @ ''/'') = ''wss:'' @ rest" using yes [of "''wss:''"] by (simp add: NormalizeWsUrl_def HasPrefix_def)
qed

text \<open>Only one trailing slash goes.\<close>

lemma second_slash_stays: "NormalizeWsUrl ''http://h//'' = ''ws://h/''"
  by (simp add: NormalizeWsUrl_def HasPrefix_def HasSuffix_def)

end
