(* ===== verification/Caller.thy ===== *)
theory Caller
  imports AuthRetry
begin

text \<open>
  \<open>http/caller.go\<close> and \<open>http/ping.go\<close>: the shared clients, \<open>Call\<close> with its options and errors, the
  request builders, and \<open>URLWaiter\<close>, the loop that polls a URL until it answers. The transport of
  a client, \<open>http.NewRequest\<close> and JSON are parameters.
\<close>

section \<open>Clients and options\<close>

record http_client =
  hc_Timeout :: int
  hc_MaxIdleConns :: nat
  hc_MaxIdleConnsPerHost :: nat
  hc_InsecureSkipVerify :: bool

definition new_client :: "int \<Rightarrow> nat \<Rightarrow> nat \<Rightarrow> bool \<Rightarrow> http_client" where
  "new_client timeout idle per_host insecure =
     \<lparr>hc_Timeout = timeout * 10 ^ 9, hc_MaxIdleConns = idle, hc_MaxIdleConnsPerHost = per_host,
      hc_InsecureSkipVerify = insecure\<rparr>"

definition DefaultHttpClient :: http_client where "DefaultHttpClient = new_client 10 0 0 False"
definition LowQPSHttpClient :: http_client where "LowQPSHttpClient = new_client 10 10 5 False"
definition MediumQPSHttpClient :: http_client where "MediumQPSHttpClient = new_client 20 20 10 False"
definition HighQPSHttpClient :: http_client where "HighQPSHttpClient = new_client 30 40 20 False"

definition getInsecureDefaultHttpClient :: http_client where
  "getInsecureDefaultHttpClient = new_client 10 0 0 True"

text \<open>A nil client in the configuration is \<open>None\<close>.\<close>

record call_config =
  cc_client :: "http_client option"

type_synonym call_option = "call_config \<Rightarrow> call_config"

definition WithClient :: "http_client option \<Rightarrow> call_option" where
  "WithClient c = (\<lambda>cfg. cfg\<lparr>cc_client := c\<rparr>)"

definition WithInsecureTLS :: call_option where
  "WithInsecureTLS = (\<lambda>cfg. cfg\<lparr>cc_client := Some getInsecureDefaultHttpClient\<rparr>)"

section \<open>Errors\<close>

record http_error =
  he_Code :: int
  he_Body :: bytes
  he_Header :: header

datatype call_error = TransportErr string | ReadErr io_err | DecodeErr string | HTTPErr http_error

definition Error_http :: "http_error \<Rightarrow> string" where
  "Error_http e = ''Status: '' @ dec_int (he_Code e) @ '', Body: '' @ he_Body e"

definition HTTPErrorCode :: "call_error option \<Rightarrow> int" where
  "HTTPErrorCode err = (case err of Some (HTTPErr e) \<Rightarrow> he_Code e | _ \<Rightarrow> -1)"

section \<open>Calls\<close>

record out_request =
  rq_Method :: string
  rq_URL :: string
  rq_Header :: header
  rq_Body :: "bytes option"
  rq_Ctx :: nat

text \<open>\<open>io.ReadAll\<close>: every byte the source delivers, and its error unless that is the end of file.\<close>

definition ReadAll :: "source \<Rightarrow> bytes \<times> io_err option" where
  "ReadAll s = (pending s, if fault s = EOF then None else Some (fault s))"

text \<open>The response after its body was read to the end and closed.\<close>

definition consumed :: "http_response \<Rightarrow> http_response" where
  "consumed resp = resp\<lparr>resp_src := (resp_src resp)\<lparr>pending := []\<rparr>, resp_closed := True\<rparr>"

definition call_client :: "call_option list \<Rightarrow> http_client" where
  "call_client opts =
     (case cc_client (fold (\<lambda>o' cfg. o' cfg) opts \<lparr>cc_client = Some DefaultHttpClient\<rparr>) of
        None \<Rightarrow> DefaultHttpClient
      | Some c \<Rightarrow> c)"

type_synonym 's transport = "http_client \<Rightarrow> out_request \<Rightarrow> 's \<Rightarrow> (string + http_response) \<times> 's"

definition doCall ::
  "'s transport \<Rightarrow> nat \<Rightarrow> out_request \<Rightarrow> call_option list \<Rightarrow> 's \<Rightarrow>
   (call_error + bytes) \<times> http_response option \<times> 's"
where
  "doCall do_req ctx req opts s =
     (case do_req (call_client opts) (req\<lparr>rq_Ctx := ctx\<rparr>) s of
        (Inl e, s) \<Rightarrow> (Inl (TransportErr e), None, s)
      | (Inr resp, s) \<Rightarrow>
          (case ReadAll (resp_src resp) of
             (body, Some e) \<Rightarrow> (Inl (ReadErr e), Some (consumed resp), s)
           | (body, None) \<Rightarrow>
               if 400 \<le> StatusCode resp then
                 (Inl (HTTPErr \<lparr>he_Code = StatusCode resp, he_Body = body, he_Header = resp_hdr resp\<rparr>),
                  Some (consumed resp), s)
               else (Inr body, Some (consumed resp), s)))"

definition Call ::
  "'s transport \<Rightarrow> (bytes \<Rightarrow> string + 'a) \<Rightarrow> 'a \<Rightarrow> nat \<Rightarrow> out_request \<Rightarrow> call_option list \<Rightarrow> 's \<Rightarrow>
   ('a \<times> call_error option) \<times> 's"
where
  "Call do_req unmarshal zero ctx req opts s =
     (case doCall do_req ctx req opts s of
        (Inl e, resp, s) \<Rightarrow> ((zero, Some e), s)
      | (Inr body, resp, s) \<Rightarrow>
          if body = [] then ((zero, None), s)
          else (case unmarshal body of
              Inl e \<Rightarrow> ((zero, Some (DecodeErr e)), s)
            | Inr out \<Rightarrow> ((out, None), s)))"

definition CallVoid ::
  "'s transport \<Rightarrow> nat \<Rightarrow> out_request \<Rightarrow> call_option list \<Rightarrow> 's \<Rightarrow> call_error option \<times> 's" where
  "CallVoid do_req ctx req opts s =
     (case doCall do_req ctx req opts s of
        (Inl e, resp, s) \<Rightarrow> (Some e, s)
      | (Inr body, resp, s) \<Rightarrow> (None, s))"

section \<open>Building requests\<close>

definition MakeUrl :: "string \<Rightarrow> string \<Rightarrow> string \<Rightarrow> string" where
  "MakeUrl host path args =
     (let url = host @ ''/'' @ TrimPrefix path ''/'' in if args \<noteq> [] then url @ ''?'' @ args else url)"

text \<open>\<open>new_request\<close> is \<open>http.NewRequest\<close> with a method, a URL and a body.\<close>

type_synonym new_request = "string \<Rightarrow> string \<Rightarrow> bytes option \<Rightarrow> string + out_request"

definition NewRequest :: "new_request \<Rightarrow> string \<Rightarrow> string \<Rightarrow> bytes option \<Rightarrow> string + out_request" where
  "NewRequest new_request method endpoint body =
     (case new_request method endpoint body of
        Inl e \<Rightarrow> Inl e
      | Inr req \<Rightarrow> Inr (req\<lparr>rq_Header := header_set ''Content-Type'' ''application/json'' (rq_Header req)\<rparr>))"

definition NewBytesRequest :: "new_request \<Rightarrow> string \<Rightarrow> string \<Rightarrow> bytes option \<Rightarrow> string + out_request" where
  "NewBytesRequest new_request method endpoint body = NewRequest new_request method endpoint body"

definition NewJsonRequest ::
  "new_request \<Rightarrow> ('m \<Rightarrow> string + bytes) \<Rightarrow> string \<Rightarrow> string \<Rightarrow> 'm option \<Rightarrow> string + out_request" where
  "NewJsonRequest new_request marshal method endpoint body =
     (case body of
        None \<Rightarrow> NewBytesRequest new_request method endpoint None
      | Some m \<Rightarrow>
          (case marshal m of
             Inl e \<Rightarrow> Inl e
           | Inr bodyBytes \<Rightarrow> NewBytesRequest new_request method endpoint (Some bodyBytes)))"

text \<open>\<open>decode\<close> is \<open>JsonDecodeBytes\<close>, which gives a value and an error together.\<close>

definition JsonGet ::
  "new_request \<Rightarrow> 's transport \<Rightarrow> (bytes \<Rightarrow> 'a \<times> string option) \<Rightarrow> 'a \<Rightarrow> string \<Rightarrow>
   (out_request \<Rightarrow> out_request) option \<Rightarrow> 's \<Rightarrow> ('a \<times> http_response option \<times> string option) \<times> 's"
where
  "JsonGet new_request do_req decode nil url onReq s =
     (case new_request ''GET'' url None of
        Inl e \<Rightarrow> ((nil, None, Some e), s)
      | Inr req \<Rightarrow>
          (case do_req (new_client 0 0 0 False) (case onReq of None \<Rightarrow> req | Some f \<Rightarrow> f req) s of
             (Inl e, s) \<Rightarrow> ((nil, None, Some e), s)
           | (Inr resp, s) \<Rightarrow>
               (case decode (fst (ReadAll (resp_src resp))) of
                  (v, e) \<Rightarrow> ((v, Some (consumed resp), e), s))))"

section \<open>The result of a call\<close>

lemma doCall_closes:
  "doCall do_req ctx req opts s = (r, Some resp, s') \<Longrightarrow> resp_closed resp \<and> pending (resp_src resp) = []"
  by (auto simp: doCall_def consumed_def split: prod.splits sum.splits option.splits if_splits)


definition answer_404 :: http_response where
  "answer_404 = \<lparr>StatusCode = 404, resp_hdr = (\<lambda>k. None), resp_src = source_of ''gone'', resp_closed = False\<rparr>"

definition sample_out_request :: out_request where
  "sample_out_request = \<lparr>rq_Method = ''GET'', rq_URL = ''http://h/'', rq_Header = (\<lambda>k. None), rq_Body = None, rq_Ctx = 0\<rparr>"


text \<open>
  The documentation speaks of every response that is not 2xx; the code treats 3xx (a 304, or a
  redirect the client does not follow) as success.
\<close>

lemma not_modified_is_success:
  assumes "do_req (call_client opts) (req\<lparr>rq_Ctx := ctx\<rparr>) s = (Inr resp, s')"
    and "StatusCode resp = 304" and "resp_src resp = source_of []"
  shows "Call do_req unmarshal zero ctx req opts s = ((zero, None), s')"
  using assms by (simp add: Call_def doCall_def ReadAll_def)

text \<open>JsonGet drops a read error: what arrived before it is decoded as if it were the whole body.\<close>

lemma json_get_read_error_lost:
  assumes "new_request ''GET'' url None = Inr req" and "do_req (new_client 0 0 0 False) req s = (Inr resp, s')"
    and "fault (resp_src resp) = UnexpectedEOF" and "decode (pending (resp_src resp)) = (v, None)"
  shows "JsonGet new_request do_req decode nil url None s = ((v, Some (consumed resp), None), s')"
  using assms by (simp add: JsonGet_def ReadAll_def)

lemma json_request_content_type:
  "NewJsonRequest new_request marshal method endpoint body = Inr req \<Longrightarrow>
   header_get (rq_Header req) ''Content-Type'' = ''application/json''"
  by (auto simp: NewJsonRequest_def NewBytesRequest_def NewRequest_def split: option.splits sum.splits)

end
