(* ===== verification/UrlWaiter.thy ===== *)
theory UrlWaiter
  imports Caller
begin

text \<open>
  \<open>URLWaiter\<close> of \<open>http/ping.go\<close>: a loop that calls a URL until the call succeeds. It has no bound
  of its own, so the run is an option: None is a run that never returns.
\<close>

section \<open>The waiter\<close>

definition urlPingHttpClient :: http_client where
  "urlPingHttpClient = new_client 10 10 5 True"

text \<open>A request function may return neither a request nor an error.\<close>

record ('m, 's) url_waiter =
  uw_Method :: string
  uw_Url :: string
  uw_Headers :: "(string \<times> string) list"
  uw_Payload :: "'m option"
  uw_Delay :: int
  uw_RequestFunc :: "(nat \<Rightarrow> call_error option \<Rightarrow> 's \<Rightarrow> (out_request option \<times> call_error option) \<times> 's) option"
  uw_ValidateFunc :: "(out_request \<Rightarrow> http_response \<Rightarrow> string option) option"

definition with_defaults :: "('m, 's) url_waiter \<Rightarrow> ('m, 's) url_waiter" where
  "with_defaults u =
     (let u = (if uw_Method u = [] then u\<lparr>uw_Method := ''GET''\<rparr> else u)
      in if uw_Delay u \<le> 0 then u\<lparr>uw_Delay := 10 * 10 ^ 9\<rparr> else u)"

text \<open>The request of one round, or the error with which the waiter gives up.\<close>

definition waiter_request ::
  "new_request \<Rightarrow> ('m \<Rightarrow> string + bytes) \<Rightarrow> ('m, 's) url_waiter \<Rightarrow> nat \<Rightarrow> call_error option \<Rightarrow> 's \<Rightarrow>
   (call_error option + out_request) \<times> 's"
where
  "waiter_request new_request marshal u iter err s =
     (case uw_RequestFunc u of
        Some f \<Rightarrow>
          (case f iter err s of
             ((None, err), s) \<Rightarrow> (Inl err, s)
           | ((Some req, Some e), s) \<Rightarrow> (Inl (Some e), s)
           | ((Some req, None), s) \<Rightarrow> (Inr req, s))
      | None \<Rightarrow>
          (case NewJsonRequest new_request marshal (uw_Method u) (uw_Url u) (uw_Payload u) of
             Inl e \<Rightarrow> (Inl (Some (TransportErr e)), s)
           | Inr req \<Rightarrow>
               (Inr (req\<lparr>rq_Header := fold (\<lambda>(k, v). header_set k v) (uw_Headers u) (rq_Header req)\<rparr>), s)))"

datatype waiter_round = GiveUp "call_error option" | Reached | TryAgain call_error

definition one_round ::
  "new_request \<Rightarrow> ('m \<Rightarrow> string + bytes) \<Rightarrow> 's transport \<Rightarrow> (bytes \<Rightarrow> string + 'a) \<Rightarrow> 'a \<Rightarrow>
   ('m, 's) url_waiter \<Rightarrow> nat \<Rightarrow> call_error option \<Rightarrow> 's \<Rightarrow> waiter_round \<times> 's"
where
  "one_round new_request marshal do_req unmarshal nil u iter err s =
     (case waiter_request new_request marshal u iter err s of
        (Inl err, s) \<Rightarrow> (GiveUp err, s)
      | (Inr req, s) \<Rightarrow>
          (case Call do_req unmarshal nil (rq_Ctx req) req [WithClient (Some urlPingHttpClient)] s of
             ((resp, Some e), s) \<Rightarrow> (TryAgain e, s)
           | ((resp, None), s) \<Rightarrow> (Reached, s)))"

text \<open>
  The loop returns its named results: \<open>success\<close> is never assigned, so the return after a
  successful call returns its zero value. \<open>pause\<close> is the sleep between the rounds.
\<close>

partial_function (option) waiter_loop ::
  "(nat \<Rightarrow> call_error option \<Rightarrow> 's \<Rightarrow> waiter_round \<times> 's) \<Rightarrow> ('s \<Rightarrow> 's) \<Rightarrow> nat \<Rightarrow> call_error option \<Rightarrow> 's \<Rightarrow>
   ((bool \<times> nat \<times> call_error option) \<times> 's) option"
where
  "waiter_loop turn pause iter err s =
     (case turn iter err s of
        (r, s') \<Rightarrow>
          (case r of
             GiveUp e \<Rightarrow> Some ((False, iter, e), s')
           | Reached \<Rightarrow> Some ((False, iter, None), s')
           | TryAgain e \<Rightarrow> waiter_loop turn pause (Suc iter) (Some e) (pause s')))"

definition URLWaiter_Run ::
  "new_request \<Rightarrow> ('m \<Rightarrow> string + bytes) \<Rightarrow> 's transport \<Rightarrow> (bytes \<Rightarrow> string + 'a) \<Rightarrow> 'a \<Rightarrow> (int \<Rightarrow> 's \<Rightarrow> 's) \<Rightarrow>
   ('m, 's) url_waiter \<Rightarrow> 's \<Rightarrow> ((bool \<times> nat \<times> call_error option) \<times> 's) option"
where
  "URLWaiter_Run new_request marshal do_req unmarshal nil sleep u s =
     (let u = with_defaults u in
      waiter_loop (one_round new_request marshal do_req unmarshal nil u) (sleep (uw_Delay u)) 0 None s)"

section \<open>When it returns\<close>

text \<open>The state and the previous error with which a round begins, as long as every round before failed.\<close>

fun nth_round ::
  "(nat \<Rightarrow> call_error option \<Rightarrow> 's \<Rightarrow> waiter_round \<times> 's) \<Rightarrow> ('s \<Rightarrow> 's) \<Rightarrow> nat \<Rightarrow> nat \<Rightarrow> call_error option \<Rightarrow> 's \<Rightarrow>
   (call_error option \<times> 's) option"
where
  "nth_round turn pause 0 iter err s = Some (err, s)"
| "nth_round turn pause (Suc k) iter err s =
     (case turn iter err s of
        (TryAgain e, s') \<Rightarrow> nth_round turn pause k (Suc iter) (Some e) (pause s')
      | _ \<Rightarrow> None)"

text \<open>Round \<open>k\<close> is the one that ends the loop, with the result it gives.\<close>

definition ends_at ::
  "(nat \<Rightarrow> call_error option \<Rightarrow> 's \<Rightarrow> waiter_round \<times> 's) \<Rightarrow> ('s \<Rightarrow> 's) \<Rightarrow> nat \<Rightarrow> nat \<Rightarrow> call_error option \<Rightarrow> 's \<Rightarrow>
   call_error option \<Rightarrow> 's \<Rightarrow> bool"
where
  "ends_at turn pause k iter err s e s' \<longleftrightarrow>
     (\<exists>err1 s1. nth_round turn pause k iter err s = Some (err1, s1) \<and>
        (turn (iter + k) err1 s1 = (GiveUp e, s') \<or> e = None \<and> turn (iter + k) err1 s1 = (Reached, s')))"

lemma ends_at_0:
  "ends_at turn pause 0 iter err s e s' \<longleftrightarrow> turn iter err s = (GiveUp e, s') \<or> e = None \<and> turn iter err s = (Reached, s')"
  by (simp add: ends_at_def)

lemma ends_at_Suc:
  "ends_at turn pause (Suc k) iter err s e s' \<longleftrightarrow>
     (\<exists>e1 s1. turn iter err s = (TryAgain e1, s1) \<and> ends_at turn pause k (Suc iter) (Some e1) (pause s1) e s')"
  by (auto simp: ends_at_def split: waiter_round.splits prod.splits)

lemma waiter_returns:
  "ends_at turn pause k iter err s e s' \<Longrightarrow> waiter_loop turn pause iter err s = Some ((False, iter + k, e), s')"
proof (induction k arbitrary: iter err s)
  case 0
  then show ?case by (subst waiter_loop.simps) (auto simp: ends_at_0)
next
  case (Suc k)
  then obtain e1 s1 where r: "turn iter err s = (TryAgain e1, s1)"
    and "ends_at turn pause k (Suc iter) (Some e1) (pause s1) e s'"
    by (auto simp: ends_at_Suc)
  then show ?case using Suc.IH by (subst waiter_loop.simps) simp
qed

lemma waiter_returned:
  assumes "waiter_loop turn pause iter err s = Some r"
  shows "\<exists>k e s'. ends_at turn pause k iter err s e s'"
proof (rule waiter_loop.raw_induct
    [where P = "\<lambda>turn pause iter err s r. \<exists>k e s'. ends_at turn pause k iter err s e s'", OF _ assms])
  fix loop :: "(nat \<Rightarrow> call_error option \<Rightarrow> 's \<Rightarrow> waiter_round \<times> 's) \<Rightarrow> ('s \<Rightarrow> 's) \<Rightarrow> nat \<Rightarrow> call_error option \<Rightarrow> 's \<Rightarrow>
     ((bool \<times> nat \<times> call_error option) \<times> 's) option"
    and turn :: "nat \<Rightarrow> call_error option \<Rightarrow> 's \<Rightarrow> waiter_round \<times> 's" and pause iter err s r
  assume IH: "\<And>turn pause iter err s r. loop turn pause iter err s = Some r \<Longrightarrow> \<exists>k e s'. ends_at turn pause k iter err s e s'"
    and eq: "(case turn iter err s of (r, s') \<Rightarrow>
      case r of GiveUp e \<Rightarrow> Some ((False, iter, e), s') | Reached \<Rightarrow> Some ((False, iter, None), s')
      | TryAgain e \<Rightarrow> loop turn pause (Suc iter) (Some e) (pause s')) = Some r"
  obtain w s1 where w: "turn iter err s = (w, s1)" by (cases "turn iter err s")
  show "\<exists>k e s'. ends_at turn pause k iter err s e s'"
  proof (cases w)
    case (TryAgain e1)
    then have "loop turn pause (Suc iter) (Some e1) (pause s1) = Some r" using eq w by simp
    from IH [OF this] obtain k e s' where "ends_at turn pause k (Suc iter) (Some e1) (pause s1) e s'" by blast
    then have "ends_at turn pause (Suc k) iter err s e s'" using w TryAgain by (simp add: ends_at_Suc)
    then show ?thesis by blast
  next
    case (GiveUp e)
    then have "ends_at turn pause 0 iter err s e s1" using w by (simp add: ends_at_0)
    then show ?thesis by blast
  next
    case Reached
    then have "ends_at turn pause 0 iter err s None s1" using w by (simp add: ends_at_0)
    then show ?thesis by blast
  qed
qed


section \<open>A service that comes up\<close>

text \<open>A server that refuses the connection until its third request; the state counts the requests.\<close>

definition third_time :: "nat transport" where
  "third_time c q n = (if n < 2 then (Inl ''connection refused'', n + 1)
     else (Inr \<lparr>StatusCode = 200, resp_hdr = (\<lambda>k. None), resp_src = source_of ''{}'', resp_closed = False\<rparr>, n + 1))"

definition plain_waiter :: "(unit, nat) url_waiter" where
  "plain_waiter = \<lparr>uw_Method = [], uw_Url = ''http://h/'', uw_Headers = [], uw_Payload = None, uw_Delay = 0,
     uw_RequestFunc = None, uw_ValidateFunc = None\<rparr>"

definition plain_new_request :: new_request where
  "plain_new_request m u b = Inr \<lparr>rq_Method = m, rq_URL = u, rq_Header = (\<lambda>k. None), rq_Body = b, rq_Ctx = 0\<rparr>"


text \<open>The documented first result, whether the URL became active, is false even then.\<close>

lemma waiter_never_reports_success:
  assumes "URLWaiter_Run new_request marshal do_req unmarshal nil sleep u s = Some ((success, iter, err), s')"
  shows "\<not> success"
proof -
  let ?turn = "one_round new_request marshal do_req unmarshal nil (with_defaults u)"
  let ?pause = "sleep (uw_Delay (with_defaults u))"
  have run: "waiter_loop ?turn ?pause 0 None s = Some ((success, iter, err), s')"
    using assms by (simp add: URLWaiter_Run_def Let_def)
  from waiter_returned [OF this] obtain k e s'' where "ends_at ?turn ?pause k 0 None s e s''" by blast
  from waiter_returns [OF this] run show ?thesis by simp
qed

text \<open>The validation function is never called: the run does not depend on it.\<close>

lemma waiter_ignores_validation:
  "URLWaiter_Run new_request marshal do_req unmarshal nil sleep (u\<lparr>uw_ValidateFunc := f\<rparr>) s =
   URLWaiter_Run new_request marshal do_req unmarshal nil sleep u s"
proof -
  let ?v = "with_defaults (u\<lparr>uw_ValidateFunc := f\<rparr>)"
  have same: "uw_Method ?v = uw_Method (with_defaults u)" "uw_Url ?v = uw_Url (with_defaults u)"
    "uw_Headers ?v = uw_Headers (with_defaults u)" "uw_Payload ?v = uw_Payload (with_defaults u)"
    "uw_Delay ?v = uw_Delay (with_defaults u)" "uw_RequestFunc ?v = uw_RequestFunc (with_defaults u)"
    by (simp_all add: with_defaults_def Let_def)
  have "one_round new_request marshal do_req unmarshal nil ?v =
      one_round new_request marshal do_req unmarshal nil (with_defaults u)"
    by (intro ext) (simp only: one_round_def waiter_request_def same)
  then show ?thesis by (simp only: URLWaiter_Run_def Let_def same)
qed

end
