(* ===== verification/GrpcConn.thy ===== *)
theory GrpcConn
  imports WsServe
begin

text \<open>
  \<open>grpcws/conn.go\<close>: the JSON envelope of a gRPC stream over a WebSocket, its codec, and the base
  connection with its context, counters and pings. The gRPC stream, protojson and JSON are
  parameters. A context is the list of the cancel scopes it lies in, its own first; it is done when
  one of them has been cancelled.
\<close>

section \<open>Envelopes\<close>

definition TypeData :: string where [simp]: "TypeData = ''data''"
definition TypeError :: string where [simp]: "TypeError = ''error''"
definition TypeStreamEnd :: string where [simp]: "TypeStreamEnd = ''stream_end''"
definition TypePing :: string where [simp]: "TypePing = ''ping''"
definition TypePong :: string where [simp]: "TypePong = ''pong''"
definition TypeCancel :: string where [simp]: "TypeCancel = ''cancel''"
definition TypeEndSend :: string where [simp]: "TypeEndSend = ''end_send''"

record 'd control_message =
  cm_Type :: string
  cm_Data :: "'d option"
  cm_Error :: string
  cm_PingId :: "64 word"

definition control :: "string \<Rightarrow> 'd control_message" where
  "control t = \<lparr>cm_Type = t, cm_Data = None, cm_Error = [], cm_PingId = 0\<rparr>"

text \<open>The codec: the factory of requests and the marshalling functions it calls.\<close>

record ('req, 'resp, 'd) grpc_codec =
  gk_NewRequest :: 'req
  gk_marshal_proto :: "'resp \<Rightarrow> string + bytes"
  gk_unmarshal_proto :: "bytes \<Rightarrow> 'req \<Rightarrow> 'req \<times> string option"
  gk_marshal_json :: "'d option \<Rightarrow> string + bytes"
  gk_unmarshal_json :: "bytes \<Rightarrow> string + 'd option"

definition GRPCWSCodec ::
  "(bytes \<Rightarrow> 'd control_message \<times> string option) \<Rightarrow> ('d control_message \<Rightarrow> string + bytes) \<Rightarrow>
   ('d control_message, 'd control_message) codec"
where
  "GRPCWSCodec unmarshal marshal =
     \<lparr>Decode = (\<lambda>data msgType. unmarshal data), Encode = (\<lambda>msg. tagged TextMessage (marshal msg))\<rparr>"

definition EncodeData :: "('req, 'resp, 'd) grpc_codec \<Rightarrow> 'resp \<Rightarrow> string + 'd control_message" where
  "EncodeData k resp =
     (case gk_marshal_proto k resp of
        Inl e \<Rightarrow> Inl e
      | Inr protoData \<Rightarrow>
          (case gk_unmarshal_json k protoData of
             Inl e \<Rightarrow> Inl e
           | Inr dataMap \<Rightarrow> Inr ((control TypeData)\<lparr>cm_Data := dataMap\<rparr>)))"

definition DecodeRequest :: "('req, 'resp, 'd) grpc_codec \<Rightarrow> 'd control_message \<Rightarrow> 'req \<times> string option" where
  "DecodeRequest k msg =
     (case gk_marshal_json k (cm_Data msg) of
        Inl e \<Rightarrow> (gk_NewRequest k, Some e)
      | Inr dataBytes \<Rightarrow> gk_unmarshal_proto k dataBytes (gk_NewRequest k))"

section \<open>The base connection\<close>

text \<open>
  \<open>gc_cancelled\<close> is the state of the cancel scopes, which the request, the gRPC stream and the
  connection share.
\<close>

record ('d, 'g) grpc_conn =
  gc_base :: "'d control_message base_conn"
  gc_streamCtx :: "nat list"
  gc_cancelFunc :: "nat option"
  gc_ConnectedAt :: int
  gc_MsgsSent :: "64 word"
  gc_MsgsReceived :: "64 word"
  gc_stream :: 'g
  gc_cancelled :: "nat set"

definition ctx_done :: "nat list \<Rightarrow> nat set \<Rightarrow> bool" where
  "ctx_done ctx cancelled \<longleftrightarrow> (\<exists>i \<in> set ctx. i \<in> cancelled)"

definition on_base :: "('d control_message base_conn \<Rightarrow> 'd control_message base_conn) \<Rightarrow> ('d, 'g) grpc_conn \<Rightarrow> ('d, 'g) grpc_conn" where
  "on_base f c = c\<lparr>gc_base := f (gc_base c)\<rparr>"

definition IncrementSent :: "('d, 'g) grpc_conn \<Rightarrow> ('d, 'g) grpc_conn" where
  "IncrementSent c = c\<lparr>gc_MsgsSent := gc_MsgsSent c + 1\<rparr>"

definition IncrementReceived :: "('d, 'g) grpc_conn \<Rightarrow> ('d, 'g) grpc_conn" where
  "IncrementReceived c = c\<lparr>gc_MsgsReceived := gc_MsgsReceived c + 1\<rparr>"

text \<open>\<open>scope\<close> is the fresh cancel scope that \<open>context.WithCancel\<close> makes.\<close>

definition initContext :: "nat list \<Rightarrow> nat \<Rightarrow> int \<Rightarrow> ('d, 'g) grpc_conn \<Rightarrow> ('d, 'g) grpc_conn" where
  "initContext parent scope now c =
     c\<lparr>gc_streamCtx := scope # parent, gc_cancelFunc := Some scope, gc_ConnectedAt := now\<rparr>"

definition grpc_cancel :: "('d, 'g) grpc_conn \<Rightarrow> ('d, 'g) grpc_conn" where
  "grpc_cancel c =
     (case gc_cancelFunc c of
        None \<Rightarrow> c
      | Some i \<Rightarrow> c\<lparr>gc_cancelled := insert i (gc_cancelled c)\<rparr>)"

definition grpc_send :: "'d control_message \<Rightarrow> ('d, 'g) grpc_conn \<Rightarrow> ('d, 'g) grpc_conn" where
  "grpc_send m = on_base (WSSendOutput m)"

definition sendData :: "'d \<Rightarrow> ('d, 'g) grpc_conn \<Rightarrow> ('d, 'g) grpc_conn" where
  "sendData data = grpc_send ((control TypeData)\<lparr>cm_Data := Some data\<rparr>)"

definition sendError :: "string \<Rightarrow> ('d, 'g) grpc_conn \<Rightarrow> ('d, 'g) grpc_conn" where
  "sendError errMsg = grpc_send ((control TypeError)\<lparr>cm_Error := errMsg\<rparr>)"

definition sendStreamEnd :: "('d, 'g) grpc_conn \<Rightarrow> ('d, 'g) grpc_conn" where
  "sendStreamEnd = grpc_send (control TypeStreamEnd)"

definition grpc_OnStart :: "string \<Rightarrow> ('d, 'g) grpc_conn \<Rightarrow> string option \<times> ('d, 'g) grpc_conn" where
  "grpc_OnStart rnd c = (case WSOnStart rnd (gc_base c) of (e, b) \<Rightarrow> (e, c\<lparr>gc_base := b\<rparr>))"

definition grpc_SendPing :: "('d, 'g) grpc_conn \<Rightarrow> string option \<times> ('d, 'g) grpc_conn" where
  "grpc_SendPing c =
     (let c = on_base (\<lambda>b. b\<lparr>PingId := PingId b + 1\<rparr>) c in
      (None, grpc_send ((control TypePing)\<lparr>cm_PingId := PingId (gc_base c)\<rparr>) c))"

definition grpc_OnClose :: "string \<Rightarrow> ('d, 'g) grpc_conn \<Rightarrow> ('d, 'g) grpc_conn" where
  "grpc_OnClose rnd c = on_base (WSOnClose rnd) (grpc_cancel c)"

section \<open>What a connection has sent\<close>

definition call_envelopes :: "'d control_message outgoing_message writer_call \<Rightarrow> 'd control_message list" where
  "call_envelopes k = (case k of WSend m \<Rightarrow> (case og_Data m of Some e \<Rightarrow> [e] | None \<Rightarrow> []) | WStop \<Rightarrow> [])"

definition envelopes :: "('d, 'g) grpc_conn \<Rightarrow> 'd control_message list" where
  "envelopes c = (case WSWriter (gc_base c) of None \<Rightarrow> [] | Some ks \<Rightarrow> concat (map call_envelopes ks))"

definition running :: "('d, 'g) grpc_conn \<Rightarrow> bool" where
  "running c \<longleftrightarrow> WSWriter (gc_base c) \<noteq> None"

lemma on_base_frame [simp, go_state]:
  "gc_base (on_base f c) = f (gc_base c)" "gc_streamCtx (on_base f c) = gc_streamCtx c"
  "gc_cancelFunc (on_base f c) = gc_cancelFunc c" "gc_MsgsSent (on_base f c) = gc_MsgsSent c"
  "gc_MsgsReceived (on_base f c) = gc_MsgsReceived c" "gc_stream (on_base f c) = gc_stream c"
  "gc_cancelled (on_base f c) = gc_cancelled c"
  by (simp_all add: on_base_def)

lemma WSSendOutput_frame [simp]:
  "WSWriter (WSSendOutput m b) = map_option (\<lambda>ks. ks @ [WSend (no_message\<lparr>og_Data := Some m\<rparr>)]) (WSWriter b)"
  "PingId (WSSendOutput m b) = PingId b"
  by (simp_all add: WSSendOutput_def)

lemma WSOnClose_frame [simp]:
  "WSWriter (WSOnClose rnd b) = map_option (\<lambda>ks. ks @ [WStop]) (WSWriter b)"
  by (simp add: WSOnClose_def)

lemma grpc_send_frame [simp, go_state]:
  "gc_streamCtx (grpc_send m c) = gc_streamCtx c" "gc_cancelFunc (grpc_send m c) = gc_cancelFunc c"
  "gc_MsgsSent (grpc_send m c) = gc_MsgsSent c" "gc_MsgsReceived (grpc_send m c) = gc_MsgsReceived c"
  "gc_stream (grpc_send m c) = gc_stream c" "gc_cancelled (grpc_send m c) = gc_cancelled c"
  "PingId (gc_base (grpc_send m c)) = PingId (gc_base c)"
  by (simp_all add: grpc_send_def)

lemma envelopes_send [simp]: "running c \<Longrightarrow> envelopes (grpc_send m c) = envelopes c @ [m]"
  by (auto simp: envelopes_def grpc_send_def running_def call_envelopes_def no_message_def)

lemma running_keeps [simp]:
  "running (grpc_send m c) = running c" "running (grpc_cancel c) = running c"
  "running (on_base (\<lambda>b. snd (WSConnId rnd b)) c) = running c"
  by (auto simp: running_def grpc_send_def grpc_cancel_def split: option.split)

lemma envelopes_keep [simp]:
  "envelopes (grpc_cancel c) = envelopes c" "envelopes (on_base (\<lambda>b. snd (WSConnId rnd b)) c) = envelopes c"
  by (simp_all add: envelopes_def grpc_cancel_def split: option.split)

lemma grpc_cancel_frame [simp, go_state]:
  "gc_base (grpc_cancel c) = gc_base c" "gc_streamCtx (grpc_cancel c) = gc_streamCtx c"
  "gc_MsgsSent (grpc_cancel c) = gc_MsgsSent c" "gc_MsgsReceived (grpc_cancel c) = gc_MsgsReceived c"
  "gc_stream (grpc_cancel c) = gc_stream c"
  by (simp_all add: grpc_cancel_def split: option.split)

lemma increments [simp, go_state]:
  "gc_base (IncrementSent c) = gc_base c" "gc_MsgsSent (IncrementSent c) = gc_MsgsSent c + 1"
  "gc_stream (IncrementSent c) = gc_stream c" "gc_streamCtx (IncrementSent c) = gc_streamCtx c"
  "gc_cancelled (IncrementSent c) = gc_cancelled c" "gc_MsgsReceived (IncrementSent c) = gc_MsgsReceived c"
  "gc_base (IncrementReceived c) = gc_base c" "gc_MsgsReceived (IncrementReceived c) = gc_MsgsReceived c + 1"
  "gc_stream (IncrementReceived c) = gc_stream c" "gc_MsgsSent (IncrementReceived c) = gc_MsgsSent c"
  "gc_streamCtx (IncrementReceived c) = gc_streamCtx c" "gc_cancelled (IncrementReceived c) = gc_cancelled c"
  "running (IncrementSent c) = running c" "running (IncrementReceived c) = running c"
  "envelopes (IncrementSent c) = envelopes c" "envelopes (IncrementReceived c) = envelopes c"
  by (simp_all add: IncrementSent_def IncrementReceived_def running_def envelopes_def)

lemma grpc_OnClose_frame [simp, go_state]:
  "envelopes (grpc_OnClose rnd c) = envelopes c" "running (grpc_OnClose rnd c) = running c"
  "gc_MsgsSent (grpc_OnClose rnd c) = gc_MsgsSent c" "gc_stream (grpc_OnClose rnd c) = gc_stream c"
  "gc_streamCtx (grpc_OnClose rnd c) = gc_streamCtx c"
  by (auto simp: grpc_OnClose_def envelopes_def running_def call_envelopes_def split: option.split)

lemma grpc_SendPing_frame [simp, go_state]:
  "running (snd (grpc_SendPing c)) = running c" "gc_MsgsSent (snd (grpc_SendPing c)) = gc_MsgsSent c"
  "gc_streamCtx (snd (grpc_SendPing c)) = gc_streamCtx c" "gc_stream (snd (grpc_SendPing c)) = gc_stream c"
  "PingId (gc_base (snd (grpc_SendPing c))) = PingId (gc_base c) + 1" "fst (grpc_SendPing c) = None"
  by (simp_all add: grpc_SendPing_def Let_def) (simp add: running_def)

lemma envelopes_SendPing [simp]:
  "running c \<Longrightarrow> envelopes (snd (grpc_SendPing c)) =
     envelopes c @ [(control TypePing)\<lparr>cm_PingId := PingId (gc_base c) + 1\<rparr>]"
  by (auto simp: grpc_SendPing_def grpc_send_def Let_def running_def envelopes_def call_envelopes_def no_message_def)

lemma EncodeData_type: "EncodeData k v = Inr m \<Longrightarrow> cm_Type m = TypeData"
  by (auto simp: EncodeData_def control_def split: sum.splits)

section \<open>Pings in the envelope\<close>

text \<open>The pings among the envelopes: the connection keeps the contract of a connection that numbers its pings.\<close>

definition grpc_pings :: "('d, 'g) grpc_conn \<Rightarrow> 64 word list" where
  "grpc_pings c = map cm_PingId (filter (\<lambda>m. cm_Type m = TypePing) (envelopes c))"

text \<open>
  A handler of messages that leaves the pings alone gives, with the base connection's other
  methods, the operations that the WebSocket loop calls.
\<close>

definition grpc_ops ::
  "string \<Rightarrow> ('d control_message \<Rightarrow> ('d, 'g) grpc_conn \<Rightarrow> string option \<times> ('d, 'g) grpc_conn) \<Rightarrow>
   ('d control_message, ('d, 'g) grpc_conn) ws_ops"
where
  "grpc_ops rnd handle =
     \<lparr>op_OnStart = grpc_OnStart rnd, op_SendPing = grpc_SendPing, op_HandleMessage = handle,
      op_OnError = (\<lambda>err c. (fst (OnError err (gc_base c)), c)),
      op_OnTimeout = (\<lambda>c. (fst (OnTimeout (gc_base c)), c)), op_OnClose = grpc_OnClose rnd\<rparr>"

end
