(* ===== verification/GrpcStreams.thy ===== *)
theory GrpcStreams
  imports GrpcConn
begin

text \<open>
  \<open>grpcws/server_stream.go\<close>, \<open>client_stream.go\<close> and \<open>bidi_stream.go\<close>: the three kinds of
  connections between a gRPC stream and a WebSocket, their handlers of client messages, and the
  goroutine that forwards responses. That goroutine runs beside the WebSocket loop, so a session is
  a step relation over both.
\<close>

section \<open>Forwarding responses\<close>

datatype 'resp received = Resp 'resp | RecvEOF | RecvErr string

text \<open>
  Where the forwarding goroutine stands: waiting in Recv, holding an error that it will report
  unless the context is done, or returned.
\<close>

datatype forwarder = Receiving | Deciding string | Stopped

definition forward_recv ::
  "('req, 'resp, 'd) grpc_codec \<Rightarrow> 'resp received \<Rightarrow> ('d, 'g) grpc_conn \<Rightarrow> forwarder \<times> ('d, 'g) grpc_conn" where
  "forward_recv codec r c =
     (case r of
        RecvEOF \<Rightarrow> (Stopped, sendStreamEnd c)
      | RecvErr e \<Rightarrow> (Deciding e, c)
      | Resp resp \<Rightarrow>
          (case EncodeData codec resp of
             Inl e \<Rightarrow> (Stopped, sendError e c)
           | Inr dataMsg \<Rightarrow> (Receiving, grpc_send dataMsg (IncrementSent c))))"

definition forward_decide :: "string \<Rightarrow> ('d, 'g) grpc_conn \<Rightarrow> forwarder \<times> ('d, 'g) grpc_conn" where
  "forward_decide e c =
     (if ctx_done (gc_streamCtx c) (gc_cancelled c) then (Stopped, c) else (Stopped, sendError e c))"

section \<open>Messages from the client\<close>

text \<open>The methods of the gRPC stream that the handlers call, on the stream's state.\<close>

record ('req, 'resp, 'g) stream_ops =
  so_Send :: "'req \<Rightarrow> 'g \<Rightarrow> string option \<times> 'g"
  so_CloseSend :: "'g \<Rightarrow> string option \<times> 'g"
  so_CloseAndRecv :: "'g \<Rightarrow> (string + 'resp) \<times> 'g"

text \<open>Logging a client's id generates it when there is none.\<close>

definition log_conn :: "string \<Rightarrow> ('d, 'g) grpc_conn \<Rightarrow> ('d, 'g) grpc_conn" where
  "log_conn rnd = on_base (\<lambda>b. snd (WSConnId rnd b))"

definition ServerStream_HandleMessage ::
  "string \<Rightarrow> 'd control_message \<Rightarrow> ('d, 'g) grpc_conn \<Rightarrow> string option \<times> ('d, 'g) grpc_conn" where
  "ServerStream_HandleMessage rnd msg c =
     (if cm_Type msg = TypePong then (None, log_conn rnd c)
      else if cm_Type msg = TypeCancel then (None, grpc_cancel (log_conn rnd c))
      else (None, c))"

text \<open>The arm for a data message, which client and bidirectional streams share.\<close>

definition handle_data ::
  "('req, 'resp, 'd) grpc_codec \<Rightarrow> ('req, 'resp, 'g) stream_ops \<Rightarrow> 'd control_message \<Rightarrow> ('d, 'g) grpc_conn \<Rightarrow>
   string option \<times> ('d, 'g) grpc_conn"
where
  "handle_data codec ops msg c =
     (case DecodeRequest codec msg of
        (req, Some e) \<Rightarrow> (None, sendError e c)
      | (req, None) \<Rightarrow>
          (case so_Send ops req (gc_stream c) of
             (Some e, g) \<Rightarrow> (Some e, sendError e (c\<lparr>gc_stream := g\<rparr>))
           | (None, g) \<Rightarrow> (None, IncrementReceived (c\<lparr>gc_stream := g\<rparr>))))"

definition ClientStream_HandleMessage ::
  "('req, 'resp, 'd) grpc_codec \<Rightarrow> ('req, 'resp, 'g) stream_ops \<Rightarrow> string \<Rightarrow> 'd control_message \<Rightarrow>
   ('d, 'g) grpc_conn \<Rightarrow> string option \<times> ('d, 'g) grpc_conn"
where
  "ClientStream_HandleMessage codec ops rnd msg c =
     (if cm_Type msg = TypeData then handle_data codec ops msg c
      else if cm_Type msg = TypeEndSend then
        (case so_CloseAndRecv ops (gc_stream c) of
           (Inl e, g) \<Rightarrow> (Some e, sendError e (c\<lparr>gc_stream := g\<rparr>))
         | (Inr resp, g) \<Rightarrow>
             (case EncodeData codec resp of
                Inl e \<Rightarrow> (Some e, sendError e (c\<lparr>gc_stream := g\<rparr>))
              | Inr dataMsg \<Rightarrow> (None, sendStreamEnd (grpc_send dataMsg (IncrementSent (c\<lparr>gc_stream := g\<rparr>))))))
      else if cm_Type msg = TypePong then (None, log_conn rnd c)
      else if cm_Type msg = TypeCancel then (None, grpc_cancel (log_conn rnd c))
      else (None, c))"

definition BidiStream_HandleMessage ::
  "('req, 'resp, 'd) grpc_codec \<Rightarrow> ('req, 'resp, 'g) stream_ops \<Rightarrow> string \<Rightarrow> 'd control_message \<Rightarrow>
   ('d, 'g) grpc_conn \<Rightarrow> string option \<times> ('d, 'g) grpc_conn"
where
  "BidiStream_HandleMessage codec ops rnd msg c =
     (if cm_Type msg = TypeData then handle_data codec ops msg c
      else if cm_Type msg = TypeEndSend then
        (case so_CloseSend ops (gc_stream c) of
           (Some e, g) \<Rightarrow> (Some e, sendError e (c\<lparr>gc_stream := g\<rparr>))
         | (None, g) \<Rightarrow> (None, log_conn rnd (c\<lparr>gc_stream := g\<rparr>)))
      else if cm_Type msg = TypePong then (None, log_conn rnd c)
      else if cm_Type msg = TypeCancel then (None, grpc_cancel (log_conn rnd c))
      else (None, c))"

section \<open>Handlers\<close>

text \<open>
  A fresh connection. \<open>scope\<close> and the next number are the cancel scopes that Validate makes: the
  first for the gRPC stream, the second inside it by initContext, whose cancel function is then
  replaced by that of the first.
\<close>

definition new_grpc_conn :: "string \<Rightarrow> nat list \<Rightarrow> nat \<Rightarrow> int \<Rightarrow> 'g \<Rightarrow> nat set \<Rightarrow> ('d, 'g) grpc_conn" where
  "new_grpc_conn name reqCtx scope now stream cancelled =
     (initContext (scope # reqCtx) (Suc scope) now
        \<lparr>gc_base = new_base_conn name [], gc_streamCtx = [], gc_cancelFunc = None, gc_ConnectedAt = 0,
         gc_MsgsSent = 0, gc_MsgsReceived = 0, gc_stream = stream, gc_cancelled = cancelled\<rparr>)
     \<lparr>gc_cancelFunc := Some scope\<rparr>"

text \<open>
  \<open>create\<close> makes the gRPC stream in the context it is given. A handler that fails gives the
  scopes it cancelled and the response.
\<close>

definition create_or_fail ::
  "string \<Rightarrow> (nat list \<Rightarrow> string + 'g) \<Rightarrow> nat list \<Rightarrow> nat \<Rightarrow> int \<Rightarrow> nat set \<Rightarrow> ('b, 'x) world \<Rightarrow>
   ('d, 'g) grpc_conn option \<times> nat set \<times> ('b, 'x) world"
where
  "create_or_fail name create reqCtx scope now cancelled w =
     (case create (scope # reqCtx) of
        Inl e \<Rightarrow> (None, insert scope cancelled, http_Error e 500 w)
      | Inr g \<Rightarrow> (Some (new_grpc_conn name reqCtx scope now g cancelled), cancelled, w))"

definition ServerStream_Validate ::
  "(request \<Rightarrow> string + 'req) \<Rightarrow> (nat list \<Rightarrow> 'req \<Rightarrow> string + 'g) \<Rightarrow> request \<Rightarrow> nat list \<Rightarrow> nat \<Rightarrow> int \<Rightarrow>
   nat set \<Rightarrow> ('b, 'x) world \<Rightarrow> ('d, 'g) grpc_conn option \<times> nat set \<times> ('b, 'x) world"
where
  "ServerStream_Validate parse create r reqCtx scope now cancelled w =
     (case parse r of
        Inl e \<Rightarrow> (None, cancelled, http_Error e 400 w)
      | Inr req \<Rightarrow> create_or_fail ''ServerStreamConn'' (\<lambda>ctx. create ctx req) reqCtx scope now cancelled w)"

definition ClientStream_Validate ::
  "(nat list \<Rightarrow> string + 'g) \<Rightarrow> request \<Rightarrow> nat list \<Rightarrow> nat \<Rightarrow> int \<Rightarrow> nat set \<Rightarrow> ('b, 'x) world \<Rightarrow>
   ('d, 'g) grpc_conn option \<times> nat set \<times> ('b, 'x) world"
where
  "ClientStream_Validate create r = create_or_fail ''ClientStreamConn'' create"

definition BidiStream_Validate ::
  "(nat list \<Rightarrow> string + 'g) \<Rightarrow> request \<Rightarrow> nat list \<Rightarrow> nat \<Rightarrow> int \<Rightarrow> nat set \<Rightarrow> ('b, 'x) world \<Rightarrow>
   ('d, 'g) grpc_conn option \<times> nat set \<times> ('b, 'x) world"
where
  "BidiStream_Validate create r = create_or_fail ''BidiStreamConn'' create"

section \<open>Sessions\<close>

text \<open>
  A session of a server or bidirectional stream after OnStart: the connection, the forwarder, and
  what Recv has returned so far. The WebSocket loop, the forwarder and the owners of the enclosing
  contexts take their steps in any order.
\<close>

record ('d, 'g, 'resp) grpc_session =
  ss_conn :: "('d, 'g) grpc_conn"
  ss_forwarder :: forwarder
  ss_received :: "'resp received list"

definition session_start :: "string \<Rightarrow> ('d, 'g) grpc_conn \<Rightarrow> ('d, 'g, 'resp) grpc_session" where
  "session_start rnd c = \<lparr>ss_conn = snd (grpc_OnStart rnd c), ss_forwarder = Receiving, ss_received = []\<rparr>"

inductive session_step ::
  "('req, 'resp, 'd) grpc_codec \<Rightarrow>
   ('d control_message \<Rightarrow> ('d, 'g) grpc_conn \<Rightarrow> string option \<times> ('d, 'g) grpc_conn) \<Rightarrow> string \<Rightarrow>
   ('d, 'g, 'resp) grpc_session \<Rightarrow> ('d, 'g, 'resp) grpc_session \<Rightarrow> bool"
  for codec handle rnd
where
  receive: "ss_forwarder s = Receiving \<Longrightarrow> forward_recv codec r (ss_conn s) = (p, c) \<Longrightarrow>
    session_step codec handle rnd s (s\<lparr>ss_conn := c, ss_forwarder := p, ss_received := ss_received s @ [r]\<rparr>)"
| decide: "ss_forwarder s = Deciding e \<Longrightarrow> forward_decide e (ss_conn s) = (p, c) \<Longrightarrow>
    session_step codec handle rnd s (s\<lparr>ss_conn := c, ss_forwarder := p\<rparr>)"
| message: "handle m (ss_conn s) = (e, c) \<Longrightarrow> session_step codec handle rnd s (s\<lparr>ss_conn := c\<rparr>)"
| ping: "session_step codec handle rnd s (s\<lparr>ss_conn := snd (grpc_SendPing (ss_conn s))\<rparr>)"
| close: "session_step codec handle rnd s (s\<lparr>ss_conn := grpc_OnClose rnd (ss_conn s)\<rparr>)"
| outer_cancel: "session_step codec handle rnd s
    (s\<lparr>ss_conn := (ss_conn s)\<lparr>gc_cancelled := insert i (gc_cancelled (ss_conn s))\<rparr>\<rparr>)"

inductive_cases session_stepE: "session_step codec handle rnd s s'"

definition session_reach ::
  "('req, 'resp, 'd) grpc_codec \<Rightarrow>
   ('d control_message \<Rightarrow> ('d, 'g) grpc_conn \<Rightarrow> string option \<times> ('d, 'g) grpc_conn) \<Rightarrow> string \<Rightarrow>
   ('d, 'g) grpc_conn \<Rightarrow> ('d, 'g, 'resp) grpc_session \<Rightarrow> bool"
where
  "session_reach codec handle rnd c s = rtranclp (session_step codec handle rnd) (session_start rnd c) s"

section \<open>The specification of the forwarder\<close>

text \<open>What the client must see of the responses: each in its envelope, and the end of the stream.\<close>

fun forwarded :: "('req, 'resp, 'd) grpc_codec \<Rightarrow> 'resp received list \<Rightarrow> 'd control_message list" where
  "forwarded codec [] = []"
| "forwarded codec (Resp v # rs) = (case EncodeData codec v of Inl e \<Rightarrow> [] | Inr m \<Rightarrow> m # forwarded codec rs)"
| "forwarded codec (RecvEOF # rs) = [control TypeStreamEnd]"
| "forwarded codec (RecvErr e # rs) = []"

definition encodable :: "('req, 'resp, 'd) grpc_codec \<Rightarrow> 'resp received \<Rightarrow> bool" where
  "encodable codec r \<longleftrightarrow> (\<exists>v m. r = Resp v \<and> EncodeData codec v = Inr m)"

definition stream_part :: "('d, 'g) grpc_conn \<Rightarrow> 'd control_message list" where
  "stream_part c = filter (\<lambda>m. cm_Type m = TypeData \<or> cm_Type m = TypeStreamEnd) (envelopes c)"

lemma forwarded_append:
  "list_all (encodable codec) rs \<Longrightarrow> forwarded codec (rs @ rs') = forwarded codec rs @ forwarded codec rs'"
  by (induction rs) (auto simp: encodable_def)

lemma stream_part_send [simp]:
  "running c \<Longrightarrow> stream_part (grpc_send m c) =
     (if cm_Type m = TypeData \<or> cm_Type m = TypeStreamEnd then stream_part c @ [m] else stream_part c)"
  by (simp add: stream_part_def)

lemma stream_part_errors [simp]:
  "running c \<Longrightarrow> stream_part (sendError e c) = stream_part c"
  "running c \<Longrightarrow> stream_part (sendStreamEnd c) = stream_part c @ [control TypeStreamEnd]"
  by (simp_all add: sendError_def sendStreamEnd_def control_def)

lemma stream_part_keep [simp]:
  "stream_part (grpc_cancel c) = stream_part c" "stream_part (log_conn rnd c) = stream_part c"
  "stream_part (grpc_OnClose rnd c) = stream_part c" "stream_part (IncrementSent c) = stream_part c"
  "stream_part (IncrementReceived c) = stream_part c" "stream_part (c\<lparr>gc_stream := g\<rparr>) = stream_part c"
  "stream_part (c\<lparr>gc_cancelled := S\<rparr>) = stream_part c"
  "running c \<Longrightarrow> stream_part (snd (grpc_SendPing c)) = stream_part c"
  by (simp_all add: stream_part_def log_conn_def control_def) (simp_all add: envelopes_def)

lemma running_other [simp]:
  "running (sendError e c) = running c" "running (sendStreamEnd c) = running c" "running (log_conn rnd c) = running c"
  "running (c\<lparr>gc_stream := g\<rparr>) = running c" "running (c\<lparr>gc_cancelled := S\<rparr>) = running c"
  by (simp_all add: sendError_def sendStreamEnd_def log_conn_def) (simp_all add: running_def)

lemma sent_other [simp]:
  "gc_MsgsSent (sendError e c) = gc_MsgsSent c" "gc_MsgsSent (sendStreamEnd c) = gc_MsgsSent c"
  "gc_MsgsSent (log_conn rnd c) = gc_MsgsSent c"
  "gc_MsgsReceived (sendError e c) = gc_MsgsReceived c" "gc_MsgsReceived (log_conn rnd c) = gc_MsgsReceived c"
  "gc_stream (sendError e c) = gc_stream c" "gc_stream (log_conn rnd c) = gc_stream c"
  "gc_stream (sendStreamEnd c) = gc_stream c" "gc_MsgsReceived (sendStreamEnd c) = gc_MsgsReceived c"
  by (simp_all add: sendError_def sendStreamEnd_def log_conn_def)

text \<open>
  The contract of a handler of client messages beside a forwarder: it sends no data and no end of
  stream of its own and leaves the counter of sent messages alone.
\<close>

locale control_only =
  fixes handle :: "'d control_message \<Rightarrow> ('d, 'g) grpc_conn \<Rightarrow> string option \<times> ('d, 'g) grpc_conn"
  assumes handle_control: "running c \<Longrightarrow> handle m c = (e, c') \<Longrightarrow>
    running c' \<and> stream_part c' = stream_part c \<and> gc_MsgsSent c' = gc_MsgsSent c"
begin

definition session_inv :: "('req, 'resp, 'd) grpc_codec \<Rightarrow> ('d, 'g, 'resp) grpc_session \<Rightarrow> bool" where
  "session_inv codec s \<longleftrightarrow>
     running (ss_conn s) \<and>
     stream_part (ss_conn s) = forwarded codec (ss_received s) \<and>
     gc_MsgsSent (ss_conn s) = of_nat (length (filter (encodable codec) (ss_received s))) \<and>
     list_all (encodable codec) (butlast (ss_received s)) \<and>
     (ss_forwarder s = Receiving \<longleftrightarrow> list_all (encodable codec) (ss_received s)) \<and>
     (\<forall>e. ss_forwarder s = Deciding e \<longrightarrow> ss_received s \<noteq> [] \<and> last (ss_received s) = RecvErr e)"

lemma session_inv_start:
  "session_inv codec (session_start rnd (new_grpc_conn name ctx scope now g cancelled))"
  by (simp add: session_inv_def session_start_def grpc_OnStart_def new_grpc_conn_def initContext_def WSOnStart_def
    Let_def running_def stream_part_def envelopes_def)

lemma session_inv_receive:
  assumes "session_inv codec s" and "ss_forwarder s = Receiving" and "forward_recv codec r (ss_conn s) = (p, c)"
  shows "session_inv codec (s\<lparr>ss_conn := c, ss_forwarder := p, ss_received := ss_received s @ [r]\<rparr>)"
proof -
  have all: "list_all (encodable codec) (ss_received s)" using assms(1,2) by (simp add: session_inv_def)
  note app = forwarded_append [OF all, of "[r]"]
  show ?thesis
  proof (cases r)
    case (Resp v)
    show ?thesis
    proof (cases "EncodeData codec v")
      case (Inl e)
      then have "\<not> encodable codec r" using Resp by (simp add: encodable_def)
      then show ?thesis using assms all app Resp Inl by (auto simp: session_inv_def forward_recv_def)
    next
      case (Inr m)
      then have "encodable codec r" using Resp by (simp add: encodable_def)
      then show ?thesis
        using assms all app Resp Inr EncodeData_type [OF Inr]
        by (auto simp: session_inv_def forward_recv_def butlast_append)
    qed
  next
    case RecvEOF
    then have "\<not> encodable codec r" by (simp add: encodable_def)
    then show ?thesis using assms all app RecvEOF by (auto simp: session_inv_def forward_recv_def)
  next
    case (RecvErr e)
    then have "\<not> encodable codec r" by (simp add: encodable_def)
    then show ?thesis using assms all app RecvErr by (auto simp: session_inv_def forward_recv_def)
  qed
qed

lemma session_inv_step:
  assumes "session_inv codec s" and "session_step codec handle rnd s s'"
  shows "session_inv codec s'"
  using assms(2)
proof (cases rule: session_step.cases)
  case (receive r p c)
  then show ?thesis using session_inv_receive [OF assms(1)] by simp
next
  case (decide e p c)
  then have "p = Stopped" "running (ss_conn s) \<Longrightarrow> running c \<and> stream_part c = stream_part (ss_conn s)"
    "gc_MsgsSent c = gc_MsgsSent (ss_conn s)"
    by (auto simp: forward_decide_def split: if_splits)
  then show ?thesis using assms(1) decide by (auto simp: session_inv_def)
next
  case (message m e c)
  then show ?thesis using assms(1) handle_control [of "ss_conn s" m e c] by (simp add: session_inv_def)
qed (use assms(1) in \<open>auto simp: session_inv_def\<close>)

lemma session_inv_reach:
  assumes "session_reach codec handle rnd (new_grpc_conn name ctx scope now g cancelled) s"
  shows "session_inv codec s"
  using assms unfolding session_reach_def
  by (induction rule: rtranclp_induct) (auto intro: session_inv_start session_inv_step)

end

interpretation server_stream: control_only "ServerStream_HandleMessage rnd"
  by unfold_locales (auto simp: ServerStream_HandleMessage_def split: if_splits)

interpretation bidi_stream: control_only "BidiStream_HandleMessage codec ops rnd"
  by unfold_locales (auto simp: BidiStream_HandleMessage_def handle_data_def split: if_splits prod.splits option.splits)


text \<open>
  The other contract, of all three kinds: no handler of client messages sends a ping or touches the
  ping counter, so under the WebSocket loop the connection numbers its pings.
\<close>

locale ping_neutral =
  fixes handle :: "'d control_message \<Rightarrow> ('d, 'g) grpc_conn \<Rightarrow> string option \<times> ('d, 'g) grpc_conn" and rnd :: string
  assumes no_pings: "running c \<Longrightarrow> handle m c = (e, c') \<Longrightarrow>
    running c' \<and> PingId (gc_base c') = PingId (gc_base c) \<and> grpc_pings c' = grpc_pings c"
begin

end

lemma grpc_pings_simps [simp]:
  "running c \<Longrightarrow> grpc_pings (grpc_send m c) = grpc_pings c @ (if cm_Type m = TypePing then [cm_PingId m] else [])"
  "running c \<Longrightarrow> grpc_pings (sendError e c) = grpc_pings c" "running c \<Longrightarrow> grpc_pings (sendStreamEnd c) = grpc_pings c"
  "grpc_pings (grpc_cancel c) = grpc_pings c" "grpc_pings (log_conn rnd c) = grpc_pings c"
  "grpc_pings (grpc_OnClose rnd c) = grpc_pings c" "grpc_pings (c\<lparr>gc_stream := g\<rparr>) = grpc_pings c"
  "grpc_pings (IncrementSent c) = grpc_pings c" "grpc_pings (IncrementReceived c) = grpc_pings c"
  by (simp_all add: grpc_pings_def sendError_def sendStreamEnd_def log_conn_def control_def) (simp add: envelopes_def)

lemma PingId_other [simp]:
  "PingId (gc_base (sendError e c)) = PingId (gc_base c)" "PingId (gc_base (sendStreamEnd c)) = PingId (gc_base c)"
  "PingId (gc_base (log_conn rnd c)) = PingId (gc_base c)"
  by (simp_all add: sendError_def sendStreamEnd_def log_conn_def)

sublocale ping_neutral \<subseteq> pinging "grpc_ops rnd handle" "\<lambda>c. PingId (gc_base c)" grpc_pings running
proof unfold_locales
  fix c c' e
  assume "running c" and "op_SendPing (grpc_ops rnd handle) c = (e, c')"
  then have "c' = snd (grpc_SendPing c)" by (simp add: grpc_ops_def)
  with \<open>running c\<close> show "running c' \<and> PingId (gc_base c') = PingId (gc_base c) + 1 \<and>
      grpc_pings c' = grpc_pings c @ [PingId (gc_base c) + 1]"
    by (simp add: grpc_pings_def control_def)
qed (auto simp: grpc_ops_def OnError_def OnTimeout_def dest: no_pings)

interpretation server_pings: ping_neutral "ServerStream_HandleMessage rnd" rnd
  by unfold_locales (auto simp: ServerStream_HandleMessage_def split: if_splits)

interpretation client_pings: ping_neutral "ClientStream_HandleMessage codec ops rnd" rnd
  by unfold_locales (auto simp: ClientStream_HandleMessage_def handle_data_def dest!: EncodeData_type
    split: if_splits prod.splits option.splits sum.splits)

interpretation bidi_pings: ping_neutral "BidiStream_HandleMessage codec ops rnd" rnd
  by unfold_locales (auto simp: BidiStream_HandleMessage_def handle_data_def
    split: if_splits prod.splits option.splits)

end
