(* ===== verification/GrpcProps.thy ===== *)
theory GrpcProps
  imports GrpcStreams
begin

text \<open>
  The properties of the gRPC streams over WebSocket: what reaches the client, what reaches the gRPC
  stream, the heartbeat, and the scope of a cancellation.
\<close>

section \<open>Downstream\<close>

lemma WSOnStart_new:
  "grpc_OnStart rnd (new_grpc_conn n ctx scope t g cancelled) = (None, snd (grpc_OnStart rnd (new_grpc_conn n ctx scope t g cancelled)))"
  by (simp add: grpc_OnStart_def new_grpc_conn_def initContext_def WSOnStart_def Let_def)


definition sample_codec :: "(unit, string, string) grpc_codec" where
  "sample_codec = \<lparr>gk_NewRequest = (), gk_marshal_proto = Inr, gk_unmarshal_proto = (\<lambda>b r. ((), None)),
     gk_marshal_json = (\<lambda>d. Inr (case d of None \<Rightarrow> [] | Some d \<Rightarrow> d)), gk_unmarshal_json = (\<lambda>b. Inr (Some b))\<rparr>"

definition sample_conn :: "(string, unit) grpc_conn" where
  "sample_conn = new_grpc_conn ''ServerStreamConn'' [0] 1 5 () {}"

definition sample_session :: "(string, unit, string) grpc_session" where
  "sample_session =
     (let s = session_start ''r'' sample_conn;
          s = s\<lparr>ss_conn := grpc_send ((control TypeData)\<lparr>cm_Data := Some ''a''\<rparr>) (IncrementSent (ss_conn s)),
                ss_forwarder := Receiving, ss_received := [Resp ''a'']\<rparr>
      in s\<lparr>ss_conn := sendStreamEnd (ss_conn s), ss_forwarder := Stopped, ss_received := [Resp ''a'', RecvEOF]\<rparr>)"

lemma sample_session_reach:
  "session_reach sample_codec (ServerStream_HandleMessage ''r'') ''r'' sample_conn sample_session"
proof -
  let ?s0 = "session_start ''r'' sample_conn :: (string, unit, string) grpc_session"
  let ?c1 = "grpc_send ((control TypeData)\<lparr>cm_Data := Some ''a''\<rparr>) (IncrementSent (ss_conn ?s0))"
  let ?s1 = "?s0\<lparr>ss_conn := ?c1, ss_forwarder := Receiving, ss_received := ss_received ?s0 @ [Resp ''a'']\<rparr>"
  let ?s2 = "?s1\<lparr>ss_conn := sendStreamEnd ?c1, ss_forwarder := Stopped, ss_received := ss_received ?s1 @ [RecvEOF]\<rparr>"
  have 1: "session_step sample_codec (ServerStream_HandleMessage ''r'') ''r'' ?s0 ?s1"
    by (rule session_step.receive) (simp_all add: session_start_def forward_recv_def EncodeData_def sample_codec_def)
  have 2: "session_step sample_codec (ServerStream_HandleMessage ''r'') ''r'' ?s1 ?s2"
    by (rule session_step.receive) (simp_all add: session_start_def forward_recv_def)
  have "?s2 = sample_session" by (simp add: sample_session_def Let_def session_start_def)
  moreover have "rtranclp (session_step sample_codec (ServerStream_HandleMessage ''r'') ''r'') ?s0 ?s2"
    using r_into_rtranclp [of "session_step sample_codec (ServerStream_HandleMessage ''r'') ''r''", OF 1] 2
    by (rule rtranclp.rtrancl_into_rtrancl)
  ultimately show ?thesis unfolding session_reach_def by (simp only:)
qed


text \<open>An error of Recv after the context is done ends the goroutine without a message.\<close>

lemma cancelled_forwarder_is_silent:
  "ctx_done (gc_streamCtx c) (gc_cancelled c) \<Longrightarrow> forward_decide e c = (Stopped, c)"
  by (simp add: forward_decide_def)

section \<open>Upstream\<close>

fun run_messages ::
  "('d control_message \<Rightarrow> ('d, 'g) grpc_conn \<Rightarrow> string option \<times> ('d, 'g) grpc_conn) \<Rightarrow>
   'd control_message list \<Rightarrow> ('d, 'g) grpc_conn \<Rightarrow> ('d, 'g) grpc_conn"
where
  "run_messages handle [] c = c"
| "run_messages handle (m # ms) c = run_messages handle ms (snd (handle m c))"

text \<open>
  What the messages mean for the gRPC stream: its state, the number of requests it accepted, and
  the errors to report. \<open>finish\<close> is what a half-close does.
\<close>

definition upload ::
  "('req, 'resp, 'd) grpc_codec \<Rightarrow> ('req, 'resp, 'g) stream_ops \<Rightarrow> ('g \<Rightarrow> string option \<times> 'g) \<Rightarrow>
   'd control_message \<Rightarrow> 'g \<times> 64 word \<times> string list \<Rightarrow> 'g \<times> 64 word \<times> string list"
where
  "upload codec ops finish m u = (case u of (g, n, errs) \<Rightarrow>
     if cm_Type m = TypeData then
       (case DecodeRequest codec m of
          (req, Some e) \<Rightarrow> (g, n, errs @ [e])
        | (req, None) \<Rightarrow> (case so_Send ops req g of (Some e, g) \<Rightarrow> (g, n, errs @ [e]) | (None, g) \<Rightarrow> (g, n + 1, errs)))
     else if cm_Type m = TypeEndSend then
       (case finish g of (Some e, g) \<Rightarrow> (g, n, errs @ [e]) | (None, g) \<Rightarrow> (g, n, errs))
     else u)"

definition await_reply ::
  "('req, 'resp, 'd) grpc_codec \<Rightarrow> ('req, 'resp, 'g) stream_ops \<Rightarrow> 'g \<Rightarrow> string option \<times> 'g" where
  "await_reply codec ops g =
     (case so_CloseAndRecv ops g of
        (Inl e, g) \<Rightarrow> (Some e, g)
      | (Inr resp, g) \<Rightarrow> (case EncodeData codec resp of Inl e \<Rightarrow> (Some e, g) | Inr m \<Rightarrow> (None, g)))"

text \<open>The abstraction of a connection: what of it the specification speaks about.\<close>

definition upstream :: "('d, 'g) grpc_conn \<Rightarrow> 'g \<times> 64 word \<times> string list" where
  "upstream c = (gc_stream c, gc_MsgsReceived c, map cm_Error (filter (\<lambda>m. cm_Type m = TypeError) (envelopes c)))"

lemma upstream_simps [simp]:
  "running c \<Longrightarrow> cm_Type m \<noteq> TypeError \<Longrightarrow> upstream (grpc_send m c) = upstream c"
  "upstream (log_conn rnd c) = upstream c" "upstream (grpc_cancel c) = upstream c"
  "running c \<Longrightarrow> upstream (sendStreamEnd c) = upstream c" "upstream (IncrementSent c) = upstream c"
  by (simp_all add: upstream_def log_conn_def sendStreamEnd_def control_def)

lemma upstream_error:
  "running c \<Longrightarrow> upstream c = (g, n, errs) \<Longrightarrow> upstream (sendError e (c\<lparr>gc_stream := g'\<rparr>)) = (g', n, errs @ [e])"
  "running c \<Longrightarrow> upstream c = (g, n, errs) \<Longrightarrow> upstream (sendError e c) = (g, n, errs @ [e])"
  "upstream c = (g, n, errs) \<Longrightarrow> upstream (c\<lparr>gc_stream := g'\<rparr>) = (g', n, errs)"
  "upstream c = (g, n, errs) \<Longrightarrow> upstream (IncrementReceived (c\<lparr>gc_stream := g'\<rparr>)) = (g', n + 1, errs)"
proof -
  have e: "envelopes (c\<lparr>gc_stream := g'\<rparr>) = envelopes c" by (simp add: envelopes_def)
  show "running c \<Longrightarrow> upstream c = (g, n, errs) \<Longrightarrow> upstream (sendError e (c\<lparr>gc_stream := g'\<rparr>)) = (g', n, errs @ [e])"
    "running c \<Longrightarrow> upstream c = (g, n, errs) \<Longrightarrow> upstream (sendError e c) = (g, n, errs @ [e])"
    "upstream c = (g, n, errs) \<Longrightarrow> upstream (c\<lparr>gc_stream := g'\<rparr>) = (g', n, errs)"
    "upstream c = (g, n, errs) \<Longrightarrow> upstream (IncrementReceived (c\<lparr>gc_stream := g'\<rparr>)) = (g', n + 1, errs)"
    using e by (simp_all add: upstream_def sendError_def control_def)
qed

lemma bidi_upload_step:
  assumes "running c"
  shows "running (snd (BidiStream_HandleMessage codec ops rnd m c)) \<and>
    upstream (snd (BidiStream_HandleMessage codec ops rnd m c)) = upload codec ops (so_CloseSend ops) m (upstream c)"
proof -
  obtain g n errs where u: "upstream c = (g, n, errs)" by (rule prod_cases3)
  then have g: "gc_stream c = g" by (simp add: upstream_def)
  note rules = upload_def BidiStream_HandleMessage_def handle_data_def u g upstream_error(1,2) [OF assms u] upstream_error(3,4) [OF u]
  show ?thesis
    using assms by (auto simp: rules split: prod.split option.split)
qed

lemma client_upload_step:
  assumes "running c"
  shows "running (snd (ClientStream_HandleMessage codec ops rnd m c)) \<and>
    upstream (snd (ClientStream_HandleMessage codec ops rnd m c)) = upload codec ops (await_reply codec ops) m (upstream c)"
proof -
  obtain g n errs where u: "upstream c = (g, n, errs)" by (rule prod_cases3)
  then have g: "gc_stream c = g" by (simp add: upstream_def)
  have no: "EncodeData codec v = Inr r \<Longrightarrow> cm_Type r \<noteq> TypeError" for v r using EncodeData_type [of codec v r] by simp
  note rules = upload_def await_reply_def ClientStream_HandleMessage_def handle_data_def u g
    upstream_error(1,2) [OF assms u] upstream_error(3,4) [OF u]
  show ?thesis
    using assms no by (auto simp: rules split: prod.split option.split sum.split)
qed

lemma upload_run:
  assumes "\<And>m c. running c \<Longrightarrow> running (snd (handle m c)) \<and> upstream (snd (handle m c)) = f m (upstream c)"
  shows "running c \<Longrightarrow> upstream (run_messages handle ms c) = fold f ms (upstream c)"
  using assms by (induction ms arbitrary: c) auto

text \<open>
  C23: The WebSocket is transparent for the client's messages. Whatever messages a client sends, the
  state of the gRPC stream, the number of requests it accepted and the errors reported to the client
  are those of the abstract upload: each data message that decodes is sent to the stream, in order;
  a half-close closes the sending side, and on a client stream waits for the reply; every failure is
  reported once, in order; and cancellations, pongs and unknown messages change none of it.
\<close>

theorem grpc_upload_refines:
  assumes "running c"
  shows "upstream (run_messages (BidiStream_HandleMessage codec ops rnd) ms c) =
      fold (upload codec ops (so_CloseSend ops)) ms (upstream c) \<and>
    upstream (run_messages (ClientStream_HandleMessage codec ops rnd) ms c) =
      fold (upload codec ops (await_reply codec ops)) ms (upstream c)"
proof
  show "upstream (run_messages (BidiStream_HandleMessage codec ops rnd) ms c) =
      fold (upload codec ops (so_CloseSend ops)) ms (upstream c)"
    by (rule upload_run [OF _ assms]) (rule bidi_upload_step)
  show "upstream (run_messages (ClientStream_HandleMessage codec ops rnd) ms c) =
      fold (upload codec ops (await_reply codec ops)) ms (upstream c)"
    by (rule upload_run [OF _ assms]) (rule client_upload_step)
qed

definition counting_ops :: "(unit, string, nat) stream_ops" where
  "counting_ops = \<lparr>so_Send = (\<lambda>r n. (None, n + 1)), so_CloseSend = (\<lambda>n. (None, n)), so_CloseAndRecv = (\<lambda>n. (Inr ''ok'', n))\<rparr>"

definition counting_conn :: "(string, nat) grpc_conn" where
  "counting_conn = snd (grpc_OnStart ''r'' (new_grpc_conn ''BidiStreamConn'' [0] 1 5 0 {}))"

theorem grpc_upload_refines_witness:
  "running counting_conn \<and>
   upstream (run_messages (BidiStream_HandleMessage sample_codec counting_ops ''r'')
     [control TypeData, control TypePong, control TypeData, control TypeEndSend] counting_conn) = (2, 2, [])"
proof
  show r: "running counting_conn"
    by (simp add: running_def counting_conn_def grpc_OnStart_def WSOnStart_def Let_def new_grpc_conn_def initContext_def)
  have "upstream counting_conn = (0, 0, [])"
    by (simp add: upstream_def envelopes_def counting_conn_def grpc_OnStart_def WSOnStart_def Let_def new_grpc_conn_def initContext_def)
  then show "upstream (run_messages (BidiStream_HandleMessage sample_codec counting_ops ''r'')
      [control TypeData, control TypePong, control TypeData, control TypeEndSend] counting_conn) = (2, 2, [])"
    using grpc_upload_refines [OF r, of sample_codec counting_ops "''r''" "[control TypeData, control TypePong, control TypeData, control TypeEndSend]"]
    by (simp add: upload_def control_def DecodeRequest_def sample_codec_def counting_ops_def)
qed

text \<open>The reply of a client stream: its envelope and the end of the stream, or one error.\<close>

lemma client_reply:
  assumes "running c" and "so_CloseAndRecv ops (gc_stream c) = (Inr resp, g)" and "EncodeData codec resp = Inr m"
    and "cm_Type msg = TypeEndSend"
  shows "fst (ClientStream_HandleMessage codec ops rnd msg c) = None \<and>
    envelopes (snd (ClientStream_HandleMessage codec ops rnd msg c)) = envelopes c @ [m, control TypeStreamEnd] \<and>
    gc_MsgsSent (snd (ClientStream_HandleMessage codec ops rnd msg c)) = gc_MsgsSent c + 1"
proof -
  have e: "envelopes (c\<lparr>gc_stream := g\<rparr>) = envelopes c" by (simp add: envelopes_def)
  have r: "running (grpc_send m (IncrementSent (c\<lparr>gc_stream := g\<rparr>)))" using assms(1) by simp
  show ?thesis
    using assms e envelopes_send [OF r] by (simp add: ClientStream_HandleMessage_def sendStreamEnd_def)
qed

section \<open>Heartbeat\<close>

text \<open>
  gRPC connections keep the heartbeat. A connection of any of the three kinds under the WebSocket
  handler sends one ping envelope for each ping tick, numbered 1, 2, 3 and so on in 64-bit
  arithmetic, whatever the client's messages and the stream do.
\<close>

theorem grpc_heartbeat:
  fixes c' :: "('d, 'g) grpc_conn"
  assumes "periods_ok config"
    and "handle \<in> {ServerStream_HandleMessage rnd, ClientStream_HandleMessage codec ops rnd, BidiStream_HandleMessage codec ops rnd}"
    and "WSHandleConn (grpc_ops rnd handle) config u now es (new_grpc_conn n ctx scope t g cancelled) = (e, tr, c')"
  shows "grpc_pings c' = map of_nat [1..<Suc (count_list tr Pinged)]"
proof -
  let ?c = "new_grpc_conn n ctx scope t g cancelled :: ('d, 'g) grpc_conn"
  let ?c1 = "snd (grpc_OnStart rnd ?c)"
  have start: "op_OnStart (grpc_ops rnd handle) ?c = (None, ?c1)"
    using WSOnStart_new [of rnd n ctx scope t g cancelled] by (simp add: grpc_ops_def)
  have st: "running ?c1" "grpc_pings ?c1 = []" "PingId (gc_base ?c1) = 0"
    by (simp_all add: running_def grpc_pings_def envelopes_def grpc_OnStart_def new_grpc_conn_def initContext_def
      WSOnStart_def Let_def new_base_conn_def WSConnId_def WSName_def)
  have "grpc_pings c' = map (\<lambda>i. 0 + of_nat i) [1..<Suc (count_list tr Pinged)]"
    using assms(2)
  proof (elim insertE emptyE)
    assume h: "handle = ServerStream_HandleMessage rnd"
    show ?thesis using server_pings.handler_numbers [OF assms(1) start [unfolded h] st(1) assms(3) [unfolded h]] st
      by (simp add: server_pings.numbers_def)
  next
    assume h: "handle = ClientStream_HandleMessage codec ops rnd"
    show ?thesis using client_pings.handler_numbers [OF assms(1) start [unfolded h] st(1) assms(3) [unfolded h]] st
      by (simp add: client_pings.numbers_def)
  next
    assume h: "handle = BidiStream_HandleMessage codec ops rnd"
    show ?thesis using bidi_pings.handler_numbers [OF assms(1) start [unfolded h] st(1) assms(3) [unfolded h]] st
      by (simp add: bidi_pings.numbers_def)
  qed
  then show ?thesis by simp
qed

definition quiet_ticks :: "string control_message ws_event list" where
  "quiet_ticks = [PingTick, Arrived 3 (Inr (control TypePong)), PingTick]"

theorem grpc_heartbeat_witness:
  "grpc_pings (snd (snd (WSHandleConn (grpc_ops ''r'' (ServerStream_HandleMessage ''r'')) None (\<lambda>e cs. False) 0 quiet_ticks sample_conn))) = [1, 2]"
proof -
  obtain e tr c' where r: "WSHandleConn (grpc_ops ''r'' (ServerStream_HandleMessage ''r'')) None (\<lambda>e cs. False) 0 quiet_ticks sample_conn = (e, tr, c')"
    by (rule prod_cases3)
  obtain c1 where start: "grpc_OnStart ''r'' sample_conn = (None, c1)"
    using WSOnStart_new [of "''r''" "''ServerStreamConn''" "[0]" 1 5 "()" "{}"] unfolding sample_conn_def by blast
  have "fst (snd (WSHandleConn (grpc_ops ''r'' (ServerStream_HandleMessage ''r'')) None (\<lambda>e cs. False) 0 quiet_ticks sample_conn)) =
      [Started None, Deadline (300 * 10 ^ 9), Pinged, Deadline (3 + 300 * 10 ^ 9), Handled (control TypePong) None, Pinged]"
    by (simp add: WSHandleConn_def DefaultWSConnConfig_def DefaultBiDirStreamConfig_def quiet_ticks_def
      grpc_ops_def start read_result_def ServerStream_HandleMessage_def control_def case_prod_beta also_calls_def)
  then have "count_list tr Pinged = 2" using r by simp
  then show ?thesis
    using grpc_heartbeat [of None "ServerStream_HandleMessage ''r''" "''r''" undefined undefined _ 0 quiet_ticks
        "''ServerStreamConn''" "[0]" 1 5 "()" "{}" e tr c'] r
    by (simp add: periods_ok_def sample_conn_def numeral_eq_Suc)
qed

section \<open>Cancellation\<close>

text \<open>
  C26: A cancellation reaches the gRPC stream, and failures leak no context. When Validate (all
  three end in the same way once the request is parsed) accepts a request, the context given to the gRPC stream and the connection's own context are not done unless
  the request's context was; a cancel message to any of the three kinds of connection, and its close,
  make both done, and only them: the request's context is as before. When the stream cannot be
  created its context has been cancelled and the answer is 500.
\<close>

theorem grpc_cancellation:
  fixes create :: "nat list \<Rightarrow> string + 'g" and res :: "('d, 'g) grpc_conn option"
  assumes "create_or_fail name create reqCtx scope now cancelled w = (res, cancelled', w')"
    and "scope \<notin> set reqCtx \<union> cancelled" and "Suc scope \<notin> cancelled"
  shows "(case res of
      None \<Rightarrow> (\<exists>e. create (scope # reqCtx) = Inl e) \<and> ctx_done (scope # reqCtx) cancelled' \<and>
        (sent w = None \<longrightarrow> final_status w' = 500)
    | Some c0 \<Rightarrow> create (scope # reqCtx) = Inr (gc_stream c0) \<and> w' = w \<and>
        (ctx_done (gc_streamCtx c0) (gc_cancelled c0) \<longleftrightarrow> ctx_done reqCtx cancelled) \<and>
        (ctx_done (scope # reqCtx) (gc_cancelled c0) \<longleftrightarrow> ctx_done reqCtx cancelled) \<and>
        (\<forall>c \<in> {snd (ServerStream_HandleMessage rnd (control TypeCancel) c0),
               snd (ClientStream_HandleMessage codec ops rnd (control TypeCancel) c0),
               snd (BidiStream_HandleMessage codec ops rnd (control TypeCancel) c0), grpc_OnClose rnd c0}.
           ctx_done (scope # reqCtx) (gc_cancelled c) \<and> ctx_done (gc_streamCtx c) (gc_cancelled c) \<and>
           (ctx_done reqCtx (gc_cancelled c) \<longleftrightarrow> ctx_done reqCtx cancelled)))"
proof (cases "create (scope # reqCtx)")
  case (Inl e)
  then show ?thesis using assms by (auto simp: create_or_fail_def ctx_done_def)
next
  case (Inr g)
  let ?c0 = "new_grpc_conn name reqCtx scope now g cancelled :: ('d, 'g) grpc_conn"
  have c0: "gc_streamCtx ?c0 = Suc scope # scope # reqCtx" "gc_cancelFunc ?c0 = Some scope" "gc_cancelled ?c0 = cancelled"
    "gc_stream ?c0 = g"
    by (simp_all add: new_grpc_conn_def initContext_def)
  have after: "gc_cancelled (grpc_cancel (log_conn rnd ?c0)) = insert scope cancelled"
    "gc_streamCtx (grpc_cancel (log_conn rnd ?c0)) = Suc scope # scope # reqCtx"
    "gc_cancelled (grpc_OnClose rnd ?c0) = insert scope cancelled"
    using c0 by (simp_all add: grpc_cancel_def log_conn_def grpc_OnClose_def)
  have res: "res = Some ?c0" "w' = w" using assms(1) Inr by (auto simp: create_or_fail_def)
  show ?thesis
    using c0 after assms(2,3) Inr
    by (auto simp: res ctx_done_def ServerStream_HandleMessage_def ClientStream_HandleMessage_def
      BidiStream_HandleMessage_def control_def)
qed


theorem grpc_cancellation_witness:
  "ctx_done [1, 0] (gc_cancelled (grpc_OnClose ''r'' sample_conn)) \<and> \<not> ctx_done [0] (gc_cancelled (grpc_OnClose ''r'' sample_conn))"
proof -
  have c: "create_or_fail ''ServerStreamConn'' (\<lambda>ctx. Inr ()) [0] 1 5 {} (fresh_world () :: (unit, unit) world) =
      (Some sample_conn, {}, fresh_world ())"
    by (simp add: create_or_fail_def sample_conn_def)
  have "(1 :: nat) \<notin> set [0] \<union> {}" "Suc 1 \<notin> {}" by simp_all
  from grpc_cancellation [OF c this, of "''r''" sample_codec undefined]
  have "ctx_done [1, 0] (gc_cancelled (grpc_OnClose ''r'' sample_conn))"
    "ctx_done [0] (gc_cancelled (grpc_OnClose ''r'' sample_conn)) \<longleftrightarrow> ctx_done [0] {}"
    by simp_all
  then show ?thesis by (simp add: ctx_done_def)
qed


text \<open>A request that a server stream cannot parse is answered 400; no stream and no context is made.\<close>

lemma unparsable_request_refused:
  assumes "parse r = Inl e" and "sent w = None"
  shows "\<exists>w'. ServerStream_Validate parse create r reqCtx scope now cancelled w = (None, cancelled, w') \<and> final_status w' = 400"
  using assms by (simp add: ServerStream_Validate_def)

end
