(* ===== verification/Auth.thy ===== *)
theory Auth
  imports HttpModel
begin

text \<open>
  Package \<open>auth\<close>: the identities and channels of \<open>models.go\<close> and the login middleware of
  \<open>router.go\<close>. Instants are numbers.
\<close>

section \<open>Identities, channels and callbacks\<close>

record identity =
  id_CreatedAt :: int
  id_UpdatedAt :: int
  IdentityType :: string
  IdentityKey :: string
  PrimaryUser :: string

definition NewIdentity :: "int \<Rightarrow> string \<Rightarrow> string \<Rightarrow> identity" where
  "NewIdentity now idType idKey =
     \<lparr>id_CreatedAt = now, id_UpdatedAt = 0, IdentityType = idType, IdentityKey = idKey, PrimaryUser = []\<rparr>"

definition HasUser :: "identity \<Rightarrow> bool" where
  "HasUser i \<longleftrightarrow> Trim (PrimaryUser i) '' '' \<noteq> []"

definition Identity_HasKey :: "identity \<Rightarrow> bool" where
  "Identity_HasKey i \<longleftrightarrow> Trim (IdentityType i) '' '' \<noteq> [] \<and> Trim (IdentityKey i) '' '' \<noteq> []"

definition Identity_Key :: "identity \<Rightarrow> string" where
  "Identity_Key i = IdentityType i @ '':'' @ IdentityKey i"

record 'm auth_channel =
  ch_CreatedAt :: int
  ch_UpdatedAt :: int
  Provider :: string
  LoginId :: string
  Credentials :: "'m option"
  Profile :: "'m option"
  ExpiresAt :: int
  ch_IdentityKey :: string

definition NewChannel :: "int \<Rightarrow> string \<Rightarrow> string \<Rightarrow> 'm auth_channel" where
  "NewChannel now provider loginId =
     \<lparr>ch_CreatedAt = now, ch_UpdatedAt = 0, Provider = provider, LoginId = loginId, Credentials = None,
      Profile = None, ExpiresAt = 0, ch_IdentityKey = []\<rparr>"

definition HasIdentity :: "'m auth_channel \<Rightarrow> bool" where
  "HasIdentity c \<longleftrightarrow> Trim (ch_IdentityKey c) '' '' \<noteq> []"

definition Channel_Key :: "'m auth_channel \<Rightarrow> string" where
  "Channel_Key c = Provider c @ '':'' @ LoginId c"

definition Channel_HasKey :: "'m auth_channel \<Rightarrow> bool" where
  "Channel_HasKey c \<longleftrightarrow> Trim (Provider c) '' '' \<noteq> [] \<and> Trim (LoginId c) '' '' \<noteq> []"

record callback_request =
  cb_Hostname :: string
  cb_Path :: string
  cb_Method :: string
  cb_rawBody :: string
  cb_Headers :: "(string \<times> string) list"

definition FullURL :: "callback_request \<Rightarrow> string" where
  "FullURL c =
     (if \<not> HasSuffix (cb_Hostname c) ''/'' \<and> \<not> HasPrefix (cb_Path c) ''/'' then cb_Hostname c @ ''/'' @ cb_Path c
      else cb_Hostname c @ cb_Path c)"

text \<open>Keys are not injective: a colon in the type moves into the key.\<close>

lemma keys_collide:
  "Identity_Key (NewIdentity 0 ''a'' ''b:c'') = Identity_Key (NewIdentity 0 ''a:b'' ''c'')"
  by (simp add: Identity_Key_def NewIdentity_def)

lemma keys_determine:
  assumes "CHR '':'' \<notin> set (IdentityType i)" and "CHR '':'' \<notin> set (IdentityType j)"
  shows "Identity_Key i = Identity_Key j \<longleftrightarrow> IdentityType i = IdentityType j \<and> IdentityKey i = IdentityKey j"
proof
  assume "Identity_Key i = Identity_Key j"
  then have "SplitN2 (IdentityType i @ CHR '':'' # IdentityKey i) (CHR '':'') = SplitN2 (IdentityType j @ CHR '':'' # IdentityKey j) (CHR '':'')"
    by (simp add: Identity_Key_def)
  then show "IdentityType i = IdentityType j \<and> IdentityKey i = IdentityKey j"
    using assms by (simp add: SplitN2_hit)
qed (simp add: Identity_Key_def)

text \<open>Two slashes where host and path meet stay two.\<close>

lemma double_slash_kept:
  "FullURL \<lparr>cb_Hostname = ''http://h/'', cb_Path = ''/p'', cb_Method = [], cb_rawBody = [], cb_Headers = []\<rparr> = ''http://h//p''"
  by (simp add: FullURL_def HasSuffix_def)

section \<open>Login middleware\<close>

text \<open>A session value is nil, a string, or something else.\<close>

datatype session_value = SNil | SString string | SOther

record auth_config =
  CallbackURLParam :: string
  DefaultRedirectURL :: string
  GetRedirURL :: "(request \<Rightarrow> string) option"
  UserParamName :: string
  NoLoginRedirect :: bool

definition EnsureReasonableDefaults :: "auth_config \<Rightarrow> auth_config" where
  "EnsureReasonableDefaults a =
     (let a = (if UserParamName a = [] then a\<lparr>UserParamName := ''loggedInUserId''\<rparr> else a);
          a = (if CallbackURLParam a = [] then a\<lparr>CallbackURLParam := ''/callbackURL''\<rparr> else a);
          a = (if DefaultRedirectURL a = [] then a\<lparr>DefaultRedirectURL := ''/login''\<rparr> else a)
      in if GetRedirURL a = None \<and> \<not> NoLoginRedirect a then a\<lparr>GetRedirURL := Some (\<lambda>r. DefaultRedirectURL a)\<rparr> else a)"

definition loggedInUserKey :: ctx_key where
  "loggedInUserKey = AppKey ''loggedInUser''"

definition GetLoggedInUser :: "request \<Rightarrow> string" where
  "GetLoggedInUser r = (case map_of (Ctx r) loggedInUserKey of Some v \<Rightarrow> v | None \<Rightarrow> [])"

definition SetLoggedInUser :: "string \<Rightarrow> request \<Rightarrow> request" where
  "SetLoggedInUser userID r = r\<lparr>Ctx := (loggedInUserKey, userID) # Ctx r\<rparr>"

text \<open>\<open>getter\<close> is the session getter; an assertion to string panics on another value.\<close>

definition GetLoggedInUserId :: "(request \<Rightarrow> string \<Rightarrow> session_value) \<Rightarrow> auth_config \<Rightarrow> request \<Rightarrow> outcome \<times> string" where
  "GetLoggedInUserId getter a r =
     (if GetLoggedInUser r \<noteq> [] then (Returned, GetLoggedInUser r)
      else (case getter r (UserParamName a) of
          SNil \<Rightarrow> (Returned, [])
        | SString s \<Rightarrow> (Returned, s)
        | SOther \<Rightarrow> (Panicked ''interface conversion'', [])))"

definition ExtractUserInfo :: "(request \<Rightarrow> string \<Rightarrow> session_value) \<Rightarrow> auth_config \<Rightarrow> ('b, 'x) middleware" where
  "ExtractUserInfo getter a next r w =
     (case getter r (UserParamName a) of
        SNil \<Rightarrow> next r w
      | SString s \<Rightarrow> if s = [] then next r w else next (SetLoggedInUser s r) w
      | SOther \<Rightarrow> (Panicked ''interface conversion'', w))"

text \<open>
  \<open>http.Redirect\<close>: \<open>location\<close> is its resolution of the target against the request; the short HTML
  body that it writes for GET, unless a content type has been set, is a parameter too.
\<close>

definition http_Redirect ::
  "(request \<Rightarrow> string \<Rightarrow> string) \<Rightarrow> (request \<Rightarrow> string \<Rightarrow> bytes) \<Rightarrow> request \<Rightarrow> string \<Rightarrow> int \<Rightarrow> ('b, 'x) world \<Rightarrow> ('b, 'x) world" where
  "http_Redirect location page r url code w =
     (let hadCT = (resp_header w (canonical_key ''Content-Type'') \<noteq> None);
          w = SetHeader ''Location'' (location r url) w;
          w = (if \<not> hadCT \<and> Method r \<in> {''GET'', ''HEAD''} then SetHeader ''Content-Type'' ''text/html; charset=utf-8'' w else w);
          w = WriteHeader code w
      in if \<not> hadCT \<and> Method r = ''GET'' then Write_resp (page r url) w else w)"

text \<open>
  \<open>EnsureLogin\<close>: the outcome, whether the request may go on, the configuration with its defaults
  filled in, and the response. \<open>encode\<close> is \<open>EncodeURIComponent\<close>. The request that is given the user
  is a local variable of the code and is gone when it returns.
\<close>

definition EnsureLogin ::
  "(request \<Rightarrow> string \<Rightarrow> session_value) \<Rightarrow> (string \<Rightarrow> string) \<Rightarrow> (request \<Rightarrow> string \<Rightarrow> string) \<Rightarrow>
   (request \<Rightarrow> string \<Rightarrow> bytes) \<Rightarrow> auth_config \<Rightarrow> request \<Rightarrow> ('b, 'x) world \<Rightarrow>
   outcome \<times> bool \<times> auth_config \<times> ('b, 'x) world"
where
  "EnsureLogin getter encode location page a r w =
     (let a = EnsureReasonableDefaults a;
          refuse = (let redirUrl = (case GetRedirURL a of None \<Rightarrow> [] | Some f \<Rightarrow> f r) in
             if redirUrl \<noteq> [] then
               http_Redirect location page r (redirUrl @ ''?'' @ CallbackURLParam a @ ''='' @ encode (Path r)) 302 w
             else http_Error ''Login Failed'' 401 w)
      in case getter r (UserParamName a) of
           SNil \<Rightarrow> (Returned, False, a, refuse)
         | SString s \<Rightarrow> if s = [] then (Returned, False, a, refuse) else (Returned, True, a, w)
         | SOther \<Rightarrow> (Panicked ''interface conversion'', False, a, w))"

definition EnsureLoginMiddleware ::
  "(request \<Rightarrow> string \<Rightarrow> session_value) \<Rightarrow> (string \<Rightarrow> string) \<Rightarrow> (request \<Rightarrow> string \<Rightarrow> string) \<Rightarrow>
   (request \<Rightarrow> string \<Rightarrow> bytes) \<Rightarrow> auth_config \<Rightarrow> ('b, 'x) middleware"
where
  "EnsureLoginMiddleware getter encode location page a next r w =
     (case EnsureLogin getter encode location page a r w of
        (Returned, True, a, w) \<Rightarrow> next r w
      | (Returned, False, a, w) \<Rightarrow> (Returned, w)
      | (Panicked m, ok, a, w) \<Rightarrow> (Panicked m, w))"

lemma http_Redirect_sent:
  assumes "sent w = None"
  shows "\<exists>h. sent (http_Redirect location page r url 302 w) = Some (302, h) \<and> header_get h ''Location'' = location r url"
    and "app (http_Redirect location page r url 302 w) = app w"
proof -
  have "canonical_key ''Location'' \<noteq> canonical_key ''Content-Type''" by code_simp
  then show "\<exists>h. sent (http_Redirect location page r url 302 w) = Some (302, h) \<and> header_get h ''Location'' = location r url"
    using assms by (simp add: http_Redirect_def Let_def WriteHeader_def send_header_def SetHeader_def Write_resp_def body_allowed_def)
  show "app (http_Redirect location page r url 302 w) = app w" by (simp add: http_Redirect_def Let_def)
qed

text \<open>The name under which the user is looked up once the defaults are filled in.\<close>

definition user_param :: "auth_config \<Rightarrow> string" where
  "user_param a = (if UserParamName a = [] then ''loggedInUserId'' else UserParamName a)"

lemma user_param_default: "UserParamName (EnsureReasonableDefaults a) = user_param a"
  by (simp add: EnsureReasonableDefaults_def user_param_def Let_def)

text \<open>Where a request without a user is sent: nowhere when the URL is empty.\<close>

definition redir_target :: "auth_config \<Rightarrow> request \<Rightarrow> string" where
  "redir_target a r = (case GetRedirURL a of
      Some f \<Rightarrow> f r
    | None \<Rightarrow> if NoLoginRedirect a then [] else if DefaultRedirectURL a = [] then ''/login'' else DefaultRedirectURL a)"

definition login_url :: "(string \<Rightarrow> string) \<Rightarrow> auth_config \<Rightarrow> request \<Rightarrow> string" where
  "login_url encode a r = redir_target a r @ ''?'' @
     (if CallbackURLParam a = [] then ''/callbackURL'' else CallbackURLParam a) @ ''='' @ encode (Path r)"

lemma refusal_default:
  "(case GetRedirURL (EnsureReasonableDefaults a) of None \<Rightarrow> [] | Some f \<Rightarrow> f r) = redir_target a r"
  "CallbackURLParam (EnsureReasonableDefaults a) = (if CallbackURLParam a = [] then ''/callbackURL'' else CallbackURLParam a)"
  by (auto simp: EnsureReasonableDefaults_def redir_target_def Let_def split: option.splits)

text \<open>
  C32: Only logged-in users pass. Behind EnsureLoginMiddleware the handler runs exactly when the
  session holds a non-empty string for the user parameter (its default name when none is configured).
  Without one the handler does not run: an unstarted response ends as a redirect (302) to the
  configured or default login URL, with the path that was asked for as its callback parameter, or as
  401 when redirects are off or the URL is empty. A session value of another type panics before
  anything is written.
\<close>

theorem ensure_login_gate:
  assumes "sent w = None"
  shows "(let run = EnsureLoginMiddleware getter encode location page a handler r w;
      user = getter r (user_param a)
    in if user = SOther then run = (Panicked ''interface conversion'', w)
       else if user \<noteq> SNil \<and> user \<noteq> SString [] then run = handler r w
       else (\<exists>w'. run = (Returned, w') \<and> app w' = app w \<and>
         (if redir_target a r = [] then final_status w' = 401
          else (\<exists>h. sent w' = Some (302, h) \<and> header_get h ''Location'' = location r (login_url encode a r)))))"
proof -
  have err: "final_status (http_Error ''Login Failed'' 401 w) = 401" "app (http_Error ''Login Failed'' 401 w) = app w"
    using assms by (simp_all add: http_Error_def Let_def)
  show ?thesis
    using http_Redirect_sent [OF assms] err
    by (cases "getter r (user_param a)")
       (auto simp: EnsureLoginMiddleware_def EnsureLogin_def user_param_default refusal_default login_url_def Let_def)
qed

definition no_session :: "request \<Rightarrow> string \<Rightarrow> session_value" where
  "no_session r p = SNil"

definition plain_config :: auth_config where
  "plain_config = \<lparr>CallbackURLParam = [], DefaultRedirectURL = [], GetRedirURL = None, UserParamName = [], NoLoginRedirect = False\<rparr>"

definition page_request :: request where
  "page_request = \<lparr>Method = ''GET'', Path = ''/x'', RemoteAddr = [], Host = [], Header = (\<lambda>k. None), Body = RawBody [], Ctx = []\<rparr>"

theorem ensure_login_gate_witness:
  "\<exists>w' h. EnsureLoginMiddleware no_session id (\<lambda>r u. u) (\<lambda>r u. []) plain_config (\<lambda>r w. (Panicked ''handler'', w))
      (page_request) (fresh_world () :: (unit, unit) world) = (Returned, w') \<and>
     sent w' = Some (302, h) \<and> header_get h ''Location'' = ''/login?/callbackURL=/x''"
  using ensure_login_gate [where w = "fresh_world () :: (unit, unit) world" and getter = no_session
    and r = "page_request" and a = plain_config and encode = id and location = "\<lambda>r u. u" and page = "\<lambda>r u. []"
    and handler = "\<lambda>r w. (Panicked ''handler'', w)"]
  by (simp add: no_session_def plain_config_def login_url_def redir_target_def page_request_def Let_def)

text \<open>
  The user that EnsureLogin logs as set is set on a copy of the request: the handler sees the
  request as it came, without a user.
\<close>

lemma ensure_login_forgets_user:
  assumes "getter r (user_param a) = SString s" and "s \<noteq> []" and "GetLoggedInUser r = []"
  shows "EnsureLoginMiddleware getter encode location page a next r w = next r w \<and> GetLoggedInUser r = []"
  using assms by (simp add: EnsureLoginMiddleware_def EnsureLogin_def user_param_default Let_def)

text \<open>ExtractUserInfo does hand the user on, under the configured name without its default.\<close>

lemma extract_user_info_hands_on:
  assumes "getter r (UserParamName a) = SString s" and "s \<noteq> []"
  shows "ExtractUserInfo getter a next r w = next (SetLoggedInUser s r) w \<and> GetLoggedInUser (SetLoggedInUser s r) = s"
  using assms by (simp add: ExtractUserInfo_def GetLoggedInUser_def SetLoggedInUser_def)

end
