(* ===== verification/AuthDB.thy ===== *)
theory AuthDB
  imports Auth
begin

text \<open>
  \<open>auth/gormdb.go\<close>: channels and identities in a database. gorm is a parameter: what \<open>First\<close>,
  \<open>Save\<close> and \<open>Create\<close> answer and do to the database. The clock is read for each time stamp the code
  takes; an operation gets the readings it uses.
\<close>

section \<open>The database\<close>

datatype 'e found = Found 'e | RecordNotFound | QueryError string

text \<open>
  \<open>Save\<close> answers with an error and the number of rows affected. The two strings of a query are the
  values of the primary key.
\<close>

record ('e, 'db) gorm_ops =
  gorm_First :: "string \<Rightarrow> string \<Rightarrow> 'db \<Rightarrow> 'e found \<times> 'db"
  gorm_Save :: "'e \<Rightarrow> 'db \<Rightarrow> (string option \<times> nat) \<times> 'db"
  gorm_Create :: "'e \<Rightarrow> 'db \<Rightarrow> string option \<times> 'db"

text \<open>
  The tables that NewAuthDB asks gorm to migrate; it looks at neither error, so that a database
  without its tables is found out by the first query.
\<close>

datatype auth_table = ChannelTable | IdentityTable

definition NewAuthDB :: "(auth_table \<Rightarrow> 'db \<Rightarrow> string option \<times> 'db) \<Rightarrow> 'db \<Rightarrow> 'db" where
  "NewAuthDB automigrate db =
     (case automigrate ChannelTable db of (err, db) \<Rightarrow>
        (case automigrate IdentityTable db of (err, db) \<Rightarrow> db))"

lemma new_auth_db_ignores_errors:
  assumes "\<And>t db. automigrate t db = (Some (err t), db)"
  shows "NewAuthDB automigrate db = db"
  by (simp add: NewAuthDB_def assms)

definition get_row :: "('e, 'db) gorm_ops \<Rightarrow> string \<Rightarrow> string \<Rightarrow> 'db \<Rightarrow> ('e option \<times> string option) \<times> 'db" where
  "get_row ops a b db =
     (case gorm_First ops a b db of
        (Found e, db) \<Rightarrow> ((Some e, None), db)
      | (RecordNotFound, db) \<Rightarrow> ((None, None), db)
      | (QueryError m, db) \<Rightarrow> ((None, Some m), db))"

definition GetChannel ::
  "('m auth_channel, 'db) gorm_ops \<Rightarrow> string \<Rightarrow> string \<Rightarrow> 'db \<Rightarrow> ('m auth_channel option \<times> string option) \<times> 'db" where
  "GetChannel = get_row"

definition GetIdentity ::
  "(identity, 'db) gorm_ops \<Rightarrow> string \<Rightarrow> string \<Rightarrow> 'db \<Rightarrow> (identity option \<times> string option) \<times> 'db" where
  "GetIdentity = get_row"

text \<open>The result is the error, the entity with its new time stamps, and the database.\<close>

definition SaveChannel ::
  "('m auth_channel, 'db) gorm_ops \<Rightarrow> int \<Rightarrow> int \<Rightarrow> 'm auth_channel \<Rightarrow> 'db \<Rightarrow>
   string option \<times> 'm auth_channel \<times> 'db"
where
  "SaveChannel ops now1 now2 entity db =
     (let entity = entity\<lparr>ch_UpdatedAt := now1\<rparr> in
      case gorm_Save ops entity db of
        ((err, rows), db) \<Rightarrow>
          if err = None \<and> rows = 0 then
            (let entity = entity\<lparr>ch_CreatedAt := now2\<rparr> in
             case gorm_Create ops entity db of (err, db) \<Rightarrow> (err, entity, db))
          else (err, entity, db))"

definition SaveIdentity ::
  "(identity, 'db) gorm_ops \<Rightarrow> int \<Rightarrow> int \<Rightarrow> identity \<Rightarrow> 'db \<Rightarrow> string option \<times> identity \<times> 'db" where
  "SaveIdentity ops now1 now2 entity db =
     (let entity = entity\<lparr>id_UpdatedAt := now1\<rparr> in
      case gorm_Save ops entity db of
        ((err, rows), db) \<Rightarrow>
          if err = None \<and> rows = 0 then
            (let entity = entity\<lparr>id_CreatedAt := now2\<rparr> in
             case gorm_Create ops entity db of (err, db) \<Rightarrow> (err, entity, db))
          else (err, entity, db))"

text \<open>A parameter value: a string map or something else; an absent one fails the assertion too.\<close>

datatype 'm param = ParamMap 'm | ParamOther

definition EnsureChannel ::
  "('m auth_channel, 'db) gorm_ops \<Rightarrow> int \<Rightarrow> int \<Rightarrow> int \<Rightarrow> string \<Rightarrow> string \<Rightarrow> (string \<Rightarrow> 'm param option) \<Rightarrow> 'db \<Rightarrow>
   outcome \<times> ('m auth_channel \<times> bool) option \<times> 'db"
where
  "EnsureChannel ops now now1 now2 provider loginId params db =
     (case GetChannel ops provider loginId db of
        ((found, _), db) \<Rightarrow>
          let newCreated = (found = None);
              channel = (case found of Some c \<Rightarrow> c | None \<Rightarrow> NewChannel now provider loginId)
          in (case (params ''credentials'', params ''profile'') of
                (Some (ParamMap cred), Some (ParamMap prof)) \<Rightarrow>
                  (case SaveChannel ops now1 now2 (channel\<lparr>Credentials := Some cred, Profile := Some prof\<rparr>) db of
                     (err, channel, db) \<Rightarrow> (Returned, Some (channel, newCreated), db))
              | _ \<Rightarrow> (Panicked ''interface conversion'', None, db)))"

definition EnsureIdentity ::
  "(identity, 'db) gorm_ops \<Rightarrow> int \<Rightarrow> int \<Rightarrow> int \<Rightarrow> string \<Rightarrow> string \<Rightarrow> 'db \<Rightarrow> (identity \<times> bool) \<times> 'db" where
  "EnsureIdentity ops now now1 now2 idType idKey db =
     (case GetIdentity ops idType idKey db of
        ((found, _), db) \<Rightarrow>
          let newCreated = (found = None);
              identity = (case found of Some i \<Rightarrow> i | None \<Rightarrow> NewIdentity now idType idKey)
          in (case SaveIdentity ops now1 now2 identity db of
                (err, identity, db) \<Rightarrow> ((identity, newCreated), db)))"

section \<open>Over a table\<close>

text \<open>
  The documented behaviour of gorm on a table with this primary key, in the absence of database
  errors: First finds the row of the key; Save and Create write it, unless Save affected no row.
\<close>

definition gorm_table ::
  "('e, 'db) gorm_ops \<Rightarrow> ('e \<Rightarrow> string \<times> string) \<Rightarrow> ('db \<Rightarrow> string \<times> string \<Rightarrow> 'e option) \<Rightarrow> bool" where
  "gorm_table ops key rows \<longleftrightarrow>
     (\<forall>a b db. gorm_First ops a b db = ((case rows db (a, b) of Some e \<Rightarrow> Found e | None \<Rightarrow> RecordNotFound), db)) \<and>
     (\<forall>e db. \<exists>n db'. gorm_Save ops e db = ((None, n), db') \<and>
        rows db' = (if n = 0 then rows db else (rows db)(key e \<mapsto> e))) \<and>
     (\<forall>e db. \<exists>db'. gorm_Create ops e db = (None, db') \<and> rows db' = (rows db)(key e \<mapsto> e))"

definition channel_key :: "'m auth_channel \<Rightarrow> string \<times> string" where
  "channel_key c = (Provider c, LoginId c)"

definition identity_key :: "identity \<Rightarrow> string \<times> string" where
  "identity_key i = (IdentityType i, IdentityKey i)"

text \<open>A table whose rows lie under their own keys.\<close>

definition keyed :: "('e \<Rightarrow> string \<times> string) \<Rightarrow> (string \<times> string \<Rightarrow> 'e option) \<Rightarrow> bool" where
  "keyed key t \<longleftrightarrow> (\<forall>k e. t k = Some e \<longrightarrow> key e = k)"

lemma get_row_table:
  assumes "gorm_table ops key rows"
  shows "get_row ops a b db = ((rows db (a, b), None), db)"
  using assms by (auto simp: get_row_def gorm_table_def split: option.split)

lemma gorm_table_writes:
  assumes "gorm_table ops key rows"
  shows "\<exists>n db'. gorm_Save ops e db = ((None, n), db') \<and> rows db' = (if n = 0 then rows db else (rows db)(key e \<mapsto> e))"
    "\<exists>db'. gorm_Create ops e db = (None, db') \<and> rows db' = (rows db)(key e \<mapsto> e)"
  using assms by (simp_all add: gorm_table_def)

lemma save_channel_table:
  assumes t: "gorm_table ops channel_key rows"
  shows "\<exists>c' db'. SaveChannel ops now1 now2 c db = (None, c', db') \<and> rows db' = (rows db)(channel_key c \<mapsto> c') \<and>
    c' \<in> {c\<lparr>ch_UpdatedAt := now1\<rparr>, c\<lparr>ch_UpdatedAt := now1, ch_CreatedAt := now2\<rparr>}"
proof -
  let ?c = "c\<lparr>ch_UpdatedAt := now1\<rparr>"
  let ?c2 = "?c\<lparr>ch_CreatedAt := now2\<rparr>"
  have keys: "channel_key ?c = channel_key c" "channel_key ?c2 = channel_key c" by (simp_all add: channel_key_def)
  obtain n db1 where s: "gorm_Save ops ?c db = ((None, n), db1)"
    and r: "rows db1 = (if n = 0 then rows db else (rows db)(channel_key ?c \<mapsto> ?c))"
    using gorm_table_writes(1) [OF t, of ?c db] by blast
  obtain db2 where k: "gorm_Create ops ?c2 db1 = (None, db2)" "rows db2 = (rows db1)(channel_key ?c2 \<mapsto> ?c2)"
    using gorm_table_writes(2) [OF t, of ?c2 db1] by blast
  show ?thesis
  proof (cases "n = 0")
    case True
    then have "SaveChannel ops now1 now2 c db = (None, ?c2, db2)" using s k by (simp add: SaveChannel_def Let_def)
    then show ?thesis using True r k keys by auto
  next
    case False
    then have "SaveChannel ops now1 now2 c db = (None, ?c, db1)" using s by (simp add: SaveChannel_def Let_def)
    then show ?thesis using False r keys by auto
  qed
qed

text \<open>
  EnsureChannel makes the channel exist and current. On a table without database errors whose
  rows lie under their keys, with credentials and profile given as maps: it returns the channel of
  the key with exactly these credentials and profile, says it was new exactly when the key had no
  row, and stores that channel there, leaving every other row alone; so GetChannel then returns it.
  An existing channel keeps its identity and expiry.
\<close>

theorem ensure_channel_stored:
  assumes "gorm_table ops channel_key rows" and "keyed channel_key (rows db)"
    and "params ''credentials'' = Some (ParamMap cred)" and "params ''profile'' = Some (ParamMap prof)"
  shows "\<exists>ch db'. EnsureChannel ops now now1 now2 p l params db = (Returned, Some (ch, rows db (p, l) = None), db') \<and>
    channel_key ch = (p, l) \<and> Credentials ch = Some cred \<and> Profile ch = Some prof \<and>
    rows db' = (rows db)((p, l) \<mapsto> ch) \<and> GetChannel ops p l db' = ((Some ch, None), db') \<and>
    (\<forall>old. rows db (p, l) = Some old \<longrightarrow> ch_IdentityKey ch = ch_IdentityKey old \<and> ExpiresAt ch = ExpiresAt old)"
proof -
  let ?c = "(case rows db (p, l) of Some c \<Rightarrow> c | None \<Rightarrow> NewChannel now p l)\<lparr>Credentials := Some cred, Profile := Some prof\<rparr>"
  have key: "channel_key ?c = (p, l)"
    using assms(2) by (auto simp: channel_key_def NewChannel_def keyed_def split: option.split)
  obtain c' db' where s: "SaveChannel ops now1 now2 ?c db = (None, c', db')" "rows db' = (rows db)(channel_key ?c \<mapsto> c')"
    and c': "c' \<in> {?c\<lparr>ch_UpdatedAt := now1\<rparr>, ?c\<lparr>ch_UpdatedAt := now1, ch_CreatedAt := now2\<rparr>}"
    using save_channel_table [OF assms(1)] by blast
  have "EnsureChannel ops now now1 now2 p l params db = (Returned, Some (c', rows db (p, l) = None), db')"
    using assms(3,4) s(1) get_row_table [OF assms(1), of p l db] by (simp add: EnsureChannel_def GetChannel_def Let_def)
  moreover have "channel_key c' = channel_key ?c" "Credentials c' = Some cred" "Profile c' = Some prof"
    "ch_IdentityKey c' = ch_IdentityKey ?c" "ExpiresAt c' = ExpiresAt ?c"
    using c' by (auto simp: channel_key_def)
  ultimately show ?thesis
    using key s(2) get_row_table [OF assms(1), of p l db'] by (auto simp: GetChannel_def)
qed

text \<open>A table as a function, on which Save writes nothing when the row is missing.\<close>

definition table_ops :: "(string auth_channel, string \<times> string \<Rightarrow> string auth_channel option) gorm_ops" where
  "table_ops = \<lparr>gorm_First = (\<lambda>a b db. ((case db (a, b) of Some e \<Rightarrow> Found e | None \<Rightarrow> RecordNotFound), db)),
     gorm_Save = (\<lambda>e db. if db (channel_key e) = None then ((None, 0), db) else ((None, 1), db(channel_key e \<mapsto> e))),
     gorm_Create = (\<lambda>e db. (None, db(channel_key e \<mapsto> e)))\<rparr>"

theorem ensure_channel_stored_witness:
  "\<exists>ch db'. EnsureChannel table_ops 1 2 3 ''google'' ''me'' (\<lambda>k. Some (ParamMap k)) (\<lambda>k. None) = (Returned, Some (ch, True), db') \<and>
    Credentials ch = Some ''credentials'' \<and> GetChannel table_ops ''google'' ''me'' db' = ((Some ch, None), db')"
proof -
  have t: "gorm_table table_ops channel_key (\<lambda>db. db)" by (auto simp: gorm_table_def table_ops_def)
  have k: "keyed channel_key (\<lambda>k. None :: string auth_channel option)" by (simp add: keyed_def)
  show ?thesis
    using ensure_channel_stored [OF t, where db = "\<lambda>k. None" and params = "\<lambda>k. Some (ParamMap k)" and cred = "''credentials''"
      and prof = "''profile''" and p = "''google''" and l = "''me''" and now = 1 and ?now1.0 = 2 and ?now2.0 = 3] k
    by auto
qed

text \<open>Without credentials or a profile, or with a nil map, the type assertion panics.\<close>

lemma ensure_channel_panics:
  assumes "params ''credentials'' = None"
  shows "fst (EnsureChannel ops now now1 now2 p l params db) = Panicked ''interface conversion''"
  using assms by (simp add: EnsureChannel_def Let_def split: prod.split)

text \<open>
  The error of the query is dropped: when the database cannot be read, a channel that exists is
  taken for new and saved afresh, without its identity.
\<close>

lemma query_error_overwrites:
  assumes "gorm_First ops p l db = (QueryError m, db)"
    and "params ''credentials'' = Some (ParamMap cred)" and "params ''profile'' = Some (ParamMap prof)"
    and "gorm_Save ops ((NewChannel now p l)\<lparr>Credentials := Some cred, Profile := Some prof, ch_UpdatedAt := now1\<rparr>) db = ((None, 1), db')"
  shows "EnsureChannel ops now now1 now2 p l params db =
    (Returned, Some ((NewChannel now p l)\<lparr>Credentials := Some cred, Profile := Some prof, ch_UpdatedAt := now1\<rparr>, True), db')"
  using assms by (simp add: EnsureChannel_def GetChannel_def get_row_def SaveChannel_def Let_def)

end
