(* ===== verification/GameRoom.thy ===== *)
theory GameRoom
  imports GoStrings
begin

text \<open>
  The game rooms of \<open>cmd/grpcws-demo/main.go\<close>: a room's players with their buffered channels, its
  event channel of capacity 100, and the goroutine that broadcasts. The methods hold the room's lock
  while they send an event, so a method is two steps: what it does up to the send, and the send with
  the rest. Coordinates are of any type with a zero.
\<close>

section \<open>Data\<close>

datatype event_payload =
    PlayerJoined string "32 word"
  | PlayerLeft string "32 word"
  | PlayerActionEvent string string string

record game_event =
  ge_EventId :: string
  ge_EventType :: string
  ge_Timestamp :: int
  ge_GameId :: string
  ge_Payload :: event_payload

record 'f player_state =
  ps_PlayerId :: string
  ps_pos :: "'f \<times> 'f \<times> 'f"
  ps_Health :: "32 word"
  ps_Score :: "32 word"

record 'f game_state =
  gs_StateId :: string
  gs_Timestamp :: int
  gs_Players :: "'f player_state list"

datatype 'f action_kind = Move 'f 'f 'f | Attack | UseItem | NoAction

record 'f player_action =
  pa_ActionId :: string
  pa_PlayerId :: string
  pa_Action :: "'f action_kind"

text \<open>A player's two channels, each of capacity 10; they are closed together.\<close>

record 'f player_conn =
  pc_playerId :: string
  pc_events :: "game_event list"
  pc_states :: "'f game_state list"
  pc_closed :: bool

text \<open>Connections are shared by pointer: \<open>conn_heap\<close> holds them by address.\<close>

record 'f game_room =
  gameId :: string
  conn_heap :: "nat \<Rightarrow> 'f player_conn"
  next_conn :: nat
  players :: "string \<Rightarrow> nat option"
  eventNum :: int
  stateNum :: int
  gameState :: "string \<Rightarrow> 'f player_state option"
  eventsChan :: "game_event list"

definition new_room :: "string \<Rightarrow> 'f game_room" where
  "new_room g = \<lparr>gameId = g, conn_heap = (\<lambda>a. \<lparr>pc_playerId = [], pc_events = [], pc_states = [], pc_closed = False\<rparr>),
     next_conn = 0, players = (\<lambda>p. None), eventNum = 0, stateNum = 0, gameState = (\<lambda>p. None), eventsChan = []\<rparr>"

text \<open>The hub: the second component says that a room was made and its broadcast goroutine started.\<close>

definition GetOrCreateRoom ::
  "string \<Rightarrow> (string \<Rightarrow> 'f game_room option) \<Rightarrow> 'f game_room \<times> bool \<times> (string \<Rightarrow> 'f game_room option)" where
  "GetOrCreateRoom g games =
     (case games g of
        Some room \<Rightarrow> (room, False, games)
      | None \<Rightarrow> (new_room g, True, games(g \<mapsto> new_room g)))"

section \<open>The methods\<close>

definition room_event :: "string \<Rightarrow> int \<Rightarrow> event_payload \<Rightarrow> 'f game_room \<Rightarrow> game_event" where
  "room_event t now p r =
     \<lparr>ge_EventId = ''evt-'' @ dec_int (eventNum r), ge_EventType = t, ge_Timestamp = now, ge_GameId = gameId r,
      ge_Payload = p\<rparr>"

definition player_count :: "'f game_room \<Rightarrow> 32 word" where
  "player_count r = of_nat (card (dom (players r)))"

text \<open>Each method up to its send: the event it will send and the room it leaves.\<close>

definition AddPlayer :: "int \<Rightarrow> string \<Rightarrow> ('f :: zero) game_room \<Rightarrow> nat \<times> game_event \<times> 'f game_room" where
  "AddPlayer now p r =
     (let a = next_conn r;
          conn = \<lparr>pc_playerId = p, pc_events = [], pc_states = [], pc_closed = False\<rparr>;
          r = r\<lparr>conn_heap := (conn_heap r)(a := conn), next_conn := a + 1, players := (players r)(p \<mapsto> a),
                gameState := (gameState r)(p \<mapsto> \<lparr>ps_PlayerId = p, ps_pos = (0, 0, 0), ps_Health = 100, ps_Score = 0\<rparr>),
                eventNum := eventNum r + 1\<rparr>
      in (a, room_event ''player_joined'' now (PlayerJoined p (player_count r)) r, r))"

definition RemovePlayer :: "int \<Rightarrow> string \<Rightarrow> 'f game_room \<Rightarrow> outcome \<times> (game_event \<times> 'f game_room) option" where
  "RemovePlayer now p r =
     (case players r p of
        None \<Rightarrow> (Returned, None)
      | Some a \<Rightarrow>
          if pc_closed (conn_heap r a) then (Panicked ''close of closed channel'', None)
          else
            (let r = r\<lparr>conn_heap := (conn_heap r)(a := (conn_heap r a)\<lparr>pc_closed := True\<rparr>),
                       players := (players r)(p := None), gameState := (gameState r)(p := None),
                       eventNum := eventNum r + 1\<rparr>
             in (Returned, Some (room_event ''player_left'' now (PlayerLeft p (player_count r)) r, r))))"

definition smin :: "32 word \<Rightarrow> 32 word \<Rightarrow> 32 word" where
  "smin a b = (if sint b < sint a then b else a)"

definition apply_action :: "'f action_kind \<Rightarrow> 'f player_state \<Rightarrow> string \<times> 'f player_state" where
  "apply_action act p =
     (case act of
        Move x y z \<Rightarrow> (''move'', p\<lparr>ps_pos := (x, y, z)\<rparr>)
      | Attack \<Rightarrow> (''attack'', p\<lparr>ps_Score := ps_Score p + 10\<rparr>)
      | UseItem \<Rightarrow> (''use_item'', p\<lparr>ps_Health := smin 100 (ps_Health p + 20)\<rparr>)
      | NoAction \<Rightarrow> (''unknown'', p))"

definition ProcessAction :: "int \<Rightarrow> 'f player_action \<Rightarrow> ('f :: zero) game_room \<Rightarrow> game_event \<times> 'f game_room" where
  "ProcessAction now act r =
     (let p = pa_PlayerId act;
          player = (case gameState r p of
              Some s \<Rightarrow> s
            | None \<Rightarrow> \<lparr>ps_PlayerId = p, ps_pos = (0, 0, 0), ps_Health = 100, ps_Score = 0\<rparr>);
          (actionType, player) = apply_action (pa_Action act) player;
          r = r\<lparr>gameState := (gameState r)(p \<mapsto> player), eventNum := eventNum r + 1\<rparr>
      in (room_event ''player_action'' now (PlayerActionEvent p actionType (pa_ActionId act)) r, r))"

text \<open>
  A send that does not block: dropped when the buffer is full, a panic when the channel is closed.
  \<open>order\<close> is the order in which the range visits the players.
\<close>

definition push_state :: "'f game_state \<Rightarrow> 'f player_conn \<Rightarrow> 'f player_conn" where
  "push_state st c = (if length (pc_states c) < 10 then c\<lparr>pc_states := pc_states c @ [st]\<rparr> else c)"

definition push_event :: "game_event \<Rightarrow> 'f player_conn \<Rightarrow> 'f player_conn" where
  "push_event e c = (if length (pc_events c) < 10 then c\<lparr>pc_events := pc_events c @ [e]\<rparr> else c)"

fun to_players :: "('f player_conn \<Rightarrow> 'f player_conn) \<Rightarrow> string list \<Rightarrow> 'f game_room \<Rightarrow> outcome \<times> 'f game_room" where
  "to_players push [] r = (Returned, r)"
| "to_players push (p # order) r =
     (case players r p of
        None \<Rightarrow> to_players push order r
      | Some a \<Rightarrow>
          if pc_closed (conn_heap r a) then (Panicked ''send on closed channel'', r)
          else to_players push order (r\<lparr>conn_heap := (conn_heap r)(a := push (conn_heap r a))\<rparr>))"

text \<open>The rest of ProcessAction after its send; \<open>listed\<close> is the order in which the game state is ranged over.\<close>

definition ProcessAction_rest ::
  "int \<Rightarrow> string list \<Rightarrow> string list \<Rightarrow> 'f game_room \<Rightarrow> outcome \<times> 'f game_state \<times> 'f game_room" where
  "ProcessAction_rest now listed order r =
     (let r = r\<lparr>stateNum := stateNum r + 1\<rparr>;
          state = \<lparr>gs_StateId = ''state-'' @ dec_int (stateNum r), gs_Timestamp = now,
                   gs_Players = map (\<lambda>p. the (gameState r p)) (filter (\<lambda>p. gameState r p \<noteq> None) listed)\<rparr>
      in (case to_players (push_state state) order r of (out, r) \<Rightarrow> (out, state, r)))"

text \<open>One turn of \<open>broadcastLoop\<close> under the read lock.\<close>

definition broadcast :: "game_event \<Rightarrow> string list \<Rightarrow> 'f game_room \<Rightarrow> outcome \<times> 'f game_room" where
  "broadcast e order r = to_players (push_event e) order r"

section \<open>The room with its goroutines\<close>

text \<open>
  \<open>rs_writer\<close> is the method that holds the lock, if one does, with the event it is sending;
  \<open>rs_rest\<close> says whether it is ProcessAction, which has more to do. \<open>rs_loop\<close> is the event that the
  broadcast goroutine has received and not yet delivered. \<open>rs_sent\<close> is the history of the channel.
\<close>

record 'f room_sys =
  rs_room :: "'f game_room"
  rs_writer :: "game_event option"
  rs_rest :: bool
  rs_loop :: "game_event option"
  rs_sent :: "game_event list"
  rs_panic :: bool

definition room_start :: "string \<Rightarrow> 'f room_sys" where
  "room_start g = \<lparr>rs_room = new_room g, rs_writer = None, rs_rest = False, rs_loop = None, rs_sent = [], rs_panic = False\<rparr>"

definition room_visits :: "string list \<Rightarrow> (string \<Rightarrow> 'a option) \<Rightarrow> bool" where
  "room_visits order m \<longleftrightarrow> distinct order \<and> set order = dom m"

inductive room_step :: "('f :: zero) room_sys \<Rightarrow> 'f room_sys \<Rightarrow> bool" where
  join: "rs_writer s = None \<Longrightarrow> AddPlayer now p (rs_room s) = (a, e, r) \<Longrightarrow>
    room_step s (s\<lparr>rs_room := r, rs_writer := Some e, rs_rest := False\<rparr>)"
| leave: "rs_writer s = None \<Longrightarrow> RemovePlayer now p (rs_room s) = (Returned, Some (e, r)) \<Longrightarrow>
    room_step s (s\<lparr>rs_room := r, rs_writer := Some e, rs_rest := False\<rparr>)"
| leave_panic: "rs_writer s = None \<Longrightarrow> RemovePlayer now p (rs_room s) = (Panicked m, x) \<Longrightarrow>
    room_step s (s\<lparr>rs_panic := True\<rparr>)"
| act: "rs_writer s = None \<Longrightarrow> ProcessAction now a (rs_room s) = (e, r) \<Longrightarrow>
    room_step s (s\<lparr>rs_room := r, rs_writer := Some e, rs_rest := True\<rparr>)"
| send: "rs_writer s = Some e \<Longrightarrow> length (eventsChan (rs_room s)) < 100 \<Longrightarrow> \<not> rs_rest s \<Longrightarrow>
    room_step s (s\<lparr>rs_room := (rs_room s)\<lparr>eventsChan := eventsChan (rs_room s) @ [e]\<rparr>, rs_writer := None,
      rs_sent := rs_sent s @ [e]\<rparr>)"
| send_act: "rs_writer s = Some e \<Longrightarrow> length (eventsChan (rs_room s)) < 100 \<Longrightarrow> rs_rest s \<Longrightarrow>
    room_visits listed (gameState (rs_room s)) \<Longrightarrow> room_visits order (players (rs_room s)) \<Longrightarrow>
    ProcessAction_rest now listed order ((rs_room s)\<lparr>eventsChan := eventsChan (rs_room s) @ [e]\<rparr>) = (out, st, r) \<Longrightarrow>
    room_step s (s\<lparr>rs_room := r, rs_writer := None, rs_sent := rs_sent s @ [e], rs_panic := (rs_panic s \<or> out \<noteq> Returned)\<rparr>)"
| take_event: "rs_loop s = None \<Longrightarrow> eventsChan (rs_room s) = e # es \<Longrightarrow>
    room_step s (s\<lparr>rs_room := (rs_room s)\<lparr>eventsChan := es\<rparr>, rs_loop := Some e\<rparr>)"
| deliver: "rs_loop s = Some e \<Longrightarrow> rs_writer s = None \<Longrightarrow> room_visits order (players (rs_room s)) \<Longrightarrow>
    broadcast e order (rs_room s) = (out, r) \<Longrightarrow>
    room_step s (s\<lparr>rs_room := r, rs_loop := None, rs_panic := (rs_panic s \<or> out \<noteq> Returned)\<rparr>)"
| consume_event: "pc_events (conn_heap (rs_room s) a) = e # es \<Longrightarrow>
    room_step s (s\<lparr>rs_room := (rs_room s)\<lparr>conn_heap := (conn_heap (rs_room s))(a :=
      (conn_heap (rs_room s) a)\<lparr>pc_events := es\<rparr>)\<rparr>\<rparr>)"
| consume_state: "pc_states (conn_heap (rs_room s) a) = st # sts \<Longrightarrow>
    room_step s (s\<lparr>rs_room := (rs_room s)\<lparr>conn_heap := (conn_heap (rs_room s))(a :=
      (conn_heap (rs_room s) a)\<lparr>pc_states := sts\<rparr>)\<rparr>\<rparr>)"

inductive_cases room_stepE: "room_step s s'"

definition room_reach :: "string \<Rightarrow> ('f :: zero) room_sys \<Rightarrow> bool" where
  "room_reach g s = rtranclp room_step (room_start g) s"

section \<open>The invariant\<close>

text \<open>
  Every registered connection is open, known to one player only, and made by the room; buffers
  respect their capacities.
\<close>

definition room_inv :: "'f game_room \<Rightarrow> bool" where
  "room_inv r \<longleftrightarrow>
     (\<forall>p a. players r p = Some a \<longrightarrow> a < next_conn r \<and> \<not> pc_closed (conn_heap r a)) \<and>
     (\<forall>p q a. players r p = Some a \<and> players r q = Some a \<longrightarrow> p = q) \<and>
     (\<forall>a. length (pc_events (conn_heap r a)) \<le> 10 \<and> length (pc_states (conn_heap r a)) \<le> 10) \<and>
     finite (dom (players r)) \<and> finite (dom (gameState r))"

lemma room_invD:
  "room_inv r \<Longrightarrow> players r p = Some a \<Longrightarrow> a < next_conn r"
  "room_inv r \<Longrightarrow> players r p = Some a \<Longrightarrow> \<not> pc_closed (conn_heap r a)"
  "room_inv r \<Longrightarrow> players r p = Some a \<Longrightarrow> players r q = Some a \<Longrightarrow> p = q"
  by (auto simp: room_inv_def)

lemma room_inv_AddPlayer: "room_inv r \<Longrightarrow> AddPlayer now p r = (a, e, r') \<Longrightarrow> room_inv r'"
  by (fastforce simp: room_inv_def AddPlayer_def Let_def split: if_splits)

lemma room_inv_RemovePlayer: "room_inv r \<Longrightarrow> RemovePlayer now p r = (Returned, Some (e, r')) \<Longrightarrow> room_inv r'"
  by (fastforce simp: room_inv_def RemovePlayer_def Let_def split: if_splits option.splits)

lemma RemovePlayer_no_panic: "room_inv r \<Longrightarrow> RemovePlayer now p r \<noteq> (Panicked m, x)"
  by (auto simp: room_inv_def RemovePlayer_def Let_def split: option.split)

lemma room_inv_ProcessAction: "room_inv r \<Longrightarrow> ProcessAction now a r = (e, r') \<Longrightarrow> room_inv r'"
  by (auto simp: room_inv_def ProcessAction_def Let_def split: prod.splits)

text \<open>A push that keeps the capacities and opens or closes nothing.\<close>

definition mild :: "('f player_conn \<Rightarrow> 'f player_conn) \<Rightarrow> bool" where
  "mild push \<longleftrightarrow> (\<forall>c. pc_closed (push c) = pc_closed c \<and>
     (length (pc_events c) \<le> 10 \<longrightarrow> length (pc_events (push c)) \<le> 10) \<and>
     (length (pc_states c) \<le> 10 \<longrightarrow> length (pc_states (push c)) \<le> 10))"

lemma mild_push [simp]: "mild (push_state st)" "mild (push_event e)"
  by (simp_all add: mild_def push_state_def push_event_def)

lemma room_inv_at: "room_inv r \<Longrightarrow> mild push \<Longrightarrow> room_inv (r\<lparr>conn_heap := (conn_heap r)(a := push (conn_heap r a))\<rparr>)"
  by (auto simp: room_inv_def mild_def)

lemma to_players_ok:
  "room_inv r \<Longrightarrow> mild push \<Longrightarrow> to_players push order r = (out, r') \<Longrightarrow>
   out = Returned \<and> room_inv r' \<and> eventsChan r' = eventsChan r \<and> eventNum r' = eventNum r \<and> players r' = players r"
proof (induction order arbitrary: r)
  case (Cons p order)
  show ?case
  proof (cases "players r p")
    case None
    then show ?thesis using Cons by simp
  next
    case (Some a)
    then have "to_players push order (r\<lparr>conn_heap := (conn_heap r)(a := push (conn_heap r a))\<rparr>) = (out, r')"
      using Cons.prems room_invD(2) by fastforce
    then show ?thesis using Cons.IH [OF room_inv_at [OF Cons.prems(1,2)] Cons.prems(2)] by simp
  qed
qed simp

lemma ProcessAction_rest_ok:
  assumes "room_inv r" and "ProcessAction_rest now listed order r = (out, st, r')"
  shows "out = Returned \<and> room_inv r' \<and> eventsChan r' = eventsChan r \<and> eventNum r' = eventNum r"
proof -
  have "room_inv (r\<lparr>stateNum := stateNum r + 1\<rparr>)" using assms(1) by (simp add: room_inv_def)
  from to_players_ok [OF this mild_push(1)] assms(2) show ?thesis
    by (auto simp: ProcessAction_rest_def Let_def split: prod.splits)
qed

text \<open>
  The history of the event channel: the counter is the number of events sent, one more while a
  method is sending; the events are numbered from 1; the channel holds the newest of them.
\<close>

definition history :: "int \<Rightarrow> game_event option \<Rightarrow> game_event list \<Rightarrow> game_event list \<Rightarrow> bool" where
  "history n writer sent chan \<longleftrightarrow>
     n = int (length sent) + of_bool (writer \<noteq> None) \<and>
     (\<forall>e. writer = Some e \<longrightarrow> ge_EventId e = ''evt-'' @ dec_int n) \<and>
     map ge_EventId sent = map (\<lambda>i. ''evt-'' @ dec_int (int i)) [1..<Suc (length sent)] \<and>
     (\<exists>before. sent = before @ chan)"

lemma history_take: "history n w sent (e # es) \<Longrightarrow> history n w sent es"
  unfolding history_def by (metis append.assoc append_Cons append_Nil)

lemma history_method:
  "history n None sent chan \<Longrightarrow> ge_EventId e = ''evt-'' @ dec_int (n + 1) \<Longrightarrow> history (n + 1) (Some e) sent chan"
  by (simp add: history_def del: upt_Suc)

lemma history_send:
  assumes "history n (Some e) sent chan"
  shows "history n None (sent @ [e]) (chan @ [e])"
proof -
  have n: "n = int (length sent) + 1" and e: "ge_EventId e = ''evt-'' @ dec_int n"
    and m: "map ge_EventId sent = map (\<lambda>i. ''evt-'' @ dec_int (int i)) [1..<Suc (length sent)]"
    and c: "\<exists>before. sent = before @ chan"
    using assms unfolding history_def by auto
  have "[1..<Suc (length (sent @ [e]))] = [1..<Suc (length sent)] @ [Suc (length sent)]" by simp
  then have "map ge_EventId (sent @ [e]) = map (\<lambda>i. ''evt-'' @ dec_int (int i)) [1..<Suc (length (sent @ [e]))]"
    using m e n by (simp add: add.commute del: upt_Suc)
  then show ?thesis using n c by (simp add: history_def del: upt_Suc)
qed

definition sys_inv :: "'f room_sys \<Rightarrow> bool" where
  "sys_inv s \<longleftrightarrow> room_inv (rs_room s) \<and> \<not> rs_panic s \<and> length (eventsChan (rs_room s)) \<le> 100 \<and>
     history (eventNum (rs_room s)) (rs_writer s) (rs_sent s) (eventsChan (rs_room s))"

lemma sys_inv_start: "sys_inv (room_start g)"
  by (simp add: sys_inv_def room_start_def new_room_def room_inv_def history_def)

text \<open>The three methods number their event with the counter they leave, and touch no channel.\<close>

lemma method_events:
  "AddPlayer now p r = (a, e, r') \<Longrightarrow>
     ge_EventId e = ''evt-'' @ dec_int (eventNum r') \<and> eventNum r' = eventNum r + 1 \<and> eventsChan r' = eventsChan r"
  "RemovePlayer now p r = (Returned, Some (e, r')) \<Longrightarrow>
     ge_EventId e = ''evt-'' @ dec_int (eventNum r') \<and> eventNum r' = eventNum r + 1 \<and> eventsChan r' = eventsChan r"
  "ProcessAction now act r = (e, r') \<Longrightarrow>
     ge_EventId e = ''evt-'' @ dec_int (eventNum r') \<and> eventNum r' = eventNum r + 1 \<and> eventsChan r' = eventsChan r"
  by (auto simp: AddPlayer_def RemovePlayer_def ProcessAction_def room_event_def Let_def split: option.splits if_splits prod.splits)

lemma sys_inv_method:
  assumes "sys_inv s" and "rs_writer s = None" and "room_inv r"
    and "ge_EventId e = ''evt-'' @ dec_int (eventNum r) \<and> eventNum r = eventNum (rs_room s) + 1 \<and> eventsChan r = eventsChan (rs_room s)"
  shows "sys_inv (s\<lparr>rs_room := r, rs_writer := Some e, rs_rest := b\<rparr>)"
  using assms history_method [of "eventNum (rs_room s)" "rs_sent s" "eventsChan (rs_room s)" e]
  by (simp add: sys_inv_def)

lemma sys_inv_sent:
  assumes "sys_inv s" and "rs_writer s = Some e" and "length (eventsChan (rs_room s)) < 100"
    and "room_inv r" and "eventsChan r = eventsChan (rs_room s) @ [e]" and "eventNum r = eventNum (rs_room s)"
  shows "sys_inv (s\<lparr>rs_room := r, rs_writer := None, rs_sent := rs_sent s @ [e]\<rparr>)"
  using assms history_send [of "eventNum (rs_room s)" e "rs_sent s" "eventsChan (rs_room s)"]
  by (simp add: sys_inv_def)

lemma sys_inv_step:
  assumes inv: "sys_inv s" and "room_step s s'"
  shows "sys_inv s'"
  using assms(2)
proof (cases rule: room_step.cases)
  case (join now p a e r)
  then show ?thesis
    using sys_inv_method [OF inv, of r e False] method_events(1) [of now p "rs_room s" a e r]
      room_inv_AddPlayer [of "rs_room s" now p a e r] inv by (simp add: sys_inv_def)
next
  case (leave now p e r)
  then show ?thesis
    using sys_inv_method [OF inv, of r e False] method_events(2) [of now p "rs_room s" e r]
      room_inv_RemovePlayer [of "rs_room s" now p e r] inv by (simp add: sys_inv_def)
next
  case (leave_panic now p m x)
  then show ?thesis using RemovePlayer_no_panic [of "rs_room s" now p m x] inv by (simp add: sys_inv_def)
next
  case (act now a e r)
  then show ?thesis
    using sys_inv_method [OF inv, of r e True] method_events(3) [of now a "rs_room s" e r]
      room_inv_ProcessAction [of "rs_room s" now a e r] inv by (simp add: sys_inv_def)
next
  case (send e)
  then show ?thesis
    using sys_inv_sent [OF inv, of e "(rs_room s)\<lparr>eventsChan := eventsChan (rs_room s) @ [e]\<rparr>"] inv
    by (simp add: sys_inv_def room_inv_def)
next
  case (send_act e listed order now out st r)
  have "room_inv ((rs_room s)\<lparr>eventsChan := eventsChan (rs_room s) @ [e]\<rparr>)" using inv by (simp add: sys_inv_def room_inv_def)
  from ProcessAction_rest_ok [OF this send_act(7)]
  have "out = Returned" "sys_inv (s\<lparr>rs_room := r, rs_writer := None, rs_sent := rs_sent s @ [e]\<rparr>)"
    using sys_inv_sent [OF inv send_act(2,3), of r] by simp_all
  then show ?thesis using send_act(1) by (simp add: sys_inv_def)
next
  case (take_event e es)
  then show ?thesis
    using inv history_take [of "eventNum (rs_room s)" "rs_writer s" "rs_sent s" e es]
    by (simp add: sys_inv_def room_inv_def)
next
  case (deliver e order out r)
  then show ?thesis
    using to_players_ok [of "rs_room s" "push_event e" order out r] inv
    by (simp add: sys_inv_def broadcast_def)
next
  case (consume_event a e es)
  have "length es \<le> 10" using inv consume_event(2) by (auto simp: sys_inv_def room_inv_def dest!: spec [of _ a])
  then show ?thesis using inv consume_event(1) by (simp add: sys_inv_def room_inv_def)
next
  case (consume_state a st sts)
  have "length sts \<le> 10" using inv consume_state(2) by (auto simp: sys_inv_def room_inv_def dest!: spec [of _ a])
  then show ?thesis using inv consume_state(1) by (simp add: sys_inv_def room_inv_def)
qed

lemma sys_inv_reach: "room_reach g s \<Longrightarrow> sys_inv s"
  unfolding room_reach_def by (induction rule: rtranclp_induct) (auto intro: sys_inv_start sys_inv_step)

end
