(* ===== verification/GameProps.thy ===== *)
theory GameProps
  imports GameRoom GrpcStreams
begin

text \<open>
  What holds of the game rooms in every interleaving, when a room comes to a standstill, and the
  three demo streams of \<open>cmd/grpcws-demo/main.go\<close> over the rooms.
\<close>

section \<open>Safety\<close>


lemma join_then_send:
  fixes s :: "('f :: zero) room_sys"
  assumes "rs_writer s = None" and "length (eventsChan (rs_room s)) < 100"
  shows "\<exists>s'. rtranclp room_step s s' \<and> rs_writer s' = None \<and> rs_loop s' = rs_loop s \<and>
    length (eventsChan (rs_room s')) = Suc (length (eventsChan (rs_room s))) \<and>
    length (rs_sent s') = Suc (length (rs_sent s))"
proof -
  obtain a e r where j: "AddPlayer 0 ''p'' (rs_room s) = (a, e, r)" by (rule prod_cases3)
  let ?s1 = "s\<lparr>rs_room := r, rs_writer := Some e, rs_rest := False\<rparr>"
  have 1: "room_step s ?s1" by (rule room_step.join [OF assms(1) j])
  have c: "eventsChan r = eventsChan (rs_room s)" using method_events(1) [OF j] by simp
  let ?s2 = "?s1\<lparr>rs_room := (rs_room ?s1)\<lparr>eventsChan := eventsChan (rs_room ?s1) @ [e]\<rparr>, rs_writer := None,
      rs_sent := rs_sent ?s1 @ [e]\<rparr>"
  have 2: "room_step ?s1 ?s2" using assms(2) c by (intro room_step.send) simp_all
  have "rtranclp room_step s ?s2" using 1 2 by simp
  then show ?thesis using c by (intro exI [of _ ?s2]) simp
qed

definition one_event :: "int room_sys \<Rightarrow> bool" where
  "one_event s \<longleftrightarrow> length (rs_sent s) = 1"


text \<open>A delivery reaches every player with room in its buffer, and only players.\<close>

lemma deliver_reaches_players:
  assumes "room_inv r" and "mild push" and "distinct order" and "set order \<subseteq> dom (players r)"
    and "to_players push order r = (out, r')"
  shows "conn_heap r' a = (if \<exists>p \<in> set order. players r p = Some a then push (conn_heap r a) else conn_heap r a)"
  using assms
proof (induction order arbitrary: r)
  case (Cons p order)
  obtain b where b: "players r p = Some b" using Cons.prems(4) by auto
  let ?r = "r\<lparr>conn_heap := (conn_heap r)(b := push (conn_heap r b))\<rparr>"
  have "to_players push order ?r = (out, r')" using Cons.prems(1,5) b room_invD(2) by fastforce
  from Cons.IH [OF room_inv_at [OF Cons.prems(1,2)] Cons.prems(2) _ _ this]
  have "conn_heap r' a = (if \<exists>q \<in> set order. players r q = Some a then push (conn_heap ?r a) else conn_heap ?r a)"
    using Cons.prems(3,4) by simp
  moreover have "\<not> (\<exists>q \<in> set order. players r q = Some b)"
    using room_invD(3) [OF Cons.prems(1) b] Cons.prems(3) by auto
  ultimately show ?case using b by auto
qed simp

text \<open>
  A player who joins again under the same id loses the first connection: it gets no more events and
  is never closed.
\<close>

lemma rejoin_orphans:
  assumes "AddPlayer now p r = (a, e, r1)" and "AddPlayer now' p r1 = (b, e', r2)"
  shows "a \<noteq> b \<and> players r2 p = Some b \<and> \<not> pc_closed (conn_heap r2 a)"
  using assms by (auto simp: AddPlayer_def Let_def)

section \<open>Standstill\<close>

text \<open>
  The broadcast goroutine holds an event and waits for the read lock, while a method holds the lock
  and waits for room in the full event channel, which only that goroutine makes.
\<close>

definition deadlocked :: "'f room_sys \<Rightarrow> bool" where
  "deadlocked s \<longleftrightarrow> rs_writer s \<noteq> None \<and> rs_loop s \<noteq> None \<and> 100 \<le> length (eventsChan (rs_room s))"

lemma deadlocked_step:
  "deadlocked s \<Longrightarrow> room_step s s' \<Longrightarrow>
   deadlocked s' \<and> rs_writer s' = rs_writer s \<and> rs_loop s' = rs_loop s \<and> rs_sent s' = rs_sent s"
  by (erule room_step.cases) (auto simp: deadlocked_def)

lemma deadlocked_forever:
  assumes "rtranclp room_step s s'" and "deadlocked s"
  shows "deadlocked s' \<and> rs_writer s' = rs_writer s \<and> rs_loop s' = rs_loop s \<and> rs_sent s' = rs_sent s"
  using assms by (induction rule: rtranclp_induct) (auto dest: deadlocked_step)

lemma visits_exists: "finite (dom m) \<Longrightarrow> \<exists>order. room_visits order m"
  unfolding room_visits_def by (metis finite_distinct_list)

lemma writer_can_send:
  assumes "sys_inv s" and "rs_writer s = Some e" and "length (eventsChan (rs_room s)) < 100"
  shows "\<exists>s'. room_step s s' \<and> rs_writer s' = None"
proof (cases "rs_rest s")
  case False
  then show ?thesis using room_step.send [OF assms(2,3)] by force
next
  case True
  obtain listed where l: "room_visits listed (gameState (rs_room s))"
    using assms(1) visits_exists [of "gameState (rs_room s)"] by (auto simp: sys_inv_def room_inv_def)
  obtain order where o: "room_visits order (players (rs_room s))"
    using assms(1) visits_exists [of "players (rs_room s)"] by (auto simp: sys_inv_def room_inv_def)
  obtain out st r where "ProcessAction_rest 0 listed order ((rs_room s)\<lparr>eventsChan := eventsChan (rs_room s) @ [e]\<rparr>) = (out, st, r)"
    by (rule prod_cases3)
  from room_step.send_act [OF assms(2,3) True l o this] show ?thesis by force
qed

text \<open>
  C39: When a room comes to a standstill. In every reachable state in which a method waits to send its
  event, the method can still finish exactly unless the event channel is full while the broadcast
  goroutine holds an event it has not delivered; from such a state no step ever completes the method,
  delivers the event or sends another one.
\<close>

theorem room_standstill:
  assumes "room_reach g s" and "rs_writer s = Some e"
  shows "(\<exists>s'. rtranclp room_step s s' \<and> rs_writer s' = None) \<longleftrightarrow>
    \<not> (rs_loop s \<noteq> None \<and> length (eventsChan (rs_room s)) = 100)"
proof -
  have inv: "sys_inv s" by (rule sys_inv_reach [OF assms(1)])
  then have le: "length (eventsChan (rs_room s)) \<le> 100" by (simp add: sys_inv_def)
  show ?thesis
  proof (cases "length (eventsChan (rs_room s)) < 100")
    case True
    then show ?thesis using writer_can_send [OF inv assms(2) True] by auto
  next
    case full: False
    then have len: "length (eventsChan (rs_room s)) = 100" using le by simp
    show ?thesis
    proof (cases "rs_loop s")
      case None
      obtain e1 es where es: "eventsChan (rs_room s) = e1 # es" using len by (cases "eventsChan (rs_room s)") auto
      let ?s1 = "s\<lparr>rs_room := (rs_room s)\<lparr>eventsChan := es\<rparr>, rs_loop := Some e1\<rparr>"
      have 1: "room_step s ?s1" by (rule room_step.take_event [OF None es])
      have "length (eventsChan (rs_room ?s1)) < 100" using len es by simp
      from writer_can_send [OF sys_inv_step [OF inv 1] _ this] assms(2)
      obtain s2 where "room_step ?s1 s2" "rs_writer s2 = None" by auto
      then show ?thesis using 1 None by (meson converse_rtranclp_into_rtranclp r_into_rtranclp)
    next
      case (Some held)
      then have "deadlocked s" using assms(2) len by (simp add: deadlocked_def)
      then show ?thesis using deadlocked_forever [of s] Some len assms(2) by auto
    qed
  qed
qed

text \<open>Such a state is reachable: the goroutine takes the first event, and 101 joins run before it gets the lock.\<close>

lemma fill_channel:
  fixes s :: "('f :: zero) room_sys"
  assumes "rs_writer s = None" and "length (eventsChan (rs_room s)) + n \<le> 100"
  shows "\<exists>s'. rtranclp room_step s s' \<and> rs_writer s' = None \<and> rs_loop s' = rs_loop s \<and>
    length (eventsChan (rs_room s')) = length (eventsChan (rs_room s)) + n"
  using assms(2)
proof (induction n)
  case 0
  then show ?case using assms(1) by auto
next
  case (Suc n)
  then obtain s1 where s1: "rtranclp room_step s s1" "rs_writer s1 = None" "rs_loop s1 = rs_loop s"
    "length (eventsChan (rs_room s1)) = length (eventsChan (rs_room s)) + n" by auto
  obtain s2 where "rtranclp room_step s1 s2" "rs_writer s2 = None" "rs_loop s2 = rs_loop s1"
    "length (eventsChan (rs_room s2)) = Suc (length (eventsChan (rs_room s1)))"
    using join_then_send [OF s1(2)] s1(4) Suc.prems by auto
  then show ?case using s1 by (intro exI [of _ s2]) (auto dest: rtranclp_trans)
qed

lemma room_can_deadlock: "\<exists>s :: ('f :: zero) room_sys. room_reach g s \<and> deadlocked s"
proof -
  let ?s0 = "room_start g :: 'f room_sys"
  have "rs_writer ?s0 = None" "length (eventsChan (rs_room ?s0)) < 100" by (simp_all add: room_start_def new_room_def)
  from join_then_send [OF this] obtain s1 :: "'f room_sys" where s1: "rtranclp room_step ?s0 s1" "rs_writer s1 = None" "rs_loop s1 = None"
    "length (eventsChan (rs_room s1)) = 1" by (auto simp: room_start_def new_room_def)
  then obtain e es where e: "eventsChan (rs_room s1) = e # es" "es = []" by (cases "eventsChan (rs_room s1)") auto
  let ?s2 = "s1\<lparr>rs_room := (rs_room s1)\<lparr>eventsChan := es\<rparr>, rs_loop := Some e\<rparr>"
  have 2: "room_step s1 ?s2" by (rule room_step.take_event [OF s1(3) e(1)])
  obtain s3 where s3: "rtranclp room_step ?s2 s3" "rs_writer s3 = None" "rs_loop s3 = Some e"
    "length (eventsChan (rs_room s3)) = 100"
    using fill_channel [of ?s2 100] s1(2) e(2) by auto
  obtain a e' r where j: "AddPlayer 0 ''p'' (rs_room s3) = (a, e', r)" by (rule prod_cases3)
  let ?s4 = "s3\<lparr>rs_room := r, rs_writer := Some e', rs_rest := False\<rparr>"
  have "room_step s3 ?s4" by (rule room_step.join [OF s3(2) j])
  moreover have "rtranclp room_step ?s0 s3"
    using s1(1) 2 s3(1) by (meson rtranclp.rtrancl_into_rtrancl rtranclp_trans)
  moreover have "deadlocked ?s4" using s3 method_events(1) [OF j] by (simp add: deadlocked_def)
  ultimately show ?thesis
    unfolding room_reach_def by (meson rtranclp.rtrancl_into_rtrancl)
qed

theorem room_standstill_witness:
  "\<exists>s :: int room_sys. room_reach ''g'' s \<and> \<not> (\<exists>s'. rtranclp room_step s s' \<and> rs_writer s' = None)"
proof -
  obtain s :: "int room_sys" where s: "room_reach ''g'' s" "deadlocked s" using room_can_deadlock by blast
  then obtain e where e: "rs_writer s = Some e" by (auto simp: deadlocked_def)
  have "length (eventsChan (rs_room s)) \<le> 100" using sys_inv_reach [OF s(1)] by (simp add: sys_inv_def)
  then show ?thesis using room_standstill [OF s(1) e] s by (auto simp: deadlocked_def)
qed

section \<open>The demo streams\<close>

text \<open>
  \<open>SharedServerStream.Recv\<close>: with its context done it leaves the room and reports the end; an event
  from the player's channel; the end when that is closed and drained; otherwise it blocks. The
  select takes any ready case: \<open>cancelled\<close> says that it took the context's.
\<close>

definition SharedServerStream_Recv ::
  "bool \<Rightarrow> int \<Rightarrow> string \<Rightarrow> nat \<Rightarrow> 'f game_room \<Rightarrow> (game_event received \<times> game_event option \<times> 'f game_room) option" where
  "SharedServerStream_Recv cancelled now p a r =
     (if cancelled then
        (case RemovePlayer now p r of
           (_, None) \<Rightarrow> Some (RecvEOF, None, r)
         | (_, Some (e, r)) \<Rightarrow> Some (RecvEOF, Some e, r))
      else (case pc_events (conn_heap r a) of
          e # es \<Rightarrow> Some (Resp e, None, r\<lparr>conn_heap := (conn_heap r)(a := (conn_heap r a)\<lparr>pc_events := es\<rparr>)\<rparr>)
        | [] \<Rightarrow> if pc_closed (conn_heap r a) then Some (RecvEOF, None, r) else None))"

record shared_bidi_stream =
  sb_playerId :: string
  sb_room :: "string option"
  sb_closed :: bool
  sb_gameIdSet :: bool

definition NewSharedBidiStream :: shared_bidi_stream where
  "NewSharedBidiStream = \<lparr>sb_playerId = [], sb_room = None, sb_closed = False, sb_gameIdSet = False\<rparr>"

text \<open>What a call does to the rooms, in order.\<close>

datatype 'f room_call = JoinRoom string string | LeaveRoom string string | ActInRoom string "'f player_action"

definition SharedBidiStream_Send ::
  "'f player_action \<Rightarrow> shared_bidi_stream \<Rightarrow> string option \<times> 'f room_call list \<times> shared_bidi_stream" where
  "SharedBidiStream_Send action s =
     (if sb_closed s then (Some ''stream closed'', [], s)
      else if \<not> sb_gameIdSet s then
        (let g = (if pa_PlayerId action \<noteq> [] then ''shared-game'' else ''default'');
             s = s\<lparr>sb_room := Some g, sb_playerId := pa_PlayerId action, sb_gameIdSet := True\<rparr>
         in (None, [JoinRoom g (pa_PlayerId action), ActInRoom g action], s))
      else (None, (case sb_room s of Some g \<Rightarrow> [ActInRoom g action] | None \<Rightarrow> []), s))"

definition SharedBidiStream_CloseSend :: "shared_bidi_stream \<Rightarrow> 'f room_call list \<times> shared_bidi_stream" where
  "SharedBidiStream_CloseSend s =
     (if sb_closed s then ([], s)
      else ((case sb_room s of
          Some g \<Rightarrow> if sb_playerId s \<noteq> [] then [LeaveRoom g (sb_playerId s)] else []
        | None \<Rightarrow> []), s\<lparr>sb_closed := True\<rparr>))"

text \<open>
  Recv: before the first Send it polls until its context is done; afterwards it takes a state or
  the context's case, which leaves the player in the room.
\<close>

definition SharedBidiStream_Recv ::
  "shared_bidi_stream \<Rightarrow> bool \<Rightarrow> nat \<Rightarrow> 'f game_room \<Rightarrow> ('f game_state received \<times> 'f game_room) option" where
  "SharedBidiStream_Recv s cancelled a r =
     (if \<not> sb_gameIdSet s then if cancelled then Some (RecvEOF, r) else None
      else if cancelled then Some (RecvEOF, r)
      else (case pc_states (conn_heap r a) of
          st # sts \<Rightarrow> Some (Resp st, r\<lparr>conn_heap := (conn_heap r)(a := (conn_heap r a)\<lparr>pc_states := sts\<rparr>)\<rparr>)
        | [] \<Rightarrow> if pc_closed (conn_heap r a) then Some (RecvEOF, r) else None))"

lemma bidi_leaves_once:
  "fst (SharedBidiStream_CloseSend (snd (SharedBidiStream_CloseSend s))) = []"
  by (simp add: SharedBidiStream_CloseSend_def)

text \<open>A cancelled bidirectional stream, unlike a server stream, leaves its player in the room.\<close>

lemma cancelled_bidi_stays:
  "SharedBidiStream_Recv s True a r = Some (RecvEOF, r)"
  by (simp add: SharedBidiStream_Recv_def)

lemma cancelled_server_leaves:
  assumes "room_inv r" and "players r p = Some a"
  shows "\<exists>e r'. SharedServerStream_Recv True now p b r = Some (RecvEOF, Some e, r') \<and> players r' p = None"
  using assms by (auto simp: SharedServerStream_Recv_def RemovePlayer_def room_inv_def Let_def)

record command_summary =
  CommandsReceived :: "32 word"
  CommandsExecuted :: "32 word"
  CommandsFailed :: "32 word"
  SummaryErrors :: "string list"

text \<open>The client stream of the demo, over the ids of the commands; \<open>unlucky\<close> is the random draw of each.\<close>

definition MockClientStream_Send :: "string \<Rightarrow> string list \<Rightarrow> string option \<times> string list" where
  "MockClientStream_Send cmd commands = (None, commands @ [cmd])"

definition MockClientStream_CloseAndRecv :: "(nat \<Rightarrow> bool) \<Rightarrow> string list \<Rightarrow> command_summary" where
  "MockClientStream_CloseAndRecv unlucky commands =
     (let failed = filter (\<lambda>(i, cmd). unlucky i) (zip [0..<length commands] commands) in
      \<lparr>CommandsReceived = of_nat (length commands),
       CommandsExecuted = of_int (int (length commands) - int (length failed)),
       CommandsFailed = of_nat (length failed),
       SummaryErrors = map (\<lambda>(i, cmd). ''command '' @ cmd @ '' failed'') failed\<rparr>)"

lemma summary_adds_up:
  "CommandsReceived (MockClientStream_CloseAndRecv u cs) =
     CommandsExecuted (MockClientStream_CloseAndRecv u cs) + CommandsFailed (MockClientStream_CloseAndRecv u cs) \<and>
   of_nat (length (SummaryErrors (MockClientStream_CloseAndRecv u cs))) = CommandsFailed (MockClientStream_CloseAndRecv u cs)"
  by (simp add: MockClientStream_CloseAndRecv_def Let_def)

end
