(* ===== verification/GameState.thy ===== *)
theory GameState
  imports GameProps
begin

text \<open>
  The state of a game as a function of its events: a room of \<open>cmd/grpcws-demo/main.go\<close> refines the
  replay of the events that it has sent, and so does every state that it hands to its players.
\<close>

section \<open>The specification\<close>

text \<open>Health and score of each player, from the events alone.\<close>

fun replay_step :: "game_event \<Rightarrow> (string \<rightharpoonup> 32 word \<times> 32 word) \<Rightarrow> (string \<rightharpoonup> 32 word \<times> 32 word)" where
  "replay_step e m = (case ge_Payload e of
      PlayerJoined p n \<Rightarrow> m(p \<mapsto> (100, 0))
    | PlayerLeft p n \<Rightarrow> m(p := None)
    | PlayerActionEvent p t i \<Rightarrow>
        (case (case m p of Some v \<Rightarrow> v | None \<Rightarrow> (100, 0)) of
           (health, score) \<Rightarrow>
             m(p \<mapsto> (if t = ''use_item'' then smin 100 (health + 20) else health,
                      if t = ''attack'' then score + 10 else score))))"

definition replay :: "game_event list \<Rightarrow> (string \<rightharpoonup> 32 word \<times> 32 word)" where
  "replay es = fold replay_step es Map.empty"

lemma replay_simps [simp]: "replay [] = Map.empty" "replay (es @ [e]) = replay_step e (replay es)"
  by (simp_all add: replay_def)

text \<open>Nothing takes health away: everybody has 100 points, and a multiple of 10 as score.\<close>

definition healthy :: "32 word \<times> 32 word \<Rightarrow> bool" where
  "healthy v \<longleftrightarrow> fst v = 100 \<and> (\<exists>k. snd v = 10 * of_nat k)"

lemma healthy_rules:
  "healthy (100, 0)" "healthy (h, sc) \<Longrightarrow> healthy (smin 100 (h + 20), sc)" "healthy (h, sc) \<Longrightarrow> healthy (h, sc + 10)"
proof -
  show "healthy (100, 0)" unfolding healthy_def by (auto intro!: exI [of _ 0])
  show "healthy (h, sc) \<Longrightarrow> healthy (smin 100 (h + 20), sc)" by (auto simp: healthy_def smin_def)
  assume "healthy (h, sc)"
  then obtain k where "h = 100" "sc = 10 * of_nat k" by (auto simp: healthy_def)
  then have "h = 100 \<and> sc + 10 = 10 * of_nat (Suc k)" by (simp add: algebra_simps)
  then show "healthy (h, sc + 10)" unfolding healthy_def fst_conv snd_conv by blast
qed

lemma replay_healthy: "replay es p = Some v \<Longrightarrow> healthy v"
proof (induction es arbitrary: p v rule: rev_induct)
  case (snoc e es)
  show ?case
  proof (cases "ge_Payload e")
    case (PlayerActionEvent q t i)
    obtain h sc where v: "(case replay es q of Some v \<Rightarrow> v | None \<Rightarrow> (100, 0)) = (h, sc)" by (rule prod.exhaust)
    then have "healthy (h, sc)" using snoc.IH [of q] healthy_rules(1) by (auto split: option.splits)
    then show ?thesis
      using snoc.prems snoc.IH [of p v] PlayerActionEvent v healthy_rules(2,3) [of h sc] by (auto split: if_splits)
  qed (use snoc.prems snoc.IH healthy_rules(1) in \<open>auto split: if_splits\<close>)
qed simp

section \<open>The room\<close>

definition vitals :: "'f player_state \<Rightarrow> 32 word \<times> 32 word" where
  "vitals st = (ps_Health st, ps_Score st)"

definition events_of :: "'f room_sys \<Rightarrow> game_event list" where
  "events_of s = rs_sent s @ (case rs_writer s of None \<Rightarrow> [] | Some e \<Rightarrow> [e])"

text \<open>A state handed to a player: the replay of a beginning of the events sent.\<close>

definition snapshot :: "game_event list \<Rightarrow> 'f game_state \<Rightarrow> bool" where
  "snapshot es st \<longleftrightarrow> distinct (map ps_PlayerId (gs_Players st)) \<and>
     (\<exists>n. map_of (map (\<lambda>p. (ps_PlayerId p, vitals p)) (gs_Players st)) = replay (take n es))"

definition abstracts :: "(string \<Rightarrow> 'f player_state option) \<Rightarrow> game_event list \<Rightarrow> bool" where
  "abstracts gs es \<longleftrightarrow> (\<forall>p. map_option vitals (gs p) = replay es p) \<and> (\<forall>p st. gs p = Some st \<longrightarrow> ps_PlayerId st = p)"

definition state_inv :: "'f room_sys \<Rightarrow> bool" where
  "state_inv s \<longleftrightarrow> abstracts (gameState (rs_room s)) (events_of s) \<and>
     (\<forall>a. \<forall>st \<in> set (pc_states (conn_heap (rs_room s) a)). snapshot (rs_sent s) st)"

lemma snapshot_grows: "snapshot es st \<Longrightarrow> snapshot (es @ [e]) st"
proof -
  assume "snapshot es st"
  then obtain n where "distinct (map ps_PlayerId (gs_Players st))"
    "map_of (map (\<lambda>p. (ps_PlayerId p, vitals p)) (gs_Players st)) = replay (take n es)"
    by (auto simp: snapshot_def)
  moreover have "take (min n (length es)) (es @ [e]) = take n es" by (cases "n \<le> length es") simp_all
  ultimately show ?thesis unfolding snapshot_def by metis
qed

lemma abstracts_methods:
  assumes "abstracts (gameState r) es"
  shows "AddPlayer now p r = (a, e, r') \<Longrightarrow> abstracts (gameState r') (es @ [e])"
    and "RemovePlayer now p r = (Returned, Some (e, r')) \<Longrightarrow> abstracts (gameState r') (es @ [e])"
    and "ProcessAction now act r = (e, r') \<Longrightarrow> abstracts (gameState r') (es @ [e])"
proof -
  have m: "replay es p = map_option vitals (gameState r p)" for p using assms by (simp add: abstracts_def)
  have i: "gameState r p = Some st \<Longrightarrow> ps_PlayerId st = p" for p st using assms by (simp add: abstracts_def)
  show "AddPlayer now p r = (a, e, r') \<Longrightarrow> abstracts (gameState r') (es @ [e])"
    using i by (auto simp: abstracts_def AddPlayer_def Let_def room_event_def m vitals_def split: if_splits)
  show "RemovePlayer now p r = (Returned, Some (e, r')) \<Longrightarrow> abstracts (gameState r') (es @ [e])"
    using i by (auto simp: abstracts_def RemovePlayer_def Let_def room_event_def m split: option.splits if_splits)
  show "ProcessAction now act r = (e, r') \<Longrightarrow> abstracts (gameState r') (es @ [e])"
    using i by (auto simp: abstracts_def ProcessAction_def Let_def room_event_def m vitals_def apply_action_def
      split: option.splits action_kind.splits if_splits)
qed

lemma to_players_states:
  assumes "\<And>c. set (pc_states (push c)) \<subseteq> set (pc_states c) \<union> X"
  shows "to_players push order r = (out, r') \<Longrightarrow>
    set (pc_states (conn_heap r' a)) \<subseteq> set (pc_states (conn_heap r a)) \<union> X \<and> gameState r' = gameState r"
proof (induction order arbitrary: r)
  case (Cons p order)
  show ?case
  proof (cases "players r p")
    case None
    then show ?thesis using Cons by simp
  next
    case (Some b)
    then show ?thesis
      using Cons.prems Cons.IH [of "r\<lparr>conn_heap := (conn_heap r)(b := push (conn_heap r b))\<rparr>"] assms [of "conn_heap r b"]
      by (auto split: if_splits)
  qed
qed simp

lemma rest_snapshot:
  assumes "abstracts (gameState r) es" and "room_visits listed (gameState r)"
    and "ProcessAction_rest now listed order r = (out, st, r')"
  shows "snapshot es st \<and> gameState r' = gameState r \<and>
    set (pc_states (conn_heap r' a)) \<subseteq> set (pc_states (conn_heap r a)) \<union> {st}"
proof -
  have l: "filter (\<lambda>p. gameState r p \<noteq> None) listed = listed"
    using assms(2) by (auto simp: room_visits_def filter_id_conv)
  have gp: "gs_Players st = map (\<lambda>p. the (gameState r p)) listed"
    using assms(3) l by (auto simp: ProcessAction_rest_def Let_def split: prod.splits)
  have each: "p \<in> set listed \<Longrightarrow> ps_PlayerId (the (gameState r p)) = p \<and> replay es p = Some (vitals (the (gameState r p)))" for p
    using assms(1,2) by (auto simp: abstracts_def room_visits_def) (metis option.simps(9))
  have none: "p \<notin> set listed \<Longrightarrow> replay es p = None" for p
    using assms(1,2) unfolding abstracts_def room_visits_def by (metis domIff option.map_disc_iff)
  have pairs: "map (\<lambda>p. (ps_PlayerId p, vitals p)) (gs_Players st) = map (\<lambda>p. (p, the (replay es p))) listed"
    unfolding gp using each by simp
  have "map_of (map (\<lambda>p. (p, the (replay es p))) listed) = replay es"
    using each none by (auto simp: map_of_map_restrict restrict_map_def intro!: ext)
  moreover have "map ps_PlayerId (gs_Players st) = listed" unfolding gp using each by (simp add: map_idI)
  ultimately have "snapshot es st"
    using assms(2) unfolding snapshot_def pairs room_visits_def by (metis take_all le_refl)
  moreover have run: "to_players (push_state st) order (r\<lparr>stateNum := stateNum r + 1\<rparr>) = (out, r')"
    using assms(3) by (auto simp: ProcessAction_rest_def Let_def split: prod.splits)
  have "set (pc_states (push_state st c)) \<subseteq> set (pc_states c) \<union> {st}" for c by (auto simp: push_state_def)
  from to_players_states [OF this run, of a] have "gameState r' = gameState r \<and>
      set (pc_states (conn_heap r' a)) \<subseteq> set (pc_states (conn_heap r a)) \<union> {st}"
    by simp
  ultimately show ?thesis by blast
qed

section \<open>Every interleaving\<close>

lemma state_inv_method:
  assumes "state_inv s" and "rs_writer s = None" and "abstracts (gameState r) (rs_sent s @ [e])"
    and "\<And>a. set (pc_states (conn_heap r a)) \<subseteq> set (pc_states (conn_heap (rs_room s) a))"
  shows "state_inv (s\<lparr>rs_room := r, rs_writer := Some e, rs_rest := b\<rparr>)"
  using assms by (auto simp: state_inv_def events_of_def)

lemma state_inv_same:
  assumes "state_inv s" and "gameState r = gameState (rs_room s)" and "events_of s' = events_of s" and "rs_room s' = r"
    and "\<And>a. set (pc_states (conn_heap r a)) \<subseteq> set (pc_states (conn_heap (rs_room s) a)) \<union> X"
    and "\<And>st. snapshot (rs_sent s) st \<or> st \<in> X \<Longrightarrow> snapshot (rs_sent s') st"
  shows "state_inv s'"
  unfolding state_inv_def assms(3,4)
proof (intro conjI allI ballI)
  show "abstracts (gameState r) (events_of s)" using assms(1,2) by (simp add: state_inv_def)
  fix a st
  assume "st \<in> set (pc_states (conn_heap r a))"
  then have "st \<in> set (pc_states (conn_heap (rs_room s) a)) \<union> X" using assms(5) by blast
  then show "snapshot (rs_sent s') st" using assms(1,6) by (auto simp: state_inv_def)
qed

lemma state_inv_step:
  assumes inv: "state_inv s" and "room_step s s'"
  shows "state_inv s'"
  using assms(2)
proof (cases rule: room_step.cases)
  case (join now p a e r)
  have "abstracts (gameState (rs_room s)) (rs_sent s)" using inv join by (simp add: state_inv_def events_of_def)
  then show ?thesis
    using state_inv_method [OF inv join(2), of r e False] abstracts_methods(1) [OF _ join(3)] join
    by (auto simp: AddPlayer_def Let_def)
next
  case (leave now p e r)
  have "abstracts (gameState (rs_room s)) (rs_sent s)" using inv leave by (simp add: state_inv_def events_of_def)
  then show ?thesis
    using state_inv_method [OF inv leave(2), of r e False] abstracts_methods(2) [OF _ leave(3)] leave
    by (auto simp: RemovePlayer_def Let_def split: option.splits if_splits)
next
  case (act now a e r)
  have "abstracts (gameState (rs_room s)) (rs_sent s)" using inv act by (simp add: state_inv_def events_of_def)
  then show ?thesis
    using state_inv_method [OF inv act(2), of r e True] abstracts_methods(3) [OF _ act(3)] act
    by (auto simp: ProcessAction_def Let_def split: prod.splits)
next
  case (leave_panic now p m x)
  then show ?thesis using inv by (simp add: state_inv_def events_of_def)
next
  case (send e)
  then show ?thesis
    by (intro state_inv_same [OF inv, where X = "{}"]) (auto simp: events_of_def intro: snapshot_grows)
next
  case (send_act e listed order now out st r)
  let ?r = "(rs_room s)\<lparr>eventsChan := eventsChan (rs_room s) @ [e]\<rparr>"
  have "abstracts (gameState ?r) (rs_sent s @ [e])" using inv send_act(2) by (simp add: state_inv_def events_of_def)
  moreover have "room_visits listed (gameState ?r)" using send_act(5) by simp
  ultimately have rest: "snapshot (rs_sent s @ [e]) st \<and> gameState r = gameState ?r \<and>
      set (pc_states (conn_heap r a)) \<subseteq> set (pc_states (conn_heap ?r a)) \<union> {st}" for a
    by (rule rest_snapshot [OF _ _ send_act(7)])
  then show ?thesis
    using send_act by (intro state_inv_same [OF inv, where X = "{st}"]) (auto simp: events_of_def intro: snapshot_grows)
next
  case (deliver e order out r)
  have "set (pc_states (push_event e c)) \<subseteq> set (pc_states c) \<union> {}" for c :: "'a player_conn" by (simp add: push_event_def)
  from to_players_states [OF this deliver(5) [unfolded broadcast_def]]
  have "gameState r = gameState (rs_room s)" "set (pc_states (conn_heap r a)) \<subseteq> set (pc_states (conn_heap (rs_room s) a)) \<union> {}" for a
    by simp_all
  with deliver show ?thesis
    by (intro state_inv_same [OF inv, where X = "{}"]) (auto simp: events_of_def)
next
  case (take_event e es)
  then show ?thesis by (intro state_inv_same [OF inv, where X = "{}"]) (auto simp: events_of_def split: if_splits)
next
  case (consume_event a e es)
  then show ?thesis by (intro state_inv_same [OF inv, where X = "{}"]) (auto simp: events_of_def split: if_splits)
next
  case (consume_state a st sts)
  then show ?thesis by (intro state_inv_same [OF inv, where X = "{}"]) (auto simp: events_of_def split: if_splits)
qed

lemma state_inv_reach: "room_reach g s \<Longrightarrow> state_inv s"
  unfolding room_reach_def
proof (induction rule: rtranclp_induct)
  case base
  show ?case by (simp add: state_inv_def room_start_def new_room_def events_of_def abstracts_def)
qed (rule state_inv_step)


text \<open>Ann joins, the event is sent, and she attacks.\<close>

definition ann_plays :: "int room_sys" where
  "ann_plays =
     (let (a, e, r) = AddPlayer 1 ''ann'' (new_room ''g'');
          r = r\<lparr>eventsChan := eventsChan r @ [e]\<rparr>;
          (e', r) = ProcessAction 2 \<lparr>pa_ActionId = ''a1'', pa_PlayerId = ''ann'', pa_Action = Attack\<rparr> r
      in \<lparr>rs_room = r, rs_writer = Some e', rs_rest = True, rs_loop = None, rs_sent = [e], rs_panic = False\<rparr>)"

lemma ann_plays_reach: "room_reach ''g'' ann_plays"
proof -
  obtain a e r where j: "AddPlayer 1 ''ann'' (new_room ''g'' :: int game_room) = (a, e, r)" by (rule prod_cases3)
  let ?act = "\<lparr>pa_ActionId = ''a1'', pa_PlayerId = ''ann'', pa_Action = Attack\<rparr> :: int player_action"
  let ?r = "r\<lparr>eventsChan := eventsChan r @ [e]\<rparr>"
  obtain e' r' where p: "ProcessAction 2 ?act ?r = (e', r')" by (rule prod.exhaust)
  let ?s1 = "(room_start ''g'' :: int room_sys)\<lparr>rs_room := r, rs_writer := Some e, rs_rest := False\<rparr>"
  let ?s2 = "?s1\<lparr>rs_room := ?r, rs_writer := None, rs_sent := [e]\<rparr>"
  have "eventsChan r = []" using j by (auto simp: AddPlayer_def Let_def new_room_def)
  then have 1: "room_step (room_start ''g'') ?s1" and 2: "room_step ?s1 ?s2"
    using join [of "room_start ''g''" 1 "''ann''" a e r] j send [of ?s1 e] by (simp_all add: room_start_def)
  have 3: "room_step ?s2 (?s2\<lparr>rs_room := r', rs_writer := Some e', rs_rest := True\<rparr>)"
    using act [of ?s2 2 ?act e' r'] p by simp
  have eq: "?s2\<lparr>rs_room := r', rs_writer := Some e', rs_rest := True\<rparr> = ann_plays"
    using j p by (simp add: ann_plays_def Let_def room_start_def)
  show ?thesis unfolding room_reach_def
    by (rule converse_rtranclp_into_rtranclp, rule 1, rule converse_rtranclp_into_rtranclp, rule 2,
        rule r_into_rtranclp, rule 3 [unfolded eq])
qed


end
