(* ===== verification/GameStream.thy ===== *)
theory GameStream
  imports GameProps GrpcProps "HOL-Library.Sublist"
begin

text \<open>
  A game over WebSockets: a subscriber's gRPC session (\<open>grpcws/server_stream.go\<close>) on top of the
  server stream of the demo (\<open>SharedServerStream\<close> in \<open>cmd/grpcws-demo/main.go\<close>) and its room, with
  all their goroutines. What a browser sees of the room's events follows from the two components.
\<close>

section \<open>The composed system\<close>

text \<open>
  \<open>sub_leaving\<close> is set while the stream's Recv is inside RemovePlayer: the number of events that had
  been sent when it took the lock.
\<close>

record ('d, 'g, 'f) subscription =
  sub_sys :: "'f room_sys"
  sub_sess :: "('d, 'g, game_event) grpc_session"
  sub_leaving :: "nat option"

text \<open>A result of Recv reaches the forwarding goroutine.\<close>

definition sub_receive ::
  "('req, game_event, 'd) grpc_codec \<Rightarrow> game_event received \<Rightarrow> ('d, 'g, game_event) grpc_session \<Rightarrow> ('d, 'g, game_event) grpc_session" where
  "sub_receive codec r t = (case forward_recv codec r (ss_conn t) of (p, c) \<Rightarrow>
     t\<lparr>ss_conn := c, ss_forwarder := p, ss_received := ss_received t @ [r]\<rparr>)"

text \<open>
  The steps of the subscription of player \<open>p\<close> with the connection at address \<open>a\<close>: any step of the
  room that does not take events from this connection, which only its own stream does; any step of the
  session that receives nothing; and Recv with an event, with the closed channel, and with its
  context done, when it first leaves the room.
\<close>

inductive sub_step ::
  "('req, game_event, 'd) grpc_codec \<Rightarrow>
   ('d control_message \<Rightarrow> ('d, 'g) grpc_conn \<Rightarrow> string option \<times> ('d, 'g) grpc_conn) \<Rightarrow> string \<Rightarrow> string \<Rightarrow> nat \<Rightarrow>
   ('d, 'g, 'f :: zero) subscription \<Rightarrow> ('d, 'g, 'f) subscription \<Rightarrow> bool"
  for codec handle rnd p a
where
  room: "room_step (sub_sys s) r \<Longrightarrow>
    prefix (pc_events (conn_heap (rs_room (sub_sys s)) a)) (pc_events (conn_heap (rs_room r) a)) \<Longrightarrow>
    sub_step codec handle rnd p a s (s\<lparr>sub_sys := r\<rparr>)"
| session: "session_step codec handle rnd (sub_sess s) t \<Longrightarrow> ss_received t = ss_received (sub_sess s) \<Longrightarrow>
    sub_step codec handle rnd p a s (s\<lparr>sub_sess := t\<rparr>)"
| recv: "ss_forwarder (sub_sess s) = Receiving \<Longrightarrow> sub_leaving s = None \<Longrightarrow>
    SharedServerStream_Recv False now p a (rs_room (sub_sys s)) = Some (r, None, room') \<Longrightarrow>
    sub_step codec handle rnd p a s
      (s\<lparr>sub_sys := (sub_sys s)\<lparr>rs_room := room'\<rparr>, sub_sess := sub_receive codec r (sub_sess s)\<rparr>)"
| cancelled: "ss_forwarder (sub_sess s) = Receiving \<Longrightarrow> sub_leaving s = None \<Longrightarrow>
    ctx_done (gc_streamCtx (ss_conn (sub_sess s))) (gc_cancelled (ss_conn (sub_sess s))) \<Longrightarrow>
    rs_writer (sub_sys s) = None \<Longrightarrow>
    SharedServerStream_Recv True now p a (rs_room (sub_sys s)) = Some (r, Some e, room') \<Longrightarrow>
    sub_step codec handle rnd p a s
      (s\<lparr>sub_sys := (sub_sys s)\<lparr>rs_room := room', rs_writer := Some e, rs_rest := False\<rparr>,
         sub_leaving := Some (length (rs_sent (sub_sys s)))\<rparr>)"
| left_room: "sub_leaving s = Some n \<Longrightarrow> n < length (rs_sent (sub_sys s)) \<Longrightarrow>
    sub_step codec handle rnd p a s (s\<lparr>sub_sess := sub_receive codec RecvEOF (sub_sess s), sub_leaving := None\<rparr>)"
| not_in_room: "ss_forwarder (sub_sess s) = Receiving \<Longrightarrow> sub_leaving s = None \<Longrightarrow>
    ctx_done (gc_streamCtx (ss_conn (sub_sess s))) (gc_cancelled (ss_conn (sub_sess s))) \<Longrightarrow>
    rs_writer (sub_sys s) = None \<Longrightarrow>
    SharedServerStream_Recv True now p a (rs_room (sub_sys s)) = Some (r, None, room') \<Longrightarrow>
    sub_step codec handle rnd p a s (s\<lparr>sub_sess := sub_receive codec r (sub_sess s)\<rparr>)"

text \<open>
  A subscription starts when \<open>NewSharedServerStream\<close> adds the player to the room, in any reachable
  state of it; the session's connection is that of Validate.
\<close>

definition sub_start ::
  "string \<Rightarrow> ('d, 'g) grpc_conn \<Rightarrow> int \<Rightarrow> string \<Rightarrow> ('f :: zero) room_sys \<Rightarrow> nat \<times> ('d, 'g, 'f) subscription" where
  "sub_start rnd c now p sys = (case AddPlayer now p (rs_room sys) of (a, e, r) \<Rightarrow>
     (a, \<lparr>sub_sys = sys\<lparr>rs_room := r, rs_writer := Some e, rs_rest := False\<rparr>, sub_sess = session_start rnd c,
          sub_leaving = None\<rparr>))"

section \<open>The flow of events through the room\<close>

definition in_hand :: "'f room_sys \<Rightarrow> game_event list" where
  "in_hand s = (case rs_loop s of None \<Rightarrow> [] | Some e \<Rightarrow> [e]) @ eventsChan (rs_room s)"

lemma to_players_keeps:
  "to_players push order r = (out, r') \<Longrightarrow> next_conn r' = next_conn r \<and>
     ((\<forall>c. pc_events (push c) = pc_events c) \<longrightarrow> pc_events (conn_heap r' a) = pc_events (conn_heap r a))"
  by (induction order arbitrary: r) (force split: option.splits if_splits)+

lemma game_event_queue:
  "pc_events (push_event e c) = pc_events c \<or> pc_events (push_event e c) = pc_events c @ [e]"
  by (simp add: push_event_def)

lemma method_queues:
  "AddPlayer now p r = (b, e, r') \<Longrightarrow> a < next_conn r \<Longrightarrow>
     a < next_conn r' \<and> pc_events (conn_heap r' a) = pc_events (conn_heap r a)"
  "RemovePlayer now p r = (Returned, Some (e, r')) \<Longrightarrow> a < next_conn r \<Longrightarrow>
     a < next_conn r' \<and> pc_events (conn_heap r' a) = pc_events (conn_heap r a)"
  "ProcessAction now act r = (e, r') \<Longrightarrow> a < next_conn r \<Longrightarrow>
     a < next_conn r' \<and> pc_events (conn_heap r' a) = pc_events (conn_heap r a)"
  by (auto simp: AddPlayer_def RemovePlayer_def ProcessAction_def Let_def split: option.splits if_splits prod.splits)

text \<open>
  A step of the room adds events to those delivered, and to the queue of a connection that it takes
  nothing from it adds some of these.
\<close>

definition grows :: "nat \<Rightarrow> game_event list \<Rightarrow> 'f room_sys \<Rightarrow> 'f room_sys \<Rightarrow> bool" where
  "grows a fresh s s' \<longleftrightarrow>
     (a < next_conn (rs_room s) \<longrightarrow>
      prefix (pc_events (conn_heap (rs_room s) a)) (pc_events (conn_heap (rs_room s') a)) \<longrightarrow>
      a < next_conn (rs_room s') \<and>
      (\<exists>q. pc_events (conn_heap (rs_room s') a) = pc_events (conn_heap (rs_room s) a) @ q \<and> subseq q fresh))"

lemma flow_deliver:
  assumes "sys_inv s" and "room_visits order (players (rs_room s))" and "broadcast e order (rs_room s) = (out, r)"
  shows "eventsChan r = eventsChan (rs_room s) \<and> next_conn r = next_conn (rs_room s) \<and>
    (\<exists>q. pc_events (conn_heap r a) = pc_events (conn_heap (rs_room s) a) @ q \<and> subseq q [e])"
proof -
  have inv: "room_inv (rs_room s)" using assms(1) by (simp add: sys_inv_def)
  have tp: "to_players (push_event e) order (rs_room s) = (out, r)" using assms(3) by (simp add: broadcast_def)
  have "conn_heap r a = push_event e (conn_heap (rs_room s) a) \<or> conn_heap r a = conn_heap (rs_room s) a"
    using deliver_reaches_players [OF inv mild_push(2) _ _ tp, of a] assms(2) by (simp add: room_visits_def)
  then have "\<exists>q. pc_events (conn_heap r a) = pc_events (conn_heap (rs_room s) a) @ q \<and> subseq q [e]"
    by (metis append_Nil2 game_event_queue list_emb_Nil subseq_order.order_refl)
  then show ?thesis using to_players_ok [OF inv mild_push(2) tp] to_players_keeps [OF tp] by simp
qed

lemma flow_act:
  assumes "sys_inv s"
    and "ProcessAction_rest now listed order ((rs_room s)\<lparr>eventsChan := eventsChan (rs_room s) @ [e]\<rparr>) = (out, st, r)"
  shows "eventsChan r = eventsChan (rs_room s) @ [e] \<and> next_conn r = next_conn (rs_room s) \<and>
    pc_events (conn_heap r a) = pc_events (conn_heap (rs_room s) a)"
proof -
  have "room_inv ((rs_room s)\<lparr>eventsChan := eventsChan (rs_room s) @ [e]\<rparr>)"
    using assms(1) by (simp add: sys_inv_def room_inv_def)
  from ProcessAction_rest_ok [OF this assms(2)] have "eventsChan r = eventsChan (rs_room s) @ [e]" by simp
  moreover have "next_conn r = next_conn (rs_room s) \<and> pc_events (conn_heap r a) = pc_events (conn_heap (rs_room s) a)"
    using assms(2) to_players_keeps [of "push_state _" order _ out r a]
    by (auto simp: ProcessAction_rest_def Let_def push_state_def split: prod.splits)
  ultimately show ?thesis by simp
qed

lemma room_flow:
  assumes "room_step s s'" and "sys_inv s" and "rs_sent s = D @ in_hand s"
  shows "\<exists>fresh. rs_sent s' = (D @ fresh) @ in_hand s' \<and> (\<forall>a. grows a fresh s s')"
proof -
  have quiet: ?thesis if "rs_sent s' = D @ in_hand s'" and "\<And>a. a < next_conn (rs_room s) \<Longrightarrow>
      prefix (pc_events (conn_heap (rs_room s) a)) (pc_events (conn_heap (rs_room s') a)) \<Longrightarrow>
      a < next_conn (rs_room s') \<and> pc_events (conn_heap (rs_room s') a) = pc_events (conn_heap (rs_room s) a)"
  proof (intro exI [of _ "[]"] conjI allI)
    fix a
    show "grows a [] s s'"
      unfolding grows_def by (intro impI conjI exI [of _ "[]"]) (use that(2) [of a] in simp_all)
  qed (use that(1) in simp)
  from assms(1) show ?thesis
  proof (cases rule: room_step.cases)
    case (join now p b e r)
    then show ?thesis using method_queues(1) [OF join(3)] method_events(1) [OF join(3)] assms(3) by (intro quiet) (simp_all add: in_hand_def)
  next
    case (leave now p e r)
    then show ?thesis using method_queues(2) [OF leave(3)] method_events(2) [OF leave(3)] assms(3) by (intro quiet) (simp_all add: in_hand_def)
  next
    case (leave_panic now p m x)
    then show ?thesis using assms(3) by (intro quiet) (simp_all add: in_hand_def)
  next
    case (act now b e r)
    then show ?thesis using method_queues(3) [OF act(3)] method_events(3) [OF act(3)] assms(3) by (intro quiet) (simp_all add: in_hand_def)
  next
    case (send e)
    then show ?thesis using assms(3) by (intro quiet) (simp_all add: in_hand_def)
  next
    case (send_act e listed order now out st r)
    show ?thesis using flow_act [OF assms(2) send_act(7)] send_act(1) assms(3) by (intro quiet) (simp_all add: in_hand_def)
  next
    case (take_event e es)
    then show ?thesis using assms(3) by (intro quiet) (simp_all add: in_hand_def)
  next
    case (deliver e order out r)
    show ?thesis using flow_deliver [OF assms(2) deliver(4,5)] deliver(1,2) assms(3)
      by (intro exI [of _ "[e]"]) (simp add: in_hand_def grows_def)
  next
    case (consume_event b e es)
    have "b \<noteq> a" if "prefix (pc_events (conn_heap (rs_room s) a)) (pc_events (conn_heap (rs_room s') a))" for a
      using prefix_length_le [OF that] consume_event by auto
    then show ?thesis using consume_event assms(3) by (intro quiet) (auto simp: in_hand_def)
  next
    case (consume_state b st sts)
    then show ?thesis using assms(3) by (intro quiet) (simp_all add: in_hand_def)
  qed
qed

lemma room_reach_sent: "room_reach g s \<Longrightarrow> \<exists>D. rs_sent s = D @ in_hand s"
  unfolding room_reach_def
proof (induction rule: rtranclp_induct)
  case base
  then show ?case by (simp add: in_hand_def room_start_def new_room_def)
next
  case (step s s')
  then have "sys_inv s" by (intro sys_inv_reach) (simp add: room_reach_def)
  then show ?case using room_flow [OF step.hyps(2)] step.IH by blast
qed

section \<open>What a subscriber has received\<close>

fun got :: "game_event received list \<Rightarrow> game_event list" where
  "got [] = []"
| "got (Resp e # rs) = e # got rs"
| "got (r # rs) = got rs"

lemma got_append [simp]: "got (xs @ ys) = got xs @ got ys"
  by (induction xs rule: got.induct) simp_all

definition sub_inv ::
  "string \<Rightarrow> ('req, game_event, 'd) grpc_codec \<Rightarrow>
   ('d control_message \<Rightarrow> ('d, 'g) grpc_conn \<Rightarrow> string option \<times> ('d, 'g) grpc_conn) \<Rightarrow> string \<Rightarrow> ('d, 'g) grpc_conn \<Rightarrow> nat \<Rightarrow>
   ('d, 'g, 'f :: zero) subscription \<Rightarrow> bool"
where
  "sub_inv g codec handle rnd c a s \<longleftrightarrow>
     room_reach g (sub_sys s) \<and> a < next_conn (rs_room (sub_sys s)) \<and>
     session_reach codec handle rnd c (sub_sess s) \<and>
     (sub_leaving s \<noteq> None \<longrightarrow> ss_forwarder (sub_sess s) = Receiving) \<and>
     (\<exists>D. rs_sent (sub_sys s) = D @ in_hand (sub_sys s) \<and>
        subseq (got (ss_received (sub_sess s)) @ pc_events (conn_heap (rs_room (sub_sys s)) a)) D)"

lemma room_reach_step: "room_reach g s \<Longrightarrow> room_step s s' \<Longrightarrow> room_reach g s'"
  unfolding room_reach_def by (rule rtranclp.rtrancl_into_rtrancl)

lemma session_reach_step:
  "session_reach codec handle rnd c s \<Longrightarrow> session_step codec handle rnd s s' \<Longrightarrow> session_reach codec handle rnd c s'"
  unfolding session_reach_def by (rule rtranclp.rtrancl_into_rtrancl)

lemma sub_receive_step:
  assumes "session_reach codec handle rnd c t" and "ss_forwarder t = Receiving"
  shows "session_reach codec handle rnd c (sub_receive codec r t) \<and> ss_received (sub_receive codec r t) = ss_received t @ [r]"
proof -
  obtain p c' where "forward_recv codec r (ss_conn t) = (p, c')" by (cases "forward_recv codec r (ss_conn t)")
  then show ?thesis
    using session_reach_step [OF assms(1) session_step.receive [OF assms(2)]] by (simp add: sub_receive_def)
qed

lemma sub_inv_room:
  assumes inv: "sub_inv g codec handle rnd c a s" and "room_step (sub_sys s) r"
    and keeps: "prefix (pc_events (conn_heap (rs_room (sub_sys s)) a)) (pc_events (conn_heap (rs_room r) a))"
  shows "sub_inv g codec handle rnd c a (s\<lparr>sub_sys := r\<rparr>)"
proof -
  have reach: "room_reach g (sub_sys s)" and lt: "a < next_conn (rs_room (sub_sys s))" using inv by (simp_all add: sub_inv_def)
  obtain D where D: "rs_sent (sub_sys s) = D @ in_hand (sub_sys s)"
    "subseq (got (ss_received (sub_sess s)) @ pc_events (conn_heap (rs_room (sub_sys s)) a)) D"
    using inv unfolding sub_inv_def by blast
  obtain fresh where f: "rs_sent r = (D @ fresh) @ in_hand r" "grows a fresh (sub_sys s) r"
    using room_flow [OF assms(2) sys_inv_reach [OF reach] D(1)] by blast
  obtain q where q: "a < next_conn (rs_room r)" "subseq q fresh"
    "pc_events (conn_heap (rs_room r) a) = pc_events (conn_heap (rs_room (sub_sys s)) a) @ q"
    using f(2) lt keeps unfolding grows_def by blast
  have "subseq (got (ss_received (sub_sess s)) @ pc_events (conn_heap (rs_room r) a)) (D @ fresh)"
    using list_emb_append_mono [OF D(2) q(2)] q(3) by simp
  then show ?thesis
    using inv f(1) q(1) room_reach_step [OF reach assms(2)] unfolding sub_inv_def by auto
qed

lemma sub_inv_step:
  assumes inv: "sub_inv g codec handle rnd c a s" and "sub_step codec handle rnd p a s s'"
  shows "sub_inv g codec handle rnd c a s'"
proof -
  have reach: "room_reach g (sub_sys s)" and sess: "session_reach codec handle rnd c (sub_sess s)"
    and lt: "a < next_conn (rs_room (sub_sys s))"
    using inv by (simp_all add: sub_inv_def)
  obtain D where D: "rs_sent (sub_sys s) = D @ in_hand (sub_sys s)"
    "subseq (got (ss_received (sub_sess s)) @ pc_events (conn_heap (rs_room (sub_sys s)) a)) D"
    using inv unfolding sub_inv_def by blast
  show ?thesis using assms(2)
  proof (cases rule: sub_step.cases)
    case (room r)
    show ?thesis unfolding room(1) by (rule sub_inv_room [OF inv room(2,3)])
  next
    case (session t)
    have "ss_forwarder t = Receiving" if "ss_forwarder (sub_sess s) = Receiving"
      using session(2,3) that by (cases rule: session_step.cases) auto
    then show ?thesis
      using inv session session_reach_step [OF sess session(2)] unfolding sub_inv_def by auto
  next
    case (recv now r room')
    note t = sub_receive_step [OF sess recv(2)]
    show ?thesis
    proof (cases "pc_events (conn_heap (rs_room (sub_sys s)) a)")
      case Nil
      then have "r = RecvEOF" "room' = rs_room (sub_sys s)"
        using recv(4) by (auto simp: SharedServerStream_Recv_def split: if_splits)
      then show ?thesis using inv recv(1,3) t Nil unfolding sub_inv_def by auto
    next
      case (Cons e es)
      let ?room = "(rs_room (sub_sys s))\<lparr>conn_heap := (conn_heap (rs_room (sub_sys s)))(a :=
        (conn_heap (rs_room (sub_sys s)) a)\<lparr>pc_events := es\<rparr>)\<rparr>"
      have r: "r = Resp e" "room' = ?room"
        using recv(4) Cons by (auto simp: SharedServerStream_Recv_def)
      have "room_reach g ((sub_sys s)\<lparr>rs_room := ?room\<rparr>)"
        by (rule room_reach_step [OF reach]) (rule room_step.consume_event [OF Cons])
      then show ?thesis using recv(1,3) r t Cons lt D unfolding sub_inv_def by (auto simp: in_hand_def)
    qed
  next
    case (cancelled now r e room')
    have rm: "RemovePlayer now p (rs_room (sub_sys s)) = (Returned, Some (e, room'))"
      using cancelled(6) by (auto simp: SharedServerStream_Recv_def RemovePlayer_def Let_def split: option.splits if_splits)
    show ?thesis
      using cancelled(1,2) sess D room_reach_step [OF reach room_step.leave [OF cancelled(5) rm]] method_queues(2) [OF rm lt]
        method_events(2) [OF rm]
      unfolding sub_inv_def by (auto simp: in_hand_def)
  next
    case (left_room n)
    then have "ss_forwarder (sub_sess s) = Receiving" using inv by (simp add: sub_inv_def)
    from sub_receive_step [OF sess this] show ?thesis using inv left_room(1) unfolding sub_inv_def by auto
  next
    case (not_in_room now r room')
    have "r = RecvEOF"
      using not_in_room(6) by (auto simp: SharedServerStream_Recv_def split: option.splits prod.splits)
    then show ?thesis
      using inv not_in_room(1,3) sub_receive_step [OF sess not_in_room(2)] unfolding sub_inv_def by auto
  qed
qed

lemma sub_inv_start:
  assumes "room_reach g sys" and "rs_writer sys = None" and "sub_start rnd c now p sys = (a, s0)"
  shows "sub_inv g codec handle rnd c a s0"
proof -
  obtain a' e r where j: "AddPlayer now p (rs_room sys) = (a', e, r)" by (rule prod_cases3)
  have s0: "a = a'" "s0 = \<lparr>sub_sys = sys\<lparr>rs_room := r, rs_writer := Some e, rs_rest := False\<rparr>,
      sub_sess = session_start rnd c, sub_leaving = None\<rparr>"
    using assms(3) j by (auto simp: sub_start_def)
  have new: "a' < next_conn r" "pc_events (conn_heap r a') = []" "eventsChan r = eventsChan (rs_room sys)"
    using j by (auto simp: AddPlayer_def Let_def)
  have "room_reach g (sub_sys s0)"
    using room_reach_step [OF assms(1) room_step.join [OF assms(2) j]] s0 by simp
  moreover have "\<exists>D. rs_sent (sub_sys s0) = D @ in_hand (sub_sys s0)" by (rule room_reach_sent [OF calculation])
  ultimately show ?thesis
    using s0 new by (auto simp: sub_inv_def session_reach_def session_start_def)
qed

section \<open>The property\<close>

definition data_part :: "('d, 'g) grpc_conn \<Rightarrow> 'd control_message list" where
  "data_part c = filter (\<lambda>m. cm_Type m = TypeData) (envelopes c)"

lemma forwarded_data:
  "\<exists>es. map Inr (filter (\<lambda>m. cm_Type m = TypeData) (forwarded codec rs)) = map (EncodeData codec) es \<and> subseq es (got rs)"
proof (induction codec rs rule: forwarded.induct)
  case (2 codec v rs)
  show ?case
  proof (cases "EncodeData codec v")
    case (Inl e)
    then show ?thesis by (intro exI [of _ "[]"]) simp
  next
    case (Inr m)
    then obtain es where "map Inr (filter (\<lambda>m. cm_Type m = TypeData) (forwarded codec rs)) = map (EncodeData codec) es"
      "subseq es (got rs)" using 2 by blast
    then show ?thesis using Inr EncodeData_type [OF Inr] by (intro exI [of _ "v # es"]) simp
  qed
qed (simp_all add: control_def)

lemma forwarded_end:
  assumes "list_all (encodable codec) (butlast rs)" and "RecvEOF \<in> set rs"
  shows "last (forwarded codec rs) = control TypeStreamEnd"
proof -
  have "rs = butlast rs @ [RecvEOF]"
    using assms by (cases rs rule: rev_cases) (auto simp: list_all_iff encodable_def)
  then show ?thesis using forwarded_append [OF assms(1), of "[RecvEOF]"] by (metis forwarded.simps(3) last_snoc)
qed

lemma subseq_distinct_map: "subseq xs ys \<Longrightarrow> distinct (map f ys) \<Longrightarrow> distinct (map f xs)"
  by (metis distinct_nthsI subseq_conv_nths subseq_map)

lemma data_part_stream: "data_part c = filter (\<lambda>m. cm_Type m = TypeData) (stream_part c)"
  unfolding data_part_def stream_part_def filter_filter by (rule filter_cong) auto

lemma sent_distinct:
  assumes "sys_inv s"
  shows "distinct (map ge_EventId (rs_sent s))"
proof -
  have "map ge_EventId (rs_sent s) = map (\<lambda>i. ''evt-'' @ dec_int (int i)) [1..<Suc (length (rs_sent s))]"
    using assms unfolding sys_inv_def history_def by blast
  moreover have "inj_on (\<lambda>i. ''evt-'' @ dec_int (int i)) A" for A by (rule inj_onI) (auto dest: dec_int_inj)
  ultimately show ?thesis by (simp only: distinct_map distinct_upt simp_thms)
qed

text \<open>
  C16: A subscriber sees the events of its room in order. Whatever the players of the room, the
  broadcast goroutine, the client's messages, pings, the close and cancellations do from the moment
  the subscriber is added: the data envelopes handed to its WebSocket writer are the encodings of
  events that the room sent, in the order in which it sent them and each at most once (a full buffer
  may drop some); and when the stream has ended its last envelope of the stream is the end.
\<close>

theorem game_events_in_order:
  assumes "room_reach g sys" and "rs_writer sys = None"
    and "sub_start rnd (new_grpc_conn name ctx scope t0 gst cancelled) now p sys = (a, s0)"
    and "rtranclp (sub_step codec (ServerStream_HandleMessage rnd) rnd p a) s0 s"
  shows "(\<exists>es. map Inr (data_part (ss_conn (sub_sess s))) = map (EncodeData codec) es \<and>
      subseq es (rs_sent (sub_sys s)) \<and> distinct (map ge_EventId es)) \<and>
    (RecvEOF \<in> set (ss_received (sub_sess s)) \<longrightarrow> last (stream_part (ss_conn (sub_sess s))) = control TypeStreamEnd)"
proof -
  let ?c = "new_grpc_conn name ctx scope t0 gst cancelled"
  have inv: "sub_inv g codec (ServerStream_HandleMessage rnd) rnd ?c a s"
    using assms(4) by (induction rule: rtranclp_induct) (auto intro: sub_inv_start [OF assms(1-3)] sub_inv_step)
  have "session_reach codec (ServerStream_HandleMessage rnd) rnd ?c (sub_sess s)" and sys: "sys_inv (sub_sys s)"
    using inv sys_inv_reach by (auto simp: sub_inv_def)
  from server_stream.session_inv_reach [OF this(1)]
  have st: "stream_part (ss_conn (sub_sess s)) = forwarded codec (ss_received (sub_sess s))"
    and ok: "list_all (encodable codec) (butlast (ss_received (sub_sess s)))"
    by (simp_all add: server_stream.session_inv_def)
  obtain D where D: "rs_sent (sub_sys s) = D @ in_hand (sub_sys s)"
    "subseq (got (ss_received (sub_sess s)) @ pc_events (conn_heap (rs_room (sub_sys s)) a)) D"
    using inv unfolding sub_inv_def by blast
  obtain es where es: "map Inr (data_part (ss_conn (sub_sess s))) = map (EncodeData codec) es"
    "subseq es (got (ss_received (sub_sess s)))"
    using forwarded_data [of codec "ss_received (sub_sess s)"] st by (auto simp: data_part_stream)
  have "subseq es (rs_sent (sub_sys s))"
    using es(2) D by (metis subseq_order.trans subseq_rev_drop_many list_emb_append2)
  moreover have "distinct (map ge_EventId es)"
    using subseq_distinct_map [OF calculation sent_distinct [OF sys]] .
  moreover have "last (stream_part (ss_conn (sub_sess s))) = control TypeStreamEnd" if "RecvEOF \<in> set (ss_received (sub_sess s))"
    using forwarded_end [OF ok that] st by simp
  ultimately show ?thesis using es(1) by blast
qed

text \<open>One join event on its way from the room to the subscriber.\<close>

definition event_codec :: "(unit, game_event, string) grpc_codec" where
  "event_codec = \<lparr>gk_NewRequest = (), gk_marshal_proto = (\<lambda>e. Inr (ge_EventId e)), gk_unmarshal_proto = (\<lambda>b r. ((), None)),
     gk_marshal_json = (\<lambda>d. Inr []), gk_unmarshal_json = (\<lambda>b. Inr (Some b))\<rparr>"

definition sub_demo :: "nat \<times> (string, unit, int) subscription" where
  "sub_demo = sub_start ''r'' (new_grpc_conn ''ServerStreamConn'' [0] 1 5 () {}) 7 ''me'' (room_start ''g'')"

lemma sub_demo_delivered:
  "\<exists>s e. rtranclp (sub_step event_codec (ServerStream_HandleMessage ''r'') ''r'' ''me'' 0) (snd sub_demo) s \<and>
    sub_sess s = session_start ''r'' (new_grpc_conn ''ServerStreamConn'' [0] 1 5 () {}) \<and> sub_leaving s = None \<and>
    pc_events (conn_heap (rs_room (sub_sys s)) 0) = [e]"
proof -
  let ?step = "sub_step event_codec (ServerStream_HandleMessage ''r'') ''r'' ''me'' 0"
  define s0 where "s0 = snd sub_demo"
  define r where "r = rs_room (sub_sys s0)"
  define e where "e = the (rs_writer (sub_sys s0))"
  have s0: "rs_writer (sub_sys s0) = Some e" "\<not> rs_rest (sub_sys s0)" "rs_loop (sub_sys s0) = None" "sub_leaving s0 = None"
    "sub_sess s0 = session_start ''r'' (new_grpc_conn ''ServerStreamConn'' [0] 1 5 () {})"
    and r: "eventsChan r = []" "players r = [''me'' \<mapsto> 0]" "pc_events (conn_heap r 0) = []" "\<not> pc_closed (conn_heap r 0)"
    by (simp_all add: s0_def e_def r_def sub_demo_def sub_start_def AddPlayer_def room_start_def new_room_def Let_def)
  define y1 where "y1 = (sub_sys s0)\<lparr>rs_room := r\<lparr>eventsChan := [e]\<rparr>, rs_writer := None, rs_sent := rs_sent (sub_sys s0) @ [e]\<rparr>"
  define y2 where "y2 = y1\<lparr>rs_room := r\<lparr>eventsChan := []\<rparr>, rs_loop := Some e\<rparr>"
  define r3 where "r3 = (r\<lparr>eventsChan := []\<rparr>)\<lparr>conn_heap := (conn_heap r)(0 := push_event e (conn_heap r 0))\<rparr>"
  define y3 where "y3 = y2\<lparr>rs_room := r3, rs_loop := None, rs_panic := (rs_panic y2 \<or> Returned \<noteq> Returned)\<rparr>"
  have 1: "room_step (sub_sys s0) y1"
    using room_step.send [OF s0(1)] s0(2) r(1) by (simp add: y1_def r_def)
  have 2: "room_step y1 y2"
    using room_step.take_event [of y1 e "[]"] s0(3) by (simp add: y1_def y2_def)
  have "broadcast e [''me''] (rs_room y2) = (Returned, r3)" "room_visits [''me''] (players (rs_room y2))"
    using r by (auto simp: broadcast_def y2_def r3_def room_visits_def)
  then have 3: "room_step y2 y3"
    using room_step.deliver [of y2 e "[''me'']" Returned r3] by (simp add: y2_def y1_def y3_def)
  have q: "pc_events (conn_heap (rs_room y3) 0) = [e]" "pc_events (conn_heap (rs_room y2) 0) = []"
    "pc_events (conn_heap (rs_room y1) 0) = []"
    using r by (simp_all add: y1_def y2_def y3_def r3_def push_event_def)
  have A: "?step s0 (s0\<lparr>sub_sys := y1\<rparr>)" by (rule sub_step.room [OF 1]) (simp add: q r_def [symmetric] r)
  have B: "?step (s0\<lparr>sub_sys := y1\<rparr>) (s0\<lparr>sub_sys := y2\<rparr>)"
    using sub_step.room [of "s0\<lparr>sub_sys := y1\<rparr>" y2 0] 2 q by simp
  have C: "?step (s0\<lparr>sub_sys := y2\<rparr>) (s0\<lparr>sub_sys := y3\<rparr>)"
    using sub_step.room [of "s0\<lparr>sub_sys := y2\<rparr>" y3 0] 3 q by simp
  have "rtranclp ?step s0 (s0\<lparr>sub_sys := y3\<rparr>)"
    by (rule rtranclp.rtrancl_into_rtrancl [of ?step, OF rtranclp.rtrancl_into_rtrancl [of ?step, OF r_into_rtranclp [of ?step, OF A] B] C])
  then show ?thesis
    using s0(4,5) q(1) unfolding s0_def by (intro exI [of _ "snd sub_demo\<lparr>sub_sys := y3\<rparr>"] exI [of _ e]) simp
qed

lemma sub_demo_run:
  "\<exists>s. rtranclp (sub_step event_codec (ServerStream_HandleMessage ''r'') ''r'' ''me'' 0) (snd sub_demo) s \<and>
    data_part (ss_conn (sub_sess s)) \<noteq> []"
proof -
  let ?step = "sub_step event_codec (ServerStream_HandleMessage ''r'') ''r'' ''me'' 0"
  let ?c = "new_grpc_conn ''ServerStreamConn'' [0] 1 5 () {} :: (string, unit) grpc_conn"
  obtain s e where s: "rtranclp ?step (snd sub_demo) s" "sub_sess s = session_start ''r'' ?c" "sub_leaving s = None"
    "pc_events (conn_heap (rs_room (sub_sys s)) 0) = [e]"
    using sub_demo_delivered by blast
  obtain room' where "SharedServerStream_Recv False 0 ''me'' 0 (rs_room (sub_sys s)) = Some (Resp e, None, room')"
    using s(4) by (simp add: SharedServerStream_Recv_def)
  moreover have "ss_forwarder (sub_sess s) = Receiving" using s(2) by (simp add: session_start_def)
  ultimately have "?step s (s\<lparr>sub_sys := (sub_sys s)\<lparr>rs_room := room'\<rparr>, sub_sess := sub_receive event_codec (Resp e) (sub_sess s)\<rparr>)"
    using s(3) by (intro sub_step.recv)
  from rtranclp.rtrancl_into_rtrancl [of ?step, OF s(1) this]
  have run: "rtranclp ?step (snd sub_demo)
    (s\<lparr>sub_sys := (sub_sys s)\<lparr>rs_room := room'\<rparr>, sub_sess := sub_receive event_codec (Resp e) (sub_sess s)\<rparr>)" .
  have "running (ss_conn (sub_sess s))"
    using s(2) by (simp add: session_start_def running_def grpc_OnStart_def WSOnStart_def new_grpc_conn_def initContext_def Let_def)
  then have "data_part (ss_conn (sub_receive event_codec (Resp e) (sub_sess s))) \<noteq> []"
    by (simp add: sub_receive_def forward_recv_def EncodeData_def event_codec_def data_part_def control_def)
  then show ?thesis using run by (intro exI conjI) (assumption, simp)
qed

theorem game_events_in_order_witness:
  "\<exists>s :: (string, unit, int) subscription. \<exists>es. es \<noteq> [] \<and>
    map Inr (data_part (ss_conn (sub_sess s))) = map (EncodeData event_codec) es \<and> subseq es (rs_sent (sub_sys s))"
proof -
  have g: "room_reach ''g'' (room_start ''g'' :: int room_sys)" "rs_writer (room_start ''g'' :: int room_sys) = None"
    by (simp_all add: room_reach_def room_start_def)
  have a: "sub_start ''r'' (new_grpc_conn ''ServerStreamConn'' [0] 1 5 () {}) 7 ''me'' (room_start ''g'') = (0, snd sub_demo)"
    by (simp add: sub_demo_def sub_start_def AddPlayer_def room_start_def new_room_def Let_def)
  obtain s where s: "rtranclp (sub_step event_codec (ServerStream_HandleMessage ''r'') ''r'' ''me'' 0) (snd sub_demo) s"
    "data_part (ss_conn (sub_sess s)) \<noteq> []"
    using sub_demo_run by blast
  from game_events_in_order [OF g a s(1)] obtain es where
    "map Inr (data_part (ss_conn (sub_sess s))) = map (EncodeData event_codec) es" "subseq es (rs_sent (sub_sys s))"
    by blast
  then show ?thesis using s(2) by (intro exI [of _ s] exI [of _ es]) auto
qed

end
