(* ===== verification/DemoStreams.thy ===== *)
theory DemoStreams
  imports GameProps GrpcProps
begin

text \<open>
  The demo's streams behind the WebSocket: what the messages of a client of the \<open>sync\<close> endpoint do to
  the game rooms, and what a client of the \<open>commands\<close> endpoint gets for its commands
  (\<open>cmd/grpcws-demo/main.go\<close> under \<open>grpcws/bidi_stream.go\<close> and \<open>grpcws/client_stream.go\<close>).
\<close>

section \<open>The streams as operations\<close>

text \<open>The bidirectional stream with the calls that it has made to the rooms so far.\<close>

definition sync_ops ::
  "('f player_action, 'f game_state, shared_bidi_stream \<times> 'f room_call list) stream_ops" where
  "sync_ops =
     \<lparr>so_Send = (\<lambda>act (s, calls). case SharedBidiStream_Send act s of (e, ks, s) \<Rightarrow> (e, s, calls @ ks)),
      so_CloseSend = (\<lambda>(s, calls). case SharedBidiStream_CloseSend s of (ks, s) \<Rightarrow> (None, s, calls @ ks)),
      so_CloseAndRecv = (\<lambda>g. (Inl [], g))\<rparr>"

text \<open>The client stream with its commands; each call of CloseAndRecv draws anew.\<close>

definition NewMockClientStream :: "nat list \<Rightarrow> string + string list" where
  "NewMockClientStream ctx = Inr []"

definition commands_ops :: "(nat \<Rightarrow> bool) \<Rightarrow> (string, command_summary, string list) stream_ops" where
  "commands_ops unlucky =
     \<lparr>so_Send = MockClientStream_Send, so_CloseSend = (\<lambda>cs. (None, cs)),
      so_CloseAndRecv = (\<lambda>cs. (Inr (MockClientStream_CloseAndRecv unlucky cs), cs))\<rparr>"

section \<open>The meaning of a client's messages\<close>

definition half_closes :: "'d control_message \<Rightarrow> bool" where
  "half_closes m \<longleftrightarrow> cm_Type m = TypeEndSend"

definition request_of :: "('req, 'resp, 'd) grpc_codec \<Rightarrow> 'd control_message \<Rightarrow> 'req list" where
  "request_of codec m =
     (if cm_Type m = TypeData then (case DecodeRequest codec m of (req, None) \<Rightarrow> [req] | (_, Some _) \<Rightarrow> []) else [])"

text \<open>The requests that arrive before the half-close.\<close>

definition accepted :: "('req, 'resp, 'd) grpc_codec \<Rightarrow> 'd control_message list \<Rightarrow> 'req list" where
  "accepted codec ms = concat (map (request_of codec) (takeWhile (\<lambda>m. \<not> half_closes m) ms))"

text \<open>The errors reported: those of decoding, and one for each request after the half-close.\<close>

definition complaint :: "('req, 'resp, 'd) grpc_codec \<Rightarrow> bool \<Rightarrow> 'd control_message \<Rightarrow> string list" where
  "complaint codec shut m =
     (if cm_Type m = TypeData then
        (case DecodeRequest codec m of (req, None) \<Rightarrow> if shut then [''stream closed''] else [] | (_, Some e) \<Rightarrow> [e])
      else [])"

fun complaints :: "('req, 'resp, 'd) grpc_codec \<Rightarrow> bool \<Rightarrow> 'd control_message list \<Rightarrow> string list" where
  "complaints codec shut [] = []"
| "complaints codec shut (m # ms) = complaint codec shut m @ complaints codec (shut \<or> half_closes m) ms"

text \<open>The room of a player, and the calls that a run of actions makes to it.\<close>

definition room_for :: "'f player_action \<Rightarrow> string" where
  "room_for act = (if pa_PlayerId act \<noteq> [] then ''shared-game'' else ''default'')"

definition room_calls :: "'f player_action list \<Rightarrow> bool \<Rightarrow> 'f room_call list" where
  "room_calls acts shut = (case acts of
      [] \<Rightarrow> []
    | a # _ \<Rightarrow> JoinRoom (room_for a) (pa_PlayerId a) # map (ActInRoom (room_for a)) acts @
        (if shut \<and> pa_PlayerId a \<noteq> [] then [LeaveRoom (room_for a) (pa_PlayerId a)] else []))"

fun call_room :: "'f room_call \<Rightarrow> string" where
  "call_room (JoinRoom g p) = g"
| "call_room (LeaveRoom g p) = g"
| "call_room (ActInRoom g a) = g"

definition sync_state :: "'f player_action list \<Rightarrow> bool \<Rightarrow> shared_bidi_stream" where
  "sync_state acts shut =
     \<lparr>sb_playerId = (case acts of [] \<Rightarrow> [] | a # _ \<Rightarrow> pa_PlayerId a),
      sb_room = (case acts of [] \<Rightarrow> None | a # _ \<Rightarrow> Some (room_for a)),
      sb_closed = shut, sb_gameIdSet = (acts \<noteq> [])\<rparr>"

section \<open>Adding a message\<close>

lemma accepted_snoc:
  "accepted codec (ms @ [m]) = accepted codec ms @ (if list_ex half_closes (ms @ [m]) then [] else request_of codec m)"
proof (cases "list_ex half_closes ms")
  case True
  then have "takeWhile (\<lambda>m. \<not> half_closes m) (ms @ [m]) = takeWhile (\<lambda>m. \<not> half_closes m) ms"
    by (auto simp: list_ex_iff takeWhile_append1)
  then show ?thesis using True by (simp add: accepted_def)
next
  case False
  then have "takeWhile (\<lambda>m. \<not> half_closes m) ms = ms" by (auto simp: list_ex_iff takeWhile_eq_all_conv)
  then have "accepted codec ms = concat (map (request_of codec) ms)" by (simp only: accepted_def)
  then show ?thesis using False by (auto simp: accepted_def list_ex_iff takeWhile_append2)
qed

lemma complaints_snoc:
  "complaints codec shut (ms @ [m]) =
     complaints codec shut ms @ complaint codec (shut \<or> list_ex half_closes ms) m"
  by (induction ms arbitrary: shut) (simp_all add: disj_assoc)

lemma sync_send:
  "so_Send sync_ops act (sync_state acts shut, room_calls acts shut) =
     (if shut then (Some ''stream closed'', sync_state acts shut, room_calls acts shut)
      else (None, sync_state (acts @ [act]) False, room_calls (acts @ [act]) False))"
  by (cases acts) (simp_all add: sync_ops_def SharedBidiStream_Send_def sync_state_def room_calls_def room_for_def Let_def)

lemma sync_close:
  "so_CloseSend sync_ops (sync_state acts shut, room_calls acts shut) =
     (None, sync_state acts True, room_calls acts True)"
  by (cases acts) (simp_all add: sync_ops_def SharedBidiStream_CloseSend_def sync_state_def room_calls_def)

lemma sync_upload_step:
  "upload codec sync_ops (so_CloseSend sync_ops) m ((sync_state acts shut, room_calls acts shut), n, errs) =
     ((sync_state (acts @ (if shut \<or> half_closes m then [] else request_of codec m)) (shut \<or> half_closes m),
       room_calls (acts @ (if shut \<or> half_closes m then [] else request_of codec m)) (shut \<or> half_closes m)),
      n + of_nat (length (if shut \<or> half_closes m then [] else request_of codec m)), errs @ complaint codec shut m)"
  by (auto simp: upload_def sync_send sync_close half_closes_def request_of_def complaint_def split: prod.split option.split)

lemma sync_upload:
  "fold (upload codec sync_ops (so_CloseSend sync_ops)) ms ((NewSharedBidiStream, []), 0, []) =
     ((sync_state (accepted codec ms) (list_ex half_closes ms), room_calls (accepted codec ms) (list_ex half_closes ms)),
      of_nat (length (accepted codec ms)), complaints codec False ms)"
proof (induction ms rule: rev_induct)
  case Nil
  show ?case by (simp add: accepted_def room_calls_def sync_state_def NewSharedBidiStream_def)
next
  case (snoc m ms)
  show ?case by (simp add: snoc sync_upload_step accepted_snoc complaints_snoc disj_commute)
qed

section \<open>The sync endpoint\<close>

definition sync_conn :: "string \<Rightarrow> nat list \<Rightarrow> nat \<Rightarrow> int \<Rightarrow> nat set \<Rightarrow> ('d, shared_bidi_stream \<times> 'f room_call list) grpc_conn" where
  "sync_conn rnd reqCtx scope now cancelled =
     snd (grpc_OnStart rnd (new_grpc_conn ''BidiStreamConn'' reqCtx scope now (NewSharedBidiStream, []) cancelled))"

lemma started_conn:
  "running (snd (grpc_OnStart rnd (new_grpc_conn name ctx scope now g cancelled)))"
  "upstream (snd (grpc_OnStart rnd (new_grpc_conn name ctx scope now g cancelled))) = (g, 0, [])"
  "envelopes (snd (grpc_OnStart rnd (new_grpc_conn name ctx scope now g cancelled))) = []"
  by (simp_all add: running_def upstream_def envelopes_def grpc_OnStart_def WSOnStart_def Let_def new_grpc_conn_def
      initContext_def)

lemma sync_upstream:
  "upstream (run_messages (BidiStream_HandleMessage codec sync_ops rnd) ms (sync_conn rnd ctx scope now cancelled)) =
     ((sync_state (accepted codec ms) (list_ex half_closes ms), room_calls (accepted codec ms) (list_ex half_closes ms)),
      of_nat (length (accepted codec ms)), complaints codec False ms)"
  unfolding sync_conn_def
  by (subst upload_run [where f = "upload codec sync_ops (so_CloseSend sync_ops)", OF bidi_upload_step started_conn(1)])
     (assumption, subst started_conn(2), rule sync_upload)


text \<open>
  A player that names nobody joins the room \<open>default\<close> and stays there after the half-close; a room's
  other players never see it leave.
\<close>

lemma anonymous_player_stays:
  "room_calls [\<lparr>pa_ActionId = i, pa_PlayerId = [], pa_Action = k\<rparr>] True =
     [JoinRoom ''default'' [], ActInRoom ''default'' \<lparr>pa_ActionId = i, pa_PlayerId = [], pa_Action = k\<rparr>]"
  by (simp add: room_calls_def room_for_def)

section \<open>The commands endpoint\<close>

lemma commands_upload:
  assumes "\<not> list_ex half_closes ms"
  shows "running c \<Longrightarrow> running (run_messages (ClientStream_HandleMessage codec (commands_ops u) rnd) ms c) \<and>
    gc_stream (run_messages (ClientStream_HandleMessage codec (commands_ops u) rnd) ms c) =
      gc_stream c @ accepted codec ms \<and>
    envelopes (run_messages (ClientStream_HandleMessage codec (commands_ops u) rnd) ms c) =
      envelopes c @ map (\<lambda>e. (control TypeError)\<lparr>cm_Error := e\<rparr>) (complaints codec False ms)"
  using assms
proof (induction ms arbitrary: c)
  case Nil
  then show ?case by (simp add: accepted_def)
next
  case (Cons m ms)
  let ?c = "snd (ClientStream_HandleMessage codec (commands_ops u) rnd m c)"
  have n: "\<not> half_closes m" "cm_Type m \<noteq> TypeEndSend" using Cons.prems(2) by (simp_all add: half_closes_def)
  have e: "envelopes (c\<lparr>gc_stream := g\<rparr>) = envelopes c" for g by (simp add: envelopes_def)
  have "running ?c \<and> gc_stream ?c = gc_stream c @ request_of codec m \<and>
      envelopes ?c = envelopes c @ map (\<lambda>e. (control TypeError)\<lparr>cm_Error := e\<rparr>) (complaint codec False m)"
    using n Cons.prems(1)
    by (auto simp: ClientStream_HandleMessage_def handle_data_def request_of_def complaint_def commands_ops_def
        MockClientStream_Send_def sendError_def e log_conn_def split: prod.split option.split)
  then show ?case
    using Cons.IH [of ?c] Cons.prems n by (simp add: accepted_def)
qed

text \<open>
  C40: A summary for the commands. When a client of the commands endpoint sends any messages that do
  not half-close, and then half-closes, it gets, after one error for each command that did not
  decode, the summary of the commands that did and the end of the stream; the summary counts those
  commands, in 32 bits, and divides them into executed and failed, with one message per failure.
\<close>

theorem commands_session:
  assumes "\<not> list_ex half_closes ms"
    and "EncodeData codec (MockClientStream_CloseAndRecv unlucky (accepted codec ms)) = Inr reply"
    and "NewMockClientStream ctx = Inr cs"
  shows "envelopes (run_messages (ClientStream_HandleMessage codec (commands_ops unlucky) rnd) (ms @ [control TypeEndSend])
      (snd (grpc_OnStart rnd (new_grpc_conn ''ClientStreamConn'' ctx scope now cs cancelled)))) =
      map (\<lambda>e. (control TypeError)\<lparr>cm_Error := e\<rparr>) (complaints codec False ms) @ [reply, control TypeStreamEnd] \<and>
    (let summary = MockClientStream_CloseAndRecv unlucky (accepted codec ms)
     in CommandsReceived summary = of_nat (length (accepted codec ms)) \<and>
        CommandsExecuted summary + CommandsFailed summary = CommandsReceived summary \<and>
        of_nat (length (SummaryErrors summary)) = CommandsFailed summary)"
proof -
  let ?start = "snd (grpc_OnStart rnd (new_grpc_conn ''ClientStreamConn'' ctx scope now cs cancelled))"
  let ?c = "run_messages (ClientStream_HandleMessage codec (commands_ops unlucky) rnd) ms ?start"
  have run: "run_messages f (ms @ [m]) c = snd (f m (run_messages f ms c))" for f m c
    by (induction ms arbitrary: c) simp_all
  have cs: "cs = []" using assms(3) by (simp add: NewMockClientStream_def)
  have g: "gc_stream ?start = cs" by (simp add: grpc_OnStart_def WSOnStart_def Let_def new_grpc_conn_def initContext_def)
  have "running ?c \<and> gc_stream ?c = accepted codec ms \<and>
      envelopes ?c = map (\<lambda>e. (control TypeError)\<lparr>cm_Error := e\<rparr>) (complaints codec False ms)"
    using commands_upload [OF assms(1) started_conn(1), of codec unlucky rnd rnd "''ClientStreamConn''" ctx scope now cs cancelled]
    unfolding g started_conn(3) by (simp add: cs)
  moreover have "so_CloseAndRecv (commands_ops unlucky) (accepted codec ms) =
      (Inr (MockClientStream_CloseAndRecv unlucky (accepted codec ms)), accepted codec ms)"
    by (simp add: commands_ops_def)
  ultimately show ?thesis
    using client_reply [of ?c "commands_ops unlucky" _ _ codec reply "control TypeEndSend" rnd] assms(2)
      summary_adds_up [of unlucky "accepted codec ms"]
    by (simp add: run control_def MockClientStream_CloseAndRecv_def Let_def)
qed

text \<open>Ann moves twice, half-closes and moves once more, with a message that does not decode.\<close>

definition ann_codec :: "(int player_action, int game_state, string) grpc_codec" where
  "ann_codec = \<lparr>gk_NewRequest = \<lparr>pa_ActionId = [], pa_PlayerId = [], pa_Action = NoAction\<rparr>,
     gk_marshal_proto = (\<lambda>_. Inr []),
     gk_unmarshal_proto = (\<lambda>b r. if b = ''bad'' then (r, Some ''bad action'')
       else (\<lparr>pa_ActionId = b, pa_PlayerId = ''ann'', pa_Action = Attack\<rparr>, None)),
     gk_marshal_json = (\<lambda>d. Inr (the d)), gk_unmarshal_json = (\<lambda>b. Inr (Some b))\<rparr>"

definition data_of :: "string \<Rightarrow> string control_message" where
  "data_of d = (control TypeData)\<lparr>cm_Data := Some d\<rparr>"


definition summary_codec :: "(string, command_summary, string) grpc_codec" where
  "summary_codec = \<lparr>gk_NewRequest = [], gk_marshal_proto = (\<lambda>s. Inr (dec_int (sint (CommandsReceived s)))),
     gk_unmarshal_proto = (\<lambda>b r. (b, None)), gk_marshal_json = (\<lambda>d. Inr (the d)), gk_unmarshal_json = (\<lambda>b. Inr (Some b))\<rparr>"

theorem commands_session_witness:
  "envelopes (run_messages (ClientStream_HandleMessage summary_codec (commands_ops (\<lambda>i. i = 0)) ''r'')
     ([data_of ''c1'', control TypePong, data_of ''c2''] @ [control TypeEndSend])
     (snd (grpc_OnStart ''r'' (new_grpc_conn ''ClientStreamConn'' [0] 1 5 [] {})))) =
   [data_of (dec_int 2), control TypeStreamEnd]"
proof -
  let ?ms = "[data_of ''c1'', control TypePong, data_of ''c2'']"
  have a: "\<not> list_ex half_closes ?ms" by (simp add: half_closes_def data_of_def control_def)
  have acc: "accepted summary_codec ?ms = [''c1'', ''c2'']"
    by (simp add: accepted_def request_of_def half_closes_def data_of_def control_def DecodeRequest_def summary_codec_def)
  have e: "EncodeData summary_codec (MockClientStream_CloseAndRecv (\<lambda>i. i = 0) (accepted summary_codec ?ms)) =
      Inr (data_of (dec_int 2))"
    unfolding acc by (simp add: EncodeData_def summary_codec_def MockClientStream_CloseAndRecv_def Let_def data_of_def control_def)
  have c: "complaints summary_codec False ?ms = []"
    by (simp add: complaint_def half_closes_def data_of_def control_def DecodeRequest_def summary_codec_def)
  have n: "NewMockClientStream [0] = Inr []" by (simp add: NewMockClientStream_def)
  show ?thesis using commands_session [OF a e n, of "''r''" 1 5 "{}", unfolded c list.map append_Nil] by (rule conjunct1)
qed

end
