(* ===== verification/GameHub.thy ===== *)
theory GameHub
  imports GameState GameStream DemoStreams
begin

text \<open>
  The hub of game rooms of \<open>cmd/grpcws-demo/main.go\<close>: any number of rooms side by side, made by
  \<open>GetOrCreateRoom\<close>, each with its goroutines; and a client of the \<open>sync\<close> endpoint whose calls
  run in them among those of everybody else.
\<close>

section \<open>The rooms side by side\<close>

type_synonym 'f hub = "string \<Rightarrow> 'f room_sys option"

text \<open>The map of the hub, without the goroutines of the rooms.\<close>

definition games_of :: "'f hub \<Rightarrow> string \<Rightarrow> 'f game_room option" where
  "games_of h g = map_option rs_room (h g)"

text \<open>A call of GetOrCreateRoom, which starts the goroutine of a room that it makes.\<close>

definition get_or_create :: "string \<Rightarrow> 'f hub \<Rightarrow> 'f hub" where
  "get_or_create g h =
     (case GetOrCreateRoom g (games_of h) of (room, created, games) \<Rightarrow> if created then h(g \<mapsto> room_start g) else h)"

inductive hub_step :: "('f :: zero) hub \<Rightarrow> 'f hub \<Rightarrow> bool" where
  get: "hub_step h (get_or_create g h)"
| room: "h g = Some s \<Longrightarrow> room_step s s' \<Longrightarrow> hub_step h (h(g \<mapsto> s'))"

definition hub_reach :: "('f :: zero) hub \<Rightarrow> bool" where
  "hub_reach h = rtranclp hub_step (\<lambda>g. None) h"

lemma get_or_create_eq: "get_or_create g h = (if h g = None then h(g \<mapsto> room_start g) else h)"
  by (auto simp: get_or_create_def GetOrCreateRoom_def games_of_def split: option.splits)

lemma games_of_create: "games_of (get_or_create g h) = snd (snd (GetOrCreateRoom g (games_of h)))"
  by (rule ext) (auto simp: get_or_create_eq GetOrCreateRoom_def games_of_def room_start_def split: option.splits)

lemma hub_reach_rooms: "hub_reach h \<Longrightarrow> finite (dom h) \<and> (\<forall>g s. h g = Some s \<longrightarrow> room_reach g s)"
  unfolding hub_reach_def
proof (induction rule: rtranclp_induct)
  case (step h h')
  from step.hyps(2) show ?case
  proof cases
    case (get g)
    then show ?thesis using step.IH by (auto simp: get_or_create_eq room_reach_def)
  next
    case (room g s s')
    then have "room_reach g s'" using step.IH unfolding room_reach_def by (meson rtranclp.rtrancl_into_rtrancl)
    have "dom h' = dom h" using room(1,2) by auto
    then have "finite (dom h')" using step.IH by (simp only:)
    moreover have "room_reach k t" if "h' k = Some t" for k t
      using that \<open>room_reach g s'\<close> room(1) step.IH by (auto split: if_splits)
    ultimately show ?thesis by blast
  qed
qed simp

text \<open>A run of one room is a run of the hub.\<close>

lemma lift_room:
  assumes "rtranclp room_step s s'" and "h g = Some s"
  shows "rtranclp hub_step h (h(g \<mapsto> s'))"
  using assms
proof (induction rule: rtranclp_induct)
  case base
  then show ?case by (simp add: map_upd_triv)
next
  case (step t u)
  have "hub_step (h(g \<mapsto> t)) ((h(g \<mapsto> t))(g \<mapsto> u))" by (rule hub_step.room) (use step.hyps in simp_all)
  then have "hub_step (h(g \<mapsto> t)) (h(g \<mapsto> u))" by (simp only: fun_upd_upd)
  then show ?case by (rule rtranclp.rtrancl_into_rtrancl [OF step.IH [OF step.prems]])
qed

lemma rooms_hub_reach:
  assumes "finite D" and "dom h = D" and "\<And>g s. h g = Some s \<Longrightarrow> room_reach g s"
  shows "hub_reach h"
  using assms
proof (induction D arbitrary: h rule: finite_induct)
  case empty
  then have "h = (\<lambda>g. None)" by auto
  then show ?case by (simp add: hub_reach_def)
next
  case (insert g D)
  obtain s where s: "h g = Some s" using insert.prems(1) by auto
  let ?h = "h(g := None)"
  have "hub_reach ?h" using insert by (intro insert.IH) (auto split: if_splits)
  moreover have "hub_step ?h (?h(g \<mapsto> room_start g))" using hub_step.get [of ?h g] by (simp add: get_or_create_eq)
  moreover have "rtranclp hub_step (?h(g \<mapsto> room_start g)) ((?h(g \<mapsto> room_start g))(g \<mapsto> s))"
    using insert.prems(2) [OF s] by (intro lift_room) (simp_all add: room_reach_def)
  moreover have "(?h(g \<mapsto> room_start g))(g \<mapsto> s) = h" using s by (simp add: map_upd_triv)
  ultimately show ?case unfolding hub_reach_def by (metis rtranclp.rtrancl_into_rtrancl rtranclp_trans)
qed

section \<open>What a room knows of the others\<close>

text \<open>Everything in a room carries its id, and what waits for a player was sent by it.\<close>

definition own_events :: "string \<Rightarrow> 'f room_sys \<Rightarrow> bool" where
  "own_events g s \<longleftrightarrow> gameId (rs_room s) = g \<and> (\<forall>e \<in> set (events_of s). ge_GameId e = g) \<and>
     set (in_hand s) \<subseteq> set (rs_sent s) \<and>
     (\<forall>a. set (pc_events (conn_heap (rs_room s) a)) \<subseteq> set (rs_sent s))"

lemma to_players_gameId: "to_players push order r = (out, r') \<Longrightarrow> gameId r' = gameId r"
  by (induction order arbitrary: r) (force split: option.splits if_splits)+

lemma rest_gameId: "ProcessAction_rest now listed order r = (out, st, r') \<Longrightarrow> gameId r' = gameId r"
  by (auto simp: ProcessAction_rest_def Let_def dest!: to_players_gameId split: prod.splits)

lemma method_own:
  "AddPlayer now p r = (a, e, r') \<Longrightarrow> ge_GameId e = gameId r \<and> gameId r' = gameId r \<and>
     set (pc_events (conn_heap r' b)) \<subseteq> set (pc_events (conn_heap r b))"
  "RemovePlayer now p r = (Returned, Some (e, r')) \<Longrightarrow> ge_GameId e = gameId r \<and> gameId r' = gameId r \<and>
     set (pc_events (conn_heap r' b)) \<subseteq> set (pc_events (conn_heap r b))"
  "ProcessAction now act r = (e, r') \<Longrightarrow> ge_GameId e = gameId r \<and> gameId r' = gameId r \<and>
     set (pc_events (conn_heap r' b)) \<subseteq> set (pc_events (conn_heap r b))"
  by (auto simp: AddPlayer_def RemovePlayer_def ProcessAction_def room_event_def Let_def
      split: option.splits if_splits prod.splits)

text \<open>What a step adds to the events of a room: nothing, or the event of the method that it starts.\<close>

definition starts_event :: "'f room_sys \<Rightarrow> 'f room_sys \<Rightarrow> game_event list" where
  "starts_event s s' = (if rs_writer s = None then (case rs_writer s' of None \<Rightarrow> [] | Some e \<Rightarrow> [e]) else [])"

lemma events_step: "room_step s s' \<Longrightarrow> events_of s' = events_of s @ starts_event s s'"
  by (erule room_step.cases) (simp_all add: events_of_def starts_event_def split: option.split)

lemma own_events_step:
  assumes inv: "own_events g s" and sys: "sys_inv s" and "room_step s s'"
  shows "own_events g s'"
proof -
  have i: "gameId (rs_room s) = g" "\<forall>e \<in> set (events_of s). ge_GameId e = g" "set (in_hand s) \<subseteq> set (rs_sent s)"
    "set (pc_events (conn_heap (rs_room s) a)) \<subseteq> set (rs_sent s)" for a
    using inv by (simp_all add: own_events_def)
  have I: ?thesis if "gameId (rs_room s') = g" "\<forall>e \<in> set (starts_event s s'). ge_GameId e = g"
    "set (in_hand s') \<subseteq> set (rs_sent s')"
    "\<And>a. set (pc_events (conn_heap (rs_room s') a)) \<subseteq> set (rs_sent s')"
    using that i(2) events_step [OF assms(3)] unfolding own_events_def by auto
  from assms(3) show ?thesis
  proof (cases rule: room_step.cases)
    case (join now p a e r)
    have "set (pc_events (conn_heap r b)) \<subseteq> set (rs_sent s)" for b
      using method_own(1) [OF join(3), of b] i(4) [of b] by blast
    then show ?thesis
      using method_own(1) [OF join(3)] method_events(1) [OF join(3)] i(1,2,3) join(1,2)
      by (intro I) (simp_all add: in_hand_def starts_event_def)
  next
    case (leave now p e r)
    have "set (pc_events (conn_heap r b)) \<subseteq> set (rs_sent s)" for b
      using method_own(2) [OF leave(3), of b] i(4) [of b] by blast
    then show ?thesis
      using method_own(2) [OF leave(3)] method_events(2) [OF leave(3)] i(1,2,3) leave(1,2)
      by (intro I) (simp_all add: in_hand_def starts_event_def)
  next
    case (leave_panic now p m x)
    then show ?thesis using i by (intro I) (simp_all add: in_hand_def starts_event_def)
  next
    case (act now a e r)
    have "set (pc_events (conn_heap r b)) \<subseteq> set (rs_sent s)" for b
      using method_own(3) [OF act(3), of b] i(4) [of b] by blast
    then show ?thesis
      using method_own(3) [OF act(3)] method_events(3) [OF act(3)] i(1,2,3) act(1,2)
      by (intro I) (simp_all add: in_hand_def starts_event_def)
  next
    case (send e)
    then show ?thesis using i by (intro I) (auto simp: in_hand_def starts_event_def)
  next
    case (send_act e listed order now out st r)
    note f = flow_act [OF sys send_act(7)]
    show ?thesis using send_act(1,2) f i rest_gameId [OF send_act(7)]
      by (intro I) (auto simp: in_hand_def starts_event_def)
  next
    case (take_event e es)
    have "starts_event s s' = []" using take_event(1) by (simp add: starts_event_def split: option.split)
    then show ?thesis using i take_event by (intro I) (simp_all add: in_hand_def)
  next
    case (deliver e order out r)
    have "set (pc_events (conn_heap r a)) \<subseteq> set (pc_events (conn_heap (rs_room s) a)) \<union> {e}" for a
      using flow_deliver [OF sys deliver(4,5), of a] by (auto dest: list_emb_set)
    moreover have "e \<in> set (rs_sent s)" using i(3) deliver(2) by (auto simp: in_hand_def)
    ultimately have "set (pc_events (conn_heap r a)) \<subseteq> set (rs_sent s)" for a using i(4) by blast
    then show ?thesis
      using deliver(1,2,3) i flow_deliver [OF sys deliver(4,5)] to_players_gameId [OF deliver(5) [unfolded broadcast_def]]
      by (intro I) (auto simp: in_hand_def starts_event_def)
  next
    case (consume_event b e es)
    have "set es \<subseteq> set (rs_sent s)" using i(4) [of b] consume_event(2) by simp
    moreover have "starts_event s s' = []" using consume_event(1) by (simp add: starts_event_def split: option.split)
    ultimately show ?thesis using i consume_event(1) by (intro I) (simp_all add: in_hand_def)
  next
    case (consume_state b st sts)
    have "starts_event s s' = []" using consume_state(1) by (simp add: starts_event_def split: option.split)
    then show ?thesis using i consume_state(1) by (intro I) (simp_all add: in_hand_def)
  qed
qed

lemma own_events_reach: "room_reach g s \<Longrightarrow> own_events g s"
  unfolding room_reach_def
proof (induction rule: rtranclp_induct)
  case base
  show ?case by (simp add: own_events_def room_start_def new_room_def events_of_def in_hand_def)
next
  case (step s t)
  then show ?case using own_events_step [OF step.IH sys_inv_reach] by (simp add: room_reach_def)
qed

lemma hub_keeps_rooms:
  assumes "rtranclp hub_step h h'" and "h g = Some s"
  shows "\<exists>s'. h' g = Some s' \<and> rtranclp room_step s s'"
  using assms(1)
proof (induction rule: rtranclp_induct)
  case base
  then show ?case using assms(2) by blast
next
  case (step h1 h2)
  obtain s1 where s1: "h1 g = Some s1" "rtranclp room_step s s1" using step.IH by blast
  from step.hyps(2) show ?case
  proof cases
    case (get k)
    then show ?thesis using s1 by (auto simp: get_or_create_eq)
  next
    case (room k t t')
    show ?thesis
    proof (cases "k = g")
      case True
      then have "rtranclp room_step s t'" using s1 room(2,3) by (auto intro: rtranclp.rtrancl_into_rtrancl)
      then show ?thesis using True room(1) by simp
    qed (use s1 room(1) in simp)
  qed
qed

text \<open>
  C19: The hub runs its games side by side. Its reachable states are exactly the combinations of
  reachable states of finitely many rooms, each under its own id, so that whatever a room does in
  any interleaving it can do alone; asking for a room never replaces one; and every event that waits
  for a player was sent by the player's own room and carries its id.
\<close>

theorem game_hub_rooms:
  "(hub_reach h \<longleftrightarrow> finite (dom h) \<and> (\<forall>g s. h g = Some s \<longrightarrow> room_reach g s)) \<and>
   (\<forall>h'. rtranclp hub_step h h' \<longrightarrow> (\<forall>g s. h g = Some s \<longrightarrow> (\<exists>s'. h' g = Some s' \<and> rtranclp room_step s s'))) \<and>
   (hub_reach h \<longrightarrow> (\<forall>g s a. h g = Some s \<longrightarrow>
      (\<forall>e \<in> set (pc_events (conn_heap (rs_room s) a)). e \<in> set (rs_sent s) \<and> ge_GameId e = g)))"
proof -
  have "e \<in> set (rs_sent s) \<and> ge_GameId e = g"
    if "hub_reach h" "h g = Some s" "e \<in> set (pc_events (conn_heap (rs_room s) a))" for g s a e
  proof -
    have "own_events g s" using hub_reach_rooms [OF that(1)] that(2) own_events_reach by blast
    then show ?thesis using that(3) unfolding own_events_def events_of_def by auto
  qed
  then show ?thesis using hub_reach_rooms [of h] rooms_hub_reach [OF _ refl, of h] hub_keeps_rooms [of h] by blast
qed

text \<open>The game in which ann has attacked beside an empty one.\<close>

theorem game_hub_rooms_witness:
  "hub_reach [''g'' \<mapsto> ann_plays, ''k'' \<mapsto> room_start ''k'']"
proof -
  let ?h = "[''g'' \<mapsto> ann_plays, ''k'' \<mapsto> room_start ''k'']"
  have "finite (dom ?h)" by simp
  moreover have "\<forall>g s. ?h g = Some s \<longrightarrow> room_reach g s"
    using ann_plays_reach by (auto simp: room_reach_def)
  ultimately show ?thesis using game_hub_rooms [of ?h] by blast
qed

section \<open>What an event tells\<close>

datatype told = Joins string | Leaves string | Acts string string string

fun who :: "told \<Rightarrow> string" where
  "who (Joins p) = p"
| "who (Leaves p) = p"
| "who (Acts p t i) = p"

fun tells :: "event_payload \<Rightarrow> told" where
  "tells (PlayerJoined p n) = Joins p"
| "tells (PlayerLeft p n) = Leaves p"
| "tells (PlayerActionEvent p t i) = Acts p t i"

definition kind_of :: "'f action_kind \<Rightarrow> string" where
  "kind_of k = (case k of Move x y z \<Rightarrow> ''move'' | Attack \<Rightarrow> ''attack'' | UseItem \<Rightarrow> ''use_item'' | NoAction \<Rightarrow> ''unknown'')"

text \<open>What a call to the rooms should leave in the log of its room.\<close>

fun call_tells :: "'f room_call \<Rightarrow> told" where
  "call_tells (JoinRoom g p) = Joins p"
| "call_tells (LeaveRoom g p) = Leaves p"
| "call_tells (ActInRoom g a) = Acts (pa_PlayerId a) (kind_of (pa_Action a)) (pa_ActionId a)"

text \<open>The part of a log that is about the players \<open>P\<close>.\<close>

definition log_of :: "string set \<Rightarrow> game_event list \<Rightarrow> told list" where
  "log_of P es = filter (\<lambda>t. who t \<in> P) (map (\<lambda>e. tells (ge_Payload e)) es)"

lemma log_of_append [simp]: "log_of P (xs @ ys) = log_of P xs @ log_of P ys"
  by (simp add: log_of_def)

lemma log_of_simps [simp]:
  "log_of P [] = []" "log_of P [e] = (if who (tells (ge_Payload e)) \<in> P then [tells (ge_Payload e)] else [])"
  by (simp_all add: log_of_def)

lemma method_tells:
  "AddPlayer now p r = (a, e, r') \<Longrightarrow> tells (ge_Payload e) = call_tells (JoinRoom g p)"
  "RemovePlayer now p r = (Returned, Some (e, r')) \<Longrightarrow> tells (ge_Payload e) = call_tells (LeaveRoom g p)"
  "ProcessAction now act r = (e, r') \<Longrightarrow> tells (ge_Payload e) = call_tells (ActInRoom g act)"
  by (auto simp: AddPlayer_def RemovePlayer_def ProcessAction_def room_event_def kind_of_def apply_action_def Let_def
      split: option.splits if_splits prod.splits action_kind.splits)

text \<open>Who is in a room is what its log says.\<close>

definition seated :: "told list \<Rightarrow> string set" where
  "seated ts = fold (\<lambda>t S. case t of Joins p \<Rightarrow> insert p S | Leaves p \<Rightarrow> S - {p} | Acts p k i \<Rightarrow> S) ts {}"

lemma seated_simps [simp]:
  "seated [] = {}" "seated (ts @ [Joins p]) = insert p (seated ts)" "seated (ts @ [Leaves p]) = seated ts - {p}"
  "seated (ts @ [Acts p k i]) = seated ts"
  by (simp_all add: seated_def)

lemma seated_filter: "p \<in> P \<Longrightarrow> p \<in> seated (filter (\<lambda>t. who t \<in> P) ts) \<longleftrightarrow> p \<in> seated ts"
proof (induction ts rule: rev_induct)
  case (snoc t ts)
  then show ?case by (cases t) auto
qed simp

lemma method_players:
  "AddPlayer now p r = (a, e, r') \<Longrightarrow> dom (players r') = insert p (dom (players r))"
  "RemovePlayer now p r = (Returned, Some (e, r')) \<Longrightarrow> dom (players r') = dom (players r) - {p}"
  "ProcessAction now act r = (e, r') \<Longrightarrow> players r' = players r"
  by (auto simp: AddPlayer_def RemovePlayer_def ProcessAction_def Let_def split: option.splits if_splits prod.splits)

lemma to_players_players: "to_players push order r = (out, r') \<Longrightarrow> players r' = players r"
  by (induction order arbitrary: r) (force split: option.splits if_splits)+

lemma rest_players: "ProcessAction_rest now listed order r = (out, st, r') \<Longrightarrow> players r' = players r"
  by (auto simp: ProcessAction_rest_def Let_def dest!: to_players_players split: prod.splits)

definition seats_told :: "'f room_sys \<Rightarrow> bool" where
  "seats_told s \<longleftrightarrow> dom (players (rs_room s)) = seated (map (\<lambda>e. tells (ge_Payload e)) (events_of s))"

lemma seats_told_step:
  assumes inv: "seats_told s" and "room_step s s'"
  shows "seats_told s'"
proof -
  note ev = events_step [OF assms(2)]
  have same: ?thesis if "players (rs_room s') = players (rs_room s)" "starts_event s s' = []"
    using inv that ev by (simp add: seats_told_def)
  have quiet: "starts_event s s' = []" if "rs_writer s' = rs_writer s \<or> rs_writer s' = None"
    using that by (auto simp: starts_event_def split: option.split)
  from assms(2) show ?thesis
  proof (cases rule: room_step.cases)
    case (join now p a e r)
    then show ?thesis
      using ev inv method_tells(1) [OF join(3)] method_players(1) [OF join(3)] by (simp add: seats_told_def starts_event_def)
  next
    case (leave now p e r)
    then show ?thesis
      using ev inv method_tells(2) [OF leave(3)] method_players(2) [OF leave(3)] by (simp add: seats_told_def starts_event_def)
  next
    case (act now a e r)
    then show ?thesis
      using ev inv method_tells(3) [OF act(3)] method_players(3) [OF act(3)] by (simp add: seats_told_def starts_event_def)
  next
    case (send_act e listed order now out st r)
    then show ?thesis using rest_players [OF send_act(7)] quiet by (intro same) simp_all
  next
    case (deliver e order out r)
    then show ?thesis using to_players_players [OF deliver(5) [unfolded broadcast_def]] quiet by (intro same) simp_all
  qed (use quiet in \<open>intro same; simp\<close>)+
qed

lemma seats_told_reach: "room_reach g s \<Longrightarrow> seats_told s"
  unfolding room_reach_def
proof (induction rule: rtranclp_induct)
  case base
  show ?case by (simp add: seats_told_def room_start_def new_room_def events_of_def)
qed (rule seats_told_step)

section \<open>A client of the sync endpoint\<close>

text \<open>
  A call while it holds the lock of the room: the event that it has to send, and whether it builds a
  state afterwards.
\<close>

fun run_call :: "int \<Rightarrow> 'f room_call \<Rightarrow> ('f :: zero) game_room \<Rightarrow> outcome \<times> (game_event \<times> bool \<times> 'f game_room) option" where
  "run_call now (JoinRoom g p) r = (case AddPlayer now p r of (a, e, r) \<Rightarrow> (Returned, Some (e, False, r)))"
| "run_call now (ActInRoom g act) r = (case ProcessAction now act r of (e, r) \<Rightarrow> (Returned, Some (e, True, r)))"
| "run_call now (LeaveRoom g p) r =
     (case RemovePlayer now p r of
        (out, None) \<Rightarrow> (out, None)
      | (out, Some (e, r)) \<Rightarrow> (out, Some (e, False, r)))"

text \<open>
  The client's connection in the hub: the messages that it has handled, how many of the calls that
  these make have been started, and the event that the last one still waits to send, with its room.
\<close>

record ('d, 'f) sync_client =
  yc_rooms :: "'f hub"
  yc_conn :: "('d, shared_bidi_stream \<times> 'f room_call list) grpc_conn"
  yc_in :: "'d control_message list"
  yc_done :: nat
  yc_event :: "(string \<times> game_event) option"

definition yc_calls :: "('d, 'f) sync_client \<Rightarrow> 'f room_call list" where
  "yc_calls s = snd (gc_stream (yc_conn s))"

definition sync_client_start :: "string \<Rightarrow> nat list \<Rightarrow> nat \<Rightarrow> int \<Rightarrow> nat set \<Rightarrow> ('d, 'f) sync_client" where
  "sync_client_start rnd ctx scope now cancelled =
     \<lparr>yc_rooms = (\<lambda>g. None), yc_conn = sync_conn rnd ctx scope now cancelled, yc_in = [], yc_done = 0, yc_event = None\<rparr>"

text \<open>
  The read loop of the connection handles a message when the calls of the last one have returned. A
  call runs when nobody else holds the lock of its room, and returns when its event is in the channel
  of the room. Everybody else, the goroutines of the rooms and the streams of the other clients,
  takes any step (\<open>get\<close> also stands for the client's own call of GetOrCreateRoom); the players \<open>P\<close>
  are those that nobody else plays.
\<close>

inductive sync_step ::
  "('f player_action, 'f game_state, 'd) grpc_codec \<Rightarrow> string \<Rightarrow> string set \<Rightarrow>
   ('d, 'f :: zero) sync_client \<Rightarrow> ('d, 'f) sync_client \<Rightarrow> bool"
  for codec rnd P
where
  message: "yc_event s = None \<Longrightarrow> yc_done s = length (yc_calls s) \<Longrightarrow>
    BidiStream_HandleMessage codec sync_ops rnd m (yc_conn s) = (err, c) \<Longrightarrow>
    sync_step codec rnd P s (s\<lparr>yc_conn := c, yc_in := yc_in s @ [m]\<rparr>)"
| get: "sync_step codec rnd P s (s\<lparr>yc_rooms := get_or_create g (yc_rooms s)\<rparr>)"
| call: "yc_event s = None \<Longrightarrow> yc_done s < length (yc_calls s) \<Longrightarrow> yc_calls s ! yc_done s = k \<Longrightarrow>
    yc_rooms s (call_room k) = Some t \<Longrightarrow> rs_writer t = None \<Longrightarrow>
    run_call now k (rs_room t) = (Returned, Some (e, rest, r)) \<Longrightarrow>
    sync_step codec rnd P s (s\<lparr>yc_rooms := (yc_rooms s)(call_room k \<mapsto> t\<lparr>rs_room := r, rs_writer := Some e, rs_rest := rest\<rparr>),
      yc_done := yc_done s + 1, yc_event := Some (call_room k, e)\<rparr>)"
| nobody: "yc_event s = None \<Longrightarrow> yc_done s < length (yc_calls s) \<Longrightarrow> yc_calls s ! yc_done s = k \<Longrightarrow>
    yc_rooms s (call_room k) = Some t \<Longrightarrow> rs_writer t = None \<Longrightarrow>
    run_call now k (rs_room t) = (Returned, None) \<Longrightarrow>
    sync_step codec rnd P s (s\<lparr>yc_done := yc_done s + 1\<rparr>)"
| return: "yc_event s = Some (g, e) \<Longrightarrow> yc_rooms s g = Some t \<Longrightarrow> rs_writer t \<noteq> Some e \<Longrightarrow>
    sync_step codec rnd P s (s\<lparr>yc_event := None\<rparr>)"
| others: "yc_rooms s g = Some t \<Longrightarrow> room_step t t' \<Longrightarrow> log_of P (starts_event t t') = [] \<Longrightarrow>
    sync_step codec rnd P s (s\<lparr>yc_rooms := (yc_rooms s)(g \<mapsto> t')\<rparr>)"

text \<open>A call is one of the methods of the room.\<close>

lemma run_call_step:
  assumes "rs_writer t = None" and "run_call now k (rs_room t) = (Returned, Some (e, rest, r))"
  shows "room_step t (t\<lparr>rs_room := r, rs_writer := Some e, rs_rest := rest\<rparr>) \<and> tells (ge_Payload e) = call_tells k"
proof (cases k)
  case (JoinRoom g p)
  obtain a e' r' where j: "AddPlayer now p (rs_room t) = (a, e', r')" by (rule prod_cases3)
  then have "e' = e" "r' = r" "rest = False" using assms(2) JoinRoom by simp_all
  then show ?thesis using room_step.join [OF assms(1) j] method_tells(1) [OF j] JoinRoom by simp
next
  case (LeaveRoom g p)
  then have l: "RemovePlayer now p (rs_room t) = (Returned, Some (e, r))" "rest = False"
    using assms(2) by (simp_all split: prod.splits option.splits)
  then show ?thesis using room_step.leave [OF assms(1) l(1)] method_tells(2) [OF l(1)] LeaveRoom by simp
next
  case (ActInRoom g act)
  obtain e' r' where a: "ProcessAction now act (rs_room t) = (e', r')" by (rule prod.exhaust)
  then have "e' = e" "r' = r" "rest = True" using assms(2) ActInRoom by simp_all
  then show ?thesis using room_step.act [OF assms(1) a] method_tells(3) [OF a] ActInRoom by simp
qed

text \<open>A message adds calls at the end.\<close>

lemma room_calls_grow:
  "\<exists>ks. room_calls (accepted codec (ms @ [m])) (list_ex half_closes (ms @ [m])) =
     room_calls (accepted codec ms) (list_ex half_closes ms) @ ks"
proof (cases "list_ex half_closes ms")
  case True
  then show ?thesis by (simp add: accepted_snoc)
next
  case False
  have "\<exists>ks. room_calls (as @ bs) b = room_calls as False @ ks" for as bs :: "'a player_action list" and b
    by (cases as) (simp_all add: room_calls_def)
  then show ?thesis using False by (simp add: accepted_snoc)
qed

lemma run_messages_snoc: "run_messages f (ms @ [m]) c = snd (f m (run_messages f ms c))"
  by (induction ms arbitrary: c) simp_all

text \<open>All calls are to the first one's room, and only the last one leaves.\<close>

lemma room_calls_shape:
  assumes "room_calls acts shut \<noteq> []"
  shows "\<exists>g p. acts \<noteq> [] \<and> p = pa_PlayerId (hd acts) \<and>
    room_calls acts shut = JoinRoom g p # map (ActInRoom g) acts @ (if shut \<and> p \<noteq> [] then [LeaveRoom g p] else [])"
  using assms by (cases acts) (simp_all add: room_calls_def)

definition plays :: "('f player_action, 'f game_state, 'd) grpc_codec \<Rightarrow> string set \<Rightarrow> bool" where
  "plays codec P \<longleftrightarrow> (\<forall>m req. DecodeRequest codec m = (req, None) \<longrightarrow> pa_PlayerId req \<in> P)"

lemma accepted_plays: "plays codec P \<Longrightarrow> act \<in> set (accepted codec ms) \<Longrightarrow> pa_PlayerId act \<in> P"
  by (auto simp: accepted_def request_of_def plays_def split: prod.splits option.splits if_splits)

lemma calls_play:
  assumes "plays codec P" and "k \<in> set (room_calls (accepted codec ms) shut)"
  shows "who (call_tells k) \<in> P"
proof -
  let ?acts = "accepted codec ms"
  obtain g p where gp: "?acts \<noteq> []" "p = pa_PlayerId (hd ?acts)"
    "room_calls ?acts shut = JoinRoom g p # map (ActInRoom g) ?acts @ (if shut \<and> p \<noteq> [] then [LeaveRoom g p] else [])"
    using room_calls_shape [of ?acts shut] assms(2) by fastforce
  have acts: "a \<in> set ?acts \<Longrightarrow> pa_PlayerId a \<in> P" for a by (rule accepted_plays [OF assms(1)])
  then have "p \<in> P" using gp(1,2) by simp
  then show ?thesis using assms(2) acts unfolding gp(3) by (auto split: if_splits)
qed

lemma writer_step: "room_step t t' \<Longrightarrow> rs_writer t = Some e \<Longrightarrow> rs_writer t' = Some e' \<Longrightarrow> e' = e"
  by (erule room_step.cases) simp_all

definition calls_in :: "string \<Rightarrow> ('d, 'f) sync_client \<Rightarrow> 'f room_call list" where
  "calls_in g s = filter (\<lambda>k. call_room k = g) (take (yc_done s) (yc_calls s))"

text \<open>What holds of a room with respect to the client.\<close>

definition room_tells :: "string set \<Rightarrow> 'f room_call list \<Rightarrow> (string \<times> game_event) option \<Rightarrow> string \<Rightarrow> ('f :: zero) room_sys \<Rightarrow> bool" where
  "room_tells P ks waits g t \<longleftrightarrow> room_reach g t \<and> log_of P (events_of t) = map call_tells ks \<and>
     (\<forall>e. rs_writer t = Some e \<and> who (tells (ge_Payload e)) \<in> P \<longrightarrow> waits = Some (g, e))"

definition client_inv ::
  "('f player_action, 'f game_state, 'd) grpc_codec \<Rightarrow> string \<Rightarrow> string set \<Rightarrow>
   ('d, shared_bidi_stream \<times> 'f room_call list) grpc_conn \<Rightarrow> ('d, 'f :: zero) sync_client \<Rightarrow> bool"
where
  "client_inv codec rnd P c0 s \<longleftrightarrow>
     yc_conn s = run_messages (BidiStream_HandleMessage codec sync_ops rnd) (yc_in s) c0 \<and>
     yc_calls s = room_calls (accepted codec (yc_in s)) (list_ex half_closes (yc_in s)) \<and>
     yc_done s \<le> length (yc_calls s) \<and>
     (\<forall>g. case yc_rooms s g of None \<Rightarrow> calls_in g s = [] | Some t \<Rightarrow> room_tells P (calls_in g s) (yc_event s) g t)"

text \<open>A player who has joined and not left is there to leave.\<close>

lemma leaver_is_there:
  assumes "client_inv codec rnd P c0 s" and "plays codec P" and "yc_done s < length (yc_calls s)"
    and "yc_calls s ! yc_done s = LeaveRoom g p" and "yc_rooms s g = Some t"
  shows "players (rs_room t) p \<noteq> None"
proof -
  let ?acts = "accepted codec (yc_in s)"
  have calls: "yc_calls s = room_calls ?acts (list_ex half_closes (yc_in s))" using assms(1) by (simp add: client_inv_def)
  have "room_calls ?acts (list_ex half_closes (yc_in s)) \<noteq> []" using assms(3) calls by auto
  from room_calls_shape [OF this] obtain g' p' where "yc_calls s = JoinRoom g' p' # map (ActInRoom g') ?acts @
      (if list_ex half_closes (yc_in s) \<and> p' \<noteq> [] then [LeaveRoom g' p'] else [])"
    unfolding calls by blast
  then obtain ks where ks: "yc_calls s = JoinRoom g' p' # map (ActInRoom g') ?acts @ ks"
    "ks = [] \<or> ks = [LeaveRoom g' p']"
    by (rule that) simp
  obtain j where j: "yc_done s = Suc j" using assms(4) ks(1) by (cases "yc_done s") auto
  then have nth: "(map (ActInRoom g') ?acts @ ks) ! j = LeaveRoom g p" using assms(4) ks(1) by simp
  then have "\<not> j < length ?acts" by (auto simp: nth_append)
  moreover have "j < length ?acts + length ks" using assms(3) ks(1) j by simp
  ultimately have "yc_done s = Suc (length ?acts) \<and> ks = [LeaveRoom g' p']" using ks(2) j by auto
  then have ran: "take (yc_done s) (yc_calls s) = JoinRoom g' p' # map (ActInRoom g') ?acts" "g = g'" "p = p'"
    using ks(1) j nth by (simp_all add: nth_append)
  then have inroom: "calls_in g s = JoinRoom g p # map (ActInRoom g) ?acts"
    by (simp add: calls_in_def filter_id_conv)
  have "room_tells P (calls_in g s) (yc_event s) g t"
    using assms(1,5) by (auto simp: client_inv_def dest: spec [of _ g])
  then have reach: "room_reach g t" and log: "log_of P (events_of t) = map call_tells (calls_in g s)"
    by (simp_all add: room_tells_def)
  have acts: "p \<in> seated (Joins p # map (call_tells \<circ> ActInRoom g) as)" for as :: "'a player_action list"
    by (induction as rule: rev_induct) (use seated_simps(2) [of "[]" p] in \<open>simp_all flip: append_Cons\<close>)
  have "LeaveRoom g p \<in> set (yc_calls s)" using assms(3,4) by (metis nth_mem)
  then have "p \<in> P" using calls_play [OF assms(2)] calls by fastforce
  moreover have "p \<in> seated (log_of P (events_of t))" using acts unfolding log inroom by simp
  ultimately have "p \<in> seated (map (\<lambda>e. tells (ge_Payload e)) (events_of t))" unfolding log_of_def by (simp add: seated_filter)
  then show ?thesis using seats_told_reach [OF reach] by (auto simp: seats_told_def)
qed

lemma client_invD:
  assumes "client_inv codec rnd P c0 s"
  shows "yc_rooms s g = Some t \<Longrightarrow> room_tells P (calls_in g s) (yc_event s) g t"
    and "yc_rooms s g = None \<Longrightarrow> calls_in g s = []"
  using assms by (auto simp: client_inv_def dest: spec [of _ g])

lemma client_invI:
  assumes "yc_conn s = run_messages (BidiStream_HandleMessage codec sync_ops rnd) (yc_in s) c0"
    and "yc_calls s = room_calls (accepted codec (yc_in s)) (list_ex half_closes (yc_in s))"
    and "yc_done s \<le> length (yc_calls s)"
    and "\<And>g t. yc_rooms s g = Some t \<Longrightarrow> room_tells P (calls_in g s) (yc_event s) g t"
    and "\<And>g. yc_rooms s g = None \<Longrightarrow> calls_in g s = []"
  shows "client_inv codec rnd P c0 s"
  unfolding client_inv_def
  by (intro conjI allI assms(1-3)) (use assms(4,5) in \<open>simp split: option.split\<close>)

lemma others_keep:
  assumes "room_tells P ks w g t" and "room_step t t'" and "log_of P (starts_event t t') = []"
  shows "room_tells P ks w g t'"
proof -
  have "room_reach g t'" using assms(1,2) room_reach_step by (auto simp: room_tells_def)
  moreover have "log_of P (events_of t') = log_of P (events_of t)" using events_step [OF assms(2)] assms(3) by simp
  moreover have "w = Some (g, e)" if "rs_writer t' = Some e" "who (tells (ge_Payload e)) \<in> P" for e
  proof (cases "rs_writer t")
    case None
    then have "starts_event t t' = [e]" using that(1) by (simp add: starts_event_def)
    then show ?thesis using assms(3) that(2) by simp
  next
    case (Some e')
    then show ?thesis using writer_step [OF assms(2) Some that(1)] assms(1) that(2) by (auto simp: room_tells_def)
  qed
  ultimately show ?thesis using assms(1) by (simp add: room_tells_def)
qed

lemma client_inv_step:
  fixes s :: "('d, 'f :: zero) sync_client"
  assumes inv: "client_inv codec rnd P c0 s" and plays: "plays codec P" and "sync_step codec rnd P s s'"
    and calls: "\<And>ms. snd (gc_stream (run_messages (BidiStream_HandleMessage codec sync_ops rnd) ms c0)) =
      room_calls (accepted codec ms) (list_ex half_closes ms)"
  shows "client_inv codec rnd P c0 s'"
proof -
  have conn: "yc_conn s = run_messages (BidiStream_HandleMessage codec sync_ops rnd) (yc_in s) c0"
    and eq: "yc_calls s = room_calls (accepted codec (yc_in s)) (list_ex half_closes (yc_in s))"
    and le: "yc_done s \<le> length (yc_calls s)"
    using inv unfolding client_inv_def by blast+
  note at = client_invD [OF inv]
  from assms(3) show ?thesis
  proof (cases rule: sync_step.cases)
    case (message m err c)
    have c: "c = run_messages (BidiStream_HandleMessage codec sync_ops rnd) (yc_in s @ [m]) c0"
      using message(4) conn by (simp add: run_messages_snoc)
    have new: "yc_calls s' = room_calls (accepted codec (yc_in s @ [m])) (list_ex half_closes (yc_in s @ [m]))"
      using message(1) calls [of "yc_in s @ [m]"] by (simp add: yc_calls_def c)
    then obtain ks where "yc_calls s' = yc_calls s @ ks" using room_calls_grow [of codec "yc_in s" m] eq by auto
    then have "calls_in g s' = calls_in g s" "yc_done s' \<le> length (yc_calls s')" for g
      using message(1,3) by (simp_all add: calls_in_def)
    then show ?thesis using at message(1) c new by (intro client_invI) simp_all
  next
    case (get g)
    then have "yc_calls s' = yc_calls s" "calls_in k s' = calls_in k s" for k by (simp_all add: yc_calls_def calls_in_def)
    moreover have "room_tells P [] w g (room_start g)" for w
      by (simp add: room_tells_def room_reach_def events_of_def room_start_def)
    ultimately show ?thesis
      using at conn eq le get by (intro client_invI) (auto simp: get_or_create_eq split: if_splits)
  next
    case (call k t now e rest r)
    note run = run_call_step [OF call(6,7)]
    have "call_tells k \<in> {x. who x \<in> P}"
      using calls_play [OF plays, of k "yc_in s"] eq call(3,4) nth_mem by fastforce
    then have member: "who (tells (ge_Payload e)) \<in> P" using run by simp
    have ks: "calls_in g s' = calls_in g s @ (if g = call_room k then [k] else [])" for g
      using call(1,3,4) by (simp add: calls_in_def yc_calls_def take_Suc_conv_app_nth)
    have new: "room_tells P (calls_in (call_room k) s') (yc_event s') (call_room k)
        (t\<lparr>rs_room := r, rs_writer := Some e, rs_rest := rest\<rparr>)"
      using at(1) [OF call(5)] run room_reach_step member call(1,6) ks
      by (auto simp: room_tells_def events_of_def)
    have old: "room_tells P (calls_in g s') (yc_event s') g u" if "g \<noteq> call_room k" "yc_rooms s g = Some u" for g u
      using at(1) [OF that(2)] that(1) ks call(2) by (auto simp: room_tells_def)
    show ?thesis
      using new old at(2) ks conn eq le call(1,3) by (intro client_invI) (auto simp: yc_calls_def split: if_splits)
  next
    case (nobody k t now)
    then obtain g p where k: "k = LeaveRoom g p" by (cases k) (auto split: prod.splits)
    then have "players (rs_room t) p \<noteq> None" using leaver_is_there [OF inv plays nobody(3)] nobody by simp
    then show ?thesis using nobody(7) k by (auto simp: RemovePlayer_def Let_def split: prod.splits option.splits if_splits)
  next
    case (return g e t)
    have "room_tells P ks None h u" if "room_tells P ks (yc_event s) h u" "yc_rooms s h = Some u" for ks h u
      using that return(2,3,4) by (auto simp: room_tells_def)
    then show ?thesis
      using at return(1) conn eq le by (intro client_invI) (auto simp: yc_calls_def calls_in_def)
  next
    case (others g t t')
    have "room_tells P (calls_in g s) (yc_event s) g t'" by (rule others_keep [OF at(1) [OF others(2)] others(3,4)])
    then show ?thesis
      using at others(1) conn eq le by (intro client_invI) (auto simp: yc_calls_def calls_in_def split: if_splits)
  qed
qed

section \<open>The log of a client's players\<close>

lemma client_inv_reach:
  assumes "plays codec P" and "rtranclp (sync_step codec rnd P) (sync_client_start rnd ctx scope now cancelled) s"
  shows "client_inv codec rnd P (sync_conn rnd ctx scope now cancelled) s"
proof -
  let ?c0 = "sync_conn rnd ctx scope now cancelled"
  have calls: "snd (gc_stream (run_messages (BidiStream_HandleMessage codec sync_ops rnd) ms ?c0)) =
      room_calls (accepted codec ms) (list_ex half_closes ms)" for ms
    using sync_upstream [of codec rnd ms ctx scope now cancelled] by (simp add: upstream_def)
  from assms(2) show ?thesis
  proof (induction rule: rtranclp_induct)
    case base
    show ?case using calls [of "[]"] by (simp add: client_inv_def sync_client_start_def yc_calls_def calls_in_def)
  next
    case (step s s')
    show ?case by (rule client_inv_step [OF step.IH assms(1) step.hyps(2) calls])
  qed
qed

lemma log_of_subseq: "subseq es es' \<Longrightarrow> subseq (log_of P es) (log_of P es')"
  unfolding log_of_def by (intro subseq_filter subseq_map)



end
