(* ===== verification/TimeWs.thy ===== *)
theory TimeWs
  imports WsServe
begin

text \<open>
  The broadcast demo \<open>cmd/timews/main.go\<close>: connections that subscribe their writers to a fan-out of
  the library \<open>gocurrent\<close>, which is not part of the repository. What the connections do to the
  fan-out and to their writers is the list of these calls, in order.
\<close>

datatype 'a fan_call = FanAdd nat | FanRemove nat | FanSend "'a outgoing_message" | WriterStopped nat

text \<open>\<open>tc_writer\<close> is the address of the connection's writer, whose input channel is subscribed.\<close>

record 'a time_conn =
  tc_base :: "'a base_conn"
  tc_writer :: nat

definition TimeHandler_Validate :: "nat \<Rightarrow> request \<Rightarrow> 'a time_conn option" where
  "TimeHandler_Validate writer r = Some \<lparr>tc_base = new_base_conn ''TimeConn'' [], tc_writer = writer\<rparr>"

definition TimeConn_OnStart ::
  "string \<Rightarrow> 'a time_conn \<times> 'a fan_call list \<Rightarrow> string option \<times> 'a time_conn \<times> 'a fan_call list" where
  "TimeConn_OnStart rnd s =
     (case s of (t, calls) \<Rightarrow> (None, t\<lparr>tc_base := snd (WSOnStart rnd (tc_base t))\<rparr>, calls @ [FanAdd (tc_writer t)]))"

definition TimeConn_OnClose :: "string \<Rightarrow> 'a time_conn \<times> 'a fan_call list \<Rightarrow> 'a time_conn \<times> 'a fan_call list" where
  "TimeConn_OnClose rnd s =
     (case s of (t, calls) \<Rightarrow>
        (t\<lparr>tc_base := WSOnClose rnd (tc_base t)\<rparr>, calls @ [FanRemove (tc_writer t), WriterStopped (tc_writer t)]))"

definition TimeConn_OnTimeout :: "'a time_conn \<times> 'a fan_call list \<Rightarrow> bool \<times> 'a time_conn \<times> 'a fan_call list" where
  "TimeConn_OnTimeout s = (False, s)"

definition TimeConn_HandleMessage ::
  "'a \<Rightarrow> 'a time_conn \<times> 'a fan_call list \<Rightarrow> string option \<times> 'a time_conn \<times> 'a fan_call list" where
  "TimeConn_HandleMessage msg s =
     (case s of (t, calls) \<Rightarrow> (None, t, calls @ [FanSend (no_message\<lparr>og_Data := Some msg\<rparr>)]))"

text \<open>
  The publish endpoint and the ticker send to the fan-out too; \<open>to_any\<close> makes a message of a Go
  string and \<open>now\<close> is the text of the current time.
\<close>

definition NewTimeHandler :: "'a fan_call list" where
  "NewTimeHandler = []"

definition publish ::
  "(string \<Rightarrow> 'a) \<Rightarrow> string \<Rightarrow> query_values \<Rightarrow> 'a fan_call list \<Rightarrow> ('b, 'x) world \<Rightarrow> 'a fan_call list \<times> ('b, 'x) world"
where
  "publish to_any now query calls w =
     (calls @ [FanSend (no_message\<lparr>og_Data := Some (to_any (now @ '': '' @ Query_Get query ''msg''))\<rparr>)],
      Write_resp ''Published Message Successfully'' w)"

definition tick :: "(string \<Rightarrow> 'a) \<Rightarrow> string \<Rightarrow> 'a fan_call list \<Rightarrow> 'a fan_call list" where
  "tick to_any now calls = calls @ [FanSend (no_message\<lparr>og_Data := Some (to_any now)\<rparr>)]"

definition time_ops :: "string \<Rightarrow> ('a, 'a time_conn \<times> 'a fan_call list) ws_ops" where
  "time_ops rnd =
     \<lparr>op_OnStart = TimeConn_OnStart rnd,
      op_SendPing = (\<lambda>(t, calls). case SendPing rnd (tc_base t) of (e, b) \<Rightarrow> (e, t\<lparr>tc_base := b\<rparr>, calls)),
      op_HandleMessage = TimeConn_HandleMessage,
      op_OnError = (\<lambda>err s. (Some err, s)), op_OnTimeout = TimeConn_OnTimeout, op_OnClose = TimeConn_OnClose rnd\<rparr>"

section \<open>A writer is unsubscribed before it stops\<close>

text \<open>
  No call stops a subscribed writer: at each WriterStopped the writer has been removed since it was
  last added.
\<close>

fun unsubscribed_stops :: "nat set \<Rightarrow> 'a fan_call list \<Rightarrow> bool" where
  "unsubscribed_stops subs [] = True"
| "unsubscribed_stops subs (FanAdd i # ks) = unsubscribed_stops (insert i subs) ks"
| "unsubscribed_stops subs (FanRemove i # ks) = unsubscribed_stops (subs - {i}) ks"
| "unsubscribed_stops subs (FanSend m # ks) = unsubscribed_stops subs ks"
| "unsubscribed_stops subs (WriterStopped i # ks) = (i \<notin> subs \<and> unsubscribed_stops subs ks)"

definition subscribed :: "nat set \<Rightarrow> 'a fan_call list \<Rightarrow> nat set" where
  "subscribed subs ks = fold (\<lambda>k s. case k of FanAdd i \<Rightarrow> insert i s | FanRemove i \<Rightarrow> s - {i} | _ \<Rightarrow> s) ks subs"

lemma unsubscribed_stops_append:
  "unsubscribed_stops subs (xs @ ys) \<longleftrightarrow> unsubscribed_stops subs xs \<and> unsubscribed_stops (subscribed subs xs) ys"
  by (induction subs xs rule: unsubscribed_stops.induct) (auto simp: subscribed_def)

text \<open>Every method keeps this, whatever the other connections have done to the fan-out before.\<close>

lemma time_conn_orderly:
  assumes "unsubscribed_stops subs calls"
  shows "unsubscribed_stops subs (snd (snd (TimeConn_OnStart rnd (t, calls)))) \<and>
    unsubscribed_stops subs (snd (snd (TimeConn_HandleMessage m (t, calls)))) \<and>
    unsubscribed_stops subs (snd (TimeConn_OnClose rnd (t, calls))) \<and>
    tc_writer t \<notin> subscribed subs (snd (TimeConn_OnClose rnd (t, calls)))"
  using assms
  by (simp add: TimeConn_OnStart_def TimeConn_HandleMessage_def TimeConn_OnClose_def unsubscribed_stops_append subscribed_def)

section \<open>Many connections on one fan-out\<close>

text \<open>
  \<open>TimeConn.OnClose\<close> makes two calls, and those of other goroutines may come between them: the
  removal, which it waits for, and the close of the embedded connection.
\<close>

definition close_remove :: "'a time_conn \<times> 'a fan_call list \<Rightarrow> 'a time_conn \<times> 'a fan_call list" where
  "close_remove s = (case s of (t, calls) \<Rightarrow> (t, calls @ [FanRemove (tc_writer t)]))"

definition close_base :: "string \<Rightarrow> 'a time_conn \<times> 'a fan_call list \<Rightarrow> 'a time_conn \<times> 'a fan_call list" where
  "close_base rnd s =
     (case s of (t, calls) \<Rightarrow> (t\<lparr>tc_base := WSOnClose rnd (tc_base t)\<rparr>, calls @ [WriterStopped (tc_writer t)]))"

lemma TimeConn_OnClose_parts: "TimeConn_OnClose rnd s = close_base rnd (close_remove s)"
  by (cases s) (simp add: TimeConn_OnClose_def close_base_def close_remove_def)

text \<open>
  The state of the server: the connections that are open and those that are closing, by the address
  of their writers, and the calls so far. A writer's address is new when its connection is made.
\<close>

record 'a time_sys =
  ts_open :: "nat \<rightharpoonup> 'a time_conn"
  ts_closing :: "nat \<rightharpoonup> 'a time_conn"
  ts_used :: "nat set"
  ts_calls :: "'a fan_call list"

definition time_start :: "'a time_sys" where
  "time_start = \<lparr>ts_open = Map.empty, ts_closing = Map.empty, ts_used = {}, ts_calls = NewTimeHandler\<rparr>"

datatype 'a time_label = Joins nat | Leaves nat | Stops nat | Pings nat | Idle nat | Says nat 'a | Publishes string string | Ticks string

definition label_message :: "(string \<Rightarrow> 'a) \<Rightarrow> 'a time_label \<Rightarrow> 'a option" where
  "label_message to_any l = (case l of
      Says a m \<Rightarrow> Some m
    | Publishes now msg \<Rightarrow> Some (to_any (now @ '': '' @ msg))
    | Ticks now \<Rightarrow> Some (to_any now)
    | _ \<Rightarrow> None)"

inductive time_step :: "(string \<Rightarrow> 'a) \<Rightarrow> 'a time_sys \<Rightarrow> 'a time_label \<Rightarrow> 'a time_sys \<Rightarrow> bool" for to_any where
  joins: "a \<notin> ts_used s \<Longrightarrow> TimeHandler_Validate a r = Some t0 \<Longrightarrow>
    TimeConn_OnStart rnd (t0, ts_calls s) = (None, t, calls) \<Longrightarrow>
    time_step to_any s (Joins a) (s\<lparr>ts_open := (ts_open s)(a \<mapsto> t), ts_used := insert a (ts_used s), ts_calls := calls\<rparr>)"
| says: "ts_open s a = Some t \<Longrightarrow> op_HandleMessage (time_ops rnd) m (t, ts_calls s) = (e, t', calls) \<Longrightarrow>
    time_step to_any s (Says a m) (s\<lparr>ts_open := (ts_open s)(a \<mapsto> t'), ts_calls := calls\<rparr>)"
| pinged: "ts_open s a = Some t \<Longrightarrow> op_SendPing (time_ops rnd) (t, ts_calls s) = (e, t', calls) \<Longrightarrow>
    time_step to_any s (Pings a) (s\<lparr>ts_open := (ts_open s)(a \<mapsto> t'), ts_calls := calls\<rparr>)"
| idle: "ts_open s a = Some t \<Longrightarrow> op_OnTimeout (time_ops rnd) (t, ts_calls s) = (False, t', calls) \<Longrightarrow>
    time_step to_any s (Idle a) (s\<lparr>ts_open := (ts_open s)(a \<mapsto> t'), ts_calls := calls\<rparr>)"
| leaves: "ts_open s a = Some t \<Longrightarrow> close_remove (t, ts_calls s) = (t', calls) \<Longrightarrow>
    time_step to_any s (Leaves a)
      (s\<lparr>ts_open := (ts_open s)(a := None), ts_closing := (ts_closing s)(a \<mapsto> t'), ts_calls := calls\<rparr>)"
| stops: "ts_closing s a = Some t \<Longrightarrow> close_base rnd (t, ts_calls s) = (t', calls) \<Longrightarrow>
    time_step to_any s (Stops a) (s\<lparr>ts_closing := (ts_closing s)(a := None), ts_calls := calls\<rparr>)"
| publishes: "publish to_any now query (ts_calls s) (w :: (unit, unit) world) = (calls, w') \<Longrightarrow>
    time_step to_any s (Publishes now (Query_Get query ''msg'')) (s\<lparr>ts_calls := calls\<rparr>)"
| ticks: "tick to_any now (ts_calls s) = calls \<Longrightarrow> time_step to_any s (Ticks now) (s\<lparr>ts_calls := calls\<rparr>)"

inductive time_run :: "(string \<Rightarrow> 'a) \<Rightarrow> 'a time_label list \<Rightarrow> 'a time_sys \<Rightarrow> bool" for to_any where
  run_start: "time_run to_any [] time_start"
| run_step: "time_run to_any ls s \<Longrightarrow> time_step to_any s l s' \<Longrightarrow> time_run to_any (ls @ [l]) s'"

text \<open>
  What the fan-out gives to a writer, if it passes each message to the writers subscribed when the
  message is sent, and what a connection should hear.
\<close>

fun fan_view :: "nat \<Rightarrow> bool \<Rightarrow> 'a fan_call list \<Rightarrow> 'a outgoing_message list" where
  "fan_view a on [] = []"
| "fan_view a on (FanAdd b # ks) = fan_view a (on \<or> b = a) ks"
| "fan_view a on (FanRemove b # ks) = fan_view a (on \<and> b \<noteq> a) ks"
| "fan_view a on (WriterStopped b # ks) = fan_view a on ks"
| "fan_view a on (FanSend m # ks) = (if on then [m] else []) @ fan_view a on ks"

fun heard :: "(string \<Rightarrow> 'a) \<Rightarrow> nat \<Rightarrow> bool \<Rightarrow> 'a time_label list \<Rightarrow> 'a list" where
  "heard to_any a on [] = []"
| "heard to_any a on (l # ls) =
     (case label_message to_any l of Some m \<Rightarrow> if on then [m] else [] | None \<Rightarrow> []) @
     heard to_any a (if l = Joins a then True else if l = Leaves a then False else on) ls"

section \<open>The invariant\<close>

lemma subscribed_snoc [simp]:
  "subscribed S [] = S" "subscribed S (ks @ [FanAdd a]) = insert a (subscribed S ks)"
  "subscribed S (ks @ [FanRemove a]) = subscribed S ks - {a}" "subscribed S (ks @ [FanSend m]) = subscribed S ks"
  "subscribed S (ks @ [WriterStopped a]) = subscribed S ks"
  by (simp_all add: subscribed_def)

lemma subscribed_Cons [simp]:
  "subscribed S (FanAdd a # ks) = subscribed (insert a S) ks" "subscribed S (FanRemove a # ks) = subscribed (S - {a}) ks"
  "subscribed S (FanSend m # ks) = subscribed S ks" "subscribed S (WriterStopped a # ks) = subscribed S ks"
  by (simp_all add: subscribed_def)

lemma fan_view_snoc:
  "fan_view a (a \<in> S) (ks @ [k]) = fan_view a (a \<in> S) ks @ fan_view a (a \<in> subscribed S ks) [k]"
proof (induction ks arbitrary: S)
  case (Cons k' ks)
  show ?case
  proof (cases k')
    case (FanAdd b)
    have "(a \<in> S \<or> b = a) = (a \<in> insert b S)" by blast
    then show ?thesis using Cons [of "insert b S"] FanAdd by (simp del: insert_iff)
  next
    case (FanRemove b)
    have "(a \<in> S \<and> b \<noteq> a) = (a \<in> S - {b})" by blast
    then show ?thesis using Cons [of "S - {b}"] FanRemove by (simp del: Diff_iff)
  qed (use Cons [of S] in simp_all)
qed simp

definition listening :: "nat \<Rightarrow> bool \<Rightarrow> 'a time_label list \<Rightarrow> bool" where
  "listening a on ls = fold (\<lambda>l on. if l = Joins a then True else if l = Leaves a then False else on) ls on"

lemma heard_snoc:
  "heard to_any a on (ls @ [l]) = heard to_any a on ls @ heard to_any a (listening a on ls) [l]"
  by (induction ls arbitrary: on) (simp_all add: listening_def)

definition stops_of :: "nat \<Rightarrow> 'a fan_call list \<Rightarrow> nat" where
  "stops_of a ks = length (filter (\<lambda>k. k = WriterStopped a) ks)"

lemma stops_of_snoc [simp]:
  "stops_of a [] = 0" "stops_of a (ks @ [WriterStopped b]) = stops_of a ks + (if a = b then 1 else 0)"
  "stops_of a (ks @ [FanAdd b]) = stops_of a ks" "stops_of a (ks @ [FanRemove b]) = stops_of a ks"
  "stops_of a (ks @ [FanSend m]) = stops_of a ks"
  by (simp_all add: stops_of_def)

definition time_inv :: "(string \<Rightarrow> 'a) \<Rightarrow> 'a time_label list \<Rightarrow> 'a time_sys \<Rightarrow> bool" where
  "time_inv to_any ls s \<longleftrightarrow>
     unsubscribed_stops {} (ts_calls s) \<and> subscribed {} (ts_calls s) = dom (ts_open s) \<and>
     (\<forall>a t. ts_open s a = Some t \<longrightarrow> tc_writer t = a \<and> a \<in> ts_used s \<and> ts_closing s a = None) \<and>
     (\<forall>a t. ts_closing s a = Some t \<longrightarrow> tc_writer t = a \<and> a \<in> ts_used s) \<and>
     (\<forall>a. stops_of a (ts_calls s) =
        (if a \<in> ts_used s \<and> ts_open s a = None \<and> ts_closing s a = None then 1 else 0)) \<and>
     (\<forall>a. listening a False ls \<longleftrightarrow> ts_open s a \<noteq> None) \<and>
     (\<forall>a. fan_view a False (ts_calls s) = map (\<lambda>m. no_message\<lparr>og_Data := Some m\<rparr>) (heard to_any a False ls))"

lemma fan_view_step:
  "subscribed {} ks = dom f \<Longrightarrow>
   fan_view a False (ks @ [k]) = fan_view a False ks @ fan_view a (f a \<noteq> None) [k]"
  using fan_view_snoc [of a "{}" ks k] by (simp add: domIff)

lemma listening_snoc:
  "listening a on (ls @ [l]) \<longleftrightarrow> (if l = Joins a then True else if l = Leaves a then False else listening a on ls)"
  by (simp add: listening_def)

lemma time_inv_send:
  assumes "time_inv to_any ls s" and "label_message to_any l = Some m" and "\<And>a. l \<noteq> Joins a \<and> l \<noteq> Leaves a"
    and "ts_open s' = ts_open s" and "ts_closing s' = ts_closing s" and "ts_used s' = ts_used s"
    and "ts_calls s' = ts_calls s @ [FanSend (no_message\<lparr>og_Data := Some m\<rparr>)]"
  shows "time_inv to_any (ls @ [l]) s'"
  using assms
  by (simp add: time_inv_def unsubscribed_stops_append heard_snoc listening_snoc fan_view_step [of _ "ts_open s"] split: if_split)

text \<open>A step that calls neither the fan-out nor the writer's Stop.\<close>

lemma time_inv_quiet:
  assumes "time_inv to_any ls s" and "label_message to_any l = None" and "\<And>a. l \<noteq> Joins a \<and> l \<noteq> Leaves a"
    and "ts_open s a = Some t" and "tc_writer t' = tc_writer t"
  shows "time_inv to_any (ls @ [l]) (s\<lparr>ts_open := (ts_open s)(a \<mapsto> t'), ts_calls := ts_calls s\<rparr>)"
  using assms by (auto simp: time_inv_def heard_snoc listening_snoc split: if_split)

lemmas time_inv_simps = unsubscribed_stops_append heard_snoc listening_snoc fan_view_step label_message_def

lemma time_inv_joins:
  assumes "time_inv to_any ls s" and "a \<notin> ts_used s" and "tc_writer t = a"
  shows "time_inv to_any (ls @ [Joins a])
    (s\<lparr>ts_open := (ts_open s)(a \<mapsto> t), ts_used := insert a (ts_used s), ts_calls := ts_calls s @ [FanAdd a]\<rparr>)"
proof -
  have "ts_open s a = None" using assms(1,2) by (cases "ts_open s a") (auto simp: time_inv_def)
  moreover have "ts_closing s a = None" using assms(1,2) by (cases "ts_closing s a") (auto simp: time_inv_def)
  ultimately show ?thesis using assms
    by (auto simp: time_inv_def time_inv_simps fan_view_step [of _ "ts_open s"])
qed

lemma time_inv_leaves:
  assumes "time_inv to_any ls s" and "ts_open s a = Some t" and "tc_writer t' = a"
  shows "time_inv to_any (ls @ [Leaves a])
    (s\<lparr>ts_open := (ts_open s)(a := None), ts_closing := (ts_closing s)(a \<mapsto> t'), ts_calls := ts_calls s @ [FanRemove a]\<rparr>)"
  using assms by (auto simp: time_inv_def time_inv_simps fan_view_step [of _ "ts_open s"])

lemma time_inv_stops:
  assumes "time_inv to_any ls s" and "ts_closing s a = Some t"
  shows "time_inv to_any (ls @ [Stops a])
    (s\<lparr>ts_closing := (ts_closing s)(a := None), ts_calls := ts_calls s @ [WriterStopped a]\<rparr>)"
proof -
  have "ts_open s a = None" using assms by (cases "ts_open s a") (auto simp: time_inv_def)
  then show ?thesis using assms
    by (auto simp: time_inv_def time_inv_simps fan_view_step [of _ "ts_open s"])
qed

lemma time_inv_step:
  assumes "time_step to_any s l s'" and inv: "time_inv to_any ls s"
  shows "time_inv to_any (ls @ [l]) s'"
  using assms(1)
proof (cases rule: time_step.cases)
  case (joins a r t0 rnd t calls)
  then have "tc_writer t = a" "calls = ts_calls s @ [FanAdd a]"
    by (auto simp: TimeHandler_Validate_def TimeConn_OnStart_def)
  then show ?thesis using time_inv_joins [OF inv joins(3)] joins by simp
next
  case (says a t rnd m e t' calls)
  then have "t' = t" "calls = ts_calls s @ [FanSend (no_message\<lparr>og_Data := Some m\<rparr>)]"
    by (auto simp: time_ops_def TimeConn_HandleMessage_def)
  with says show ?thesis
    by (intro time_inv_send [OF inv, of _ m]) (auto simp: label_message_def)
next
  case (pinged a t rnd e t' calls)
  then have "tc_writer t' = tc_writer t" "calls = ts_calls s" by (auto simp: time_ops_def split: prod.splits)
  then show ?thesis using time_inv_quiet [OF inv, of l a t t'] pinged by (simp add: label_message_def)
next
  case (idle a t rnd t' calls)
  then have "tc_writer t' = tc_writer t" "calls = ts_calls s" by (auto simp: time_ops_def TimeConn_OnTimeout_def)
  then show ?thesis using time_inv_quiet [OF inv, of l a t t'] idle by (simp add: label_message_def)
next
  case (leaves a t t' calls)
  have "tc_writer t = a" using inv leaves(3) by (simp add: time_inv_def)
  then have "tc_writer t' = a" "calls = ts_calls s @ [FanRemove a]" using leaves(4) by (auto simp: close_remove_def)
  then show ?thesis using time_inv_leaves [OF inv leaves(3)] leaves by simp
next
  case (stops a t rnd t' calls)
  have "tc_writer t = a" using inv stops(3) by (simp add: time_inv_def)
  then have "calls = ts_calls s @ [WriterStopped a]" using stops(4) by (auto simp: close_base_def)
  then show ?thesis using time_inv_stops [OF inv stops(3)] stops by simp
next
  case (publishes now query w calls w')
  then show ?thesis
    by (intro time_inv_send [OF inv, of _ "to_any (now @ '': '' @ Query_Get query ''msg'')"])
       (auto simp: label_message_def publish_def)
next
  case (ticks now calls)
  then show ?thesis
    by (intro time_inv_send [OF inv, of _ "to_any now"]) (auto simp: label_message_def tick_def)
qed

lemma time_run_inv: "time_run to_any ls s \<Longrightarrow> time_inv to_any ls s"
proof (induction rule: time_run.induct)
  case run_start
  show ?case by (simp add: time_inv_def time_start_def NewTimeHandler_def listening_def)
next
  case (run_step ls s l s')
  then show ?case using time_inv_step by blast
qed

text \<open>
  C22: Broadcasting while connections come and go. In every interleaving of connections that start,
  send, ping, idle and close (with other calls between the removal and the stop of a close), of
  publish requests and of clock ticks: the fan-out's subscribers are exactly the open connections, no
  subscribed writer is ever stopped, the writer of a connection is stopped once when it has closed
  and not before, and what a fan-out that serves its subscribers gives to a connection is exactly
  the messages that were said, published or ticked between its start and its close, in that order.
\<close>

theorem time_broadcast:
  assumes "time_run to_any ls s"
  shows "subscribed {} (ts_calls s) = dom (ts_open s) \<and> unsubscribed_stops {} (ts_calls s) \<and>
    (\<forall>a. stops_of a (ts_calls s) =
       (if a \<in> ts_used s \<and> ts_open s a = None \<and> ts_closing s a = None then 1 else 0)) \<and>
    (\<forall>a. fan_view a False (ts_calls s) =
       map (\<lambda>m. no_message\<lparr>og_Data := Some m\<rparr>) (heard to_any a False ls))"
  using time_run_inv [OF assms] by (simp add: time_inv_def)

text \<open>Two connections; the first hears the tick and the second's message, and leaves before the next tick.\<close>

definition time_labels :: "string time_label list" where
  "time_labels = [Joins 0, Ticks ''t1'', Joins 1, Says 1 ''hi'', Leaves 0, Ticks ''t2'', Stops 0]"

definition reaches :: "string time_label list \<Rightarrow> nat set \<Rightarrow> nat set \<Rightarrow> nat set \<Rightarrow> bool" where
  "reaches ls opened closing used \<longleftrightarrow> (\<exists>s. time_run (\<lambda>x. x) ls s \<and> dom (ts_open s) = opened \<and>
     dom (ts_closing s) = closing \<and> ts_used s = used)"

lemma reachesI:
  "time_run (\<lambda>x. x) ls s \<Longrightarrow> dom (ts_open s) = A \<Longrightarrow> dom (ts_closing s) = C \<Longrightarrow> ts_used s = U \<Longrightarrow> reaches ls A C U"
  by (auto simp: reaches_def)

lemma reaches_rules:
  "reaches [] {} {} {}"
  "reaches ls A C U \<Longrightarrow> a \<notin> U \<Longrightarrow> reaches (ls @ [Joins a]) (insert a A) C (insert a U)"
  "reaches ls A C U \<Longrightarrow> a \<in> A \<Longrightarrow> reaches (ls @ [Says a m]) A C U"
  "reaches ls A C U \<Longrightarrow> reaches (ls @ [Ticks now]) A C U"
  "reaches ls A C U \<Longrightarrow> a \<in> A \<Longrightarrow> reaches (ls @ [Leaves a]) (A - {a}) (insert a C) U"
  "reaches ls A C U \<Longrightarrow> a \<in> C \<Longrightarrow> reaches (ls @ [Stops a]) A (C - {a}) U"
proof -
  show "reaches [] {} {} {}" unfolding reaches_def by (rule exI, intro conjI, rule run_start) (simp_all add: time_start_def)
  assume "reaches ls A C U"
  then obtain s where s: "time_run (\<lambda>x. x) ls s" "dom (ts_open s) = A" "dom (ts_closing s) = C" "ts_used s = U"
    by (auto simp: reaches_def)
  have j: "TimeConn_OnStart ''r'' (t0, ts_calls s) =
      (None, t0\<lparr>tc_base := snd (WSOnStart ''r'' (tc_base t0))\<rparr>, ts_calls s @ [FanAdd (tc_writer t0)])" for t0
    by (simp add: TimeConn_OnStart_def)
  show "reaches (ls @ [Joins a]) (insert a A) C (insert a U)" if "a \<notin> U"
    by (rule reachesI [OF run_step [OF s(1) joins [OF _ TimeHandler_Validate_def j]]]) (use that s in auto)
  show "reaches (ls @ [Ticks now]) A C U"
    by (rule reachesI [OF run_step [OF s(1) ticks [OF refl]]]) (use s in auto)
  have h: "op_HandleMessage (time_ops ''r'') m (t, ts_calls s) = (None, t, ts_calls s @ [FanSend (no_message\<lparr>og_Data := Some m\<rparr>)])" for t
    by (simp add: time_ops_def TimeConn_HandleMessage_def)
  show "reaches (ls @ [Says a m]) A C U" if "a \<in> A"
  proof -
    obtain t where "ts_open s a = Some t" using \<open>a \<in> A\<close> s(2) by blast
    with s show ?thesis by (intro reachesI [OF run_step [OF s(1) says [OF _ h]]]) auto
  qed
  have l: "close_remove (t, ts_calls s) = (t, ts_calls s @ [FanRemove (tc_writer t)])" for t
    by (simp add: close_remove_def)
  show "reaches (ls @ [Leaves a]) (A - {a}) (insert a C) U" if "a \<in> A"
  proof -
    obtain t where "ts_open s a = Some t" using \<open>a \<in> A\<close> s(2) by blast
    with s show ?thesis by (intro reachesI [OF run_step [OF s(1) leaves [OF _ l]]]) auto
  qed
  have c: "close_base ''r'' (t, ts_calls s) =
      (t\<lparr>tc_base := WSOnClose ''r'' (tc_base t)\<rparr>, ts_calls s @ [WriterStopped (tc_writer t)])" for t
    by (simp add: close_base_def)
  show "reaches (ls @ [Stops a]) A (C - {a}) U" if "a \<in> C"
  proof -
    obtain t where "ts_closing s a = Some t" using \<open>a \<in> C\<close> s(3) by blast
    with s show ?thesis by (intro reachesI [OF run_step [OF s(1) stops [OF _ c]]]) auto
  qed
qed

lemma time_labels_run: "\<exists>s. time_run (\<lambda>x. x) time_labels s \<and> dom (ts_open s) = {1}"
proof -
  note r = reaches_rules
  have "reaches ((((((([] @ [Joins 0]) @ [Ticks ''t1'']) @ [Joins 1]) @ [Says 1 ''hi'']) @ [Leaves 0]) @ [Ticks ''t2'']) @ [Stops 0])
      ((insert 1 (insert 0 {})) - {0}) (insert 0 {} - {0}) (insert 1 (insert 0 {}))"
    by (intro r) simp_all
  then show ?thesis by (auto simp: reaches_def time_labels_def)
qed

theorem time_broadcast_witness:
  "\<exists>s. time_run (\<lambda>x. x) time_labels s \<and> subscribed {} (ts_calls s) = {1} \<and>
    fan_view 0 False (ts_calls s) = map (\<lambda>m. no_message\<lparr>og_Data := Some m\<rparr>) [''t1'', ''hi''] \<and>
    fan_view 1 False (ts_calls s) = map (\<lambda>m. no_message\<lparr>og_Data := Some m\<rparr>) [''hi'', ''t2'']"
proof -
  obtain s where s: "time_run (\<lambda>x. x) time_labels s" "dom (ts_open s) = {1}" using time_labels_run by blast
  have "heard (\<lambda>x. x) 0 False time_labels = [''t1'', ''hi'']" "heard (\<lambda>x. x) 1 False time_labels = [''hi'', ''t2'']"
    by (simp_all add: time_labels_def label_message_def)
  then show ?thesis using time_broadcast [OF s(1)] s by (intro exI [of _ s]) simp
qed

end
