(* ===== verification/Endpoints.thy ===== *)
theory Endpoints
  imports DemoStreams Auth
begin

text \<open>
  The endpoints of gRPC streams put together: the handlers of \<open>grpcws/server_stream.go\<close>,
  \<open>client_stream.go\<close> and \<open>bidi_stream.go\<close> with their constructors, under \<open>WSServe\<close> and the loop of
  \<open>http/ws.go\<close>, from the request to the end of the connection; and the endpoints that
  \<open>cmd/grpcws-demo/main.go\<close> makes of them.
\<close>

section \<open>The life of a connection under the loop\<close>

text \<open>
  A connection whose operations keep a property until it is closed, and whose close establishes
  another one.
\<close>

locale ws_contract =
  fixes ops :: "('i, 'c) ws_ops" and up :: "'c \<Rightarrow> bool" and down :: "'c \<Rightarrow> bool"
  assumes ping: "up c \<Longrightarrow> op_SendPing ops c = (e, c') \<Longrightarrow> up c'"
    and message: "up c \<Longrightarrow> op_HandleMessage ops v c = (e, c') \<Longrightarrow> up c'"
    and failure: "up c \<Longrightarrow> op_OnError ops err c = (oe, c') \<Longrightarrow> up c'"
    and timeout: "up c \<Longrightarrow> op_OnTimeout ops c = (b, c') \<Longrightarrow> up c'"
    and closing: "up c \<Longrightarrow> down (op_OnClose ops c)"
begin

definition kept :: "ws_end \<Rightarrow> 'c \<Rightarrow> bool" where
  "kept e c \<longleftrightarrow> (case e of Waiting \<Rightarrow> up c | Ended \<Rightarrow> down c | Crashed m \<Rightarrow> False)"

lemma kept_simps [simp]: "kept Waiting c = up c" "kept Ended c = down c"
  by (simp_all add: kept_def)

lemma loop_kept: "up c \<Longrightarrow> ws_loop ops cfg u t es c = (e, tr, c') \<Longrightarrow> kept e c'"
proof (induction es arbitrary: t c e tr c')
  case (Cons ev es)
  show ?case
  proof (cases ev)
    case PingTick
    obtain er d where p: "op_SendPing ops c = (er, d)" by (cases "op_SendPing ops c")
    show ?thesis using Cons.prems Cons.IH [OF ping [OF Cons.prems(1) p]] p PingTick by (auto simp: fst_also_calls_eq)
  next
    case (PongTick now)
    obtain b d where p: "op_OnTimeout ops c = (b, d)" by (cases "op_OnTimeout ops c")
    show ?thesis
      using Cons.prems Cons.IH [OF timeout [OF Cons.prems(1) p]] Cons.IH [OF Cons.prems(1)]
        closing [OF timeout [OF Cons.prems(1) p]] p PongTick
      by (auto simp: fst_also_calls_eq ws_finish_def split: if_splits bool.splits)
  next
    case (Arrived now res)
    show ?thesis
    proof (cases "read_result u res")
      case (Inl err)
      obtain oe d where p: "op_OnError ops err c = (oe, d)" by (cases "op_OnError ops err c")
      show ?thesis
        using Cons.prems Cons.IH [OF failure [OF Cons.prems(1) p]] Cons.IH [OF Cons.prems(1)]
          closing [OF failure [OF Cons.prems(1) p]] closing [OF Cons.prems(1)] p Arrived Inl
        by (auto simp: fst_also_calls_eq ws_finish_def split: if_splits option.splits)
    next
      case (Inr v)
      obtain er d where p: "op_HandleMessage ops v c = (er, d)" by (cases "op_HandleMessage ops v c")
      show ?thesis using Cons.prems Cons.IH [OF message [OF Cons.prems(1) p]] p Arrived Inr
        by (auto simp: fst_also_calls_eq)
    qed
  qed
qed simp

lemma handler_kept:
  assumes "periods_ok config" and "op_OnStart ops c = (None, c1)" and "up c1"
    and "WSHandleConn ops config u now es c = (e, tr, c')"
  shows "kept e c'"
proof -
  obtain e' tr' d where l: "ws_loop ops (effective config) u now es c1 = (e', tr', d)" by (rule prod_cases3)
  then have "e = e'" "d = c'" using assms(4) handler_started [OF assms(1,2), of u now es] by simp_all
  then show ?thesis using loop_kept [OF assms(3) l] by simp
qed

end

section \<open>The resources of a stream\<close>

text \<open>
  An open stream connection, of the cancel scope \<open>scope\<close> and among the cancelled scopes \<open>S\<close> of
  others: its writer is not stopped and nothing but its own scope has been cancelled; and a closed one.
\<close>

definition stream_open :: "nat \<Rightarrow> nat set \<Rightarrow> ('d, 'g) grpc_conn \<Rightarrow> bool" where
  "stream_open scope S c \<longleftrightarrow> gc_cancelFunc c = Some scope \<and> S \<subseteq> gc_cancelled c \<and> gc_cancelled c \<subseteq> insert scope S \<and>
     (\<exists>ks. WSWriter (gc_base c) = Some ks \<and> WStop \<notin> set ks)"

definition stream_closed :: "nat \<Rightarrow> nat set \<Rightarrow> ('d, 'g) grpc_conn \<Rightarrow> bool" where
  "stream_closed scope S c \<longleftrightarrow> gc_cancelled c = insert scope S \<and>
     (\<exists>ks. WSWriter (gc_base c) = Some (ks @ [WStop]) \<and> WStop \<notin> set ks)"

lemma stream_open_simps [simp]:
  "stream_open scope S c \<Longrightarrow> stream_open scope S (grpc_send m c)"
  "stream_open scope S c \<Longrightarrow> stream_open scope S (log_conn rnd c)"
  "stream_open scope S c \<Longrightarrow> stream_open scope S (grpc_cancel c)"
  "stream_open scope S c \<Longrightarrow> stream_open scope S (IncrementSent c)"
  "stream_open scope S c \<Longrightarrow> stream_open scope S (IncrementReceived c)"
  "stream_open scope S c \<Longrightarrow> stream_open scope S (c\<lparr>gc_stream := g\<rparr>)"
  "stream_open scope S c \<Longrightarrow> stream_open scope S (on_base (\<lambda>b. b\<lparr>PingId := n\<rparr>) c)"
  by (auto simp: stream_open_def grpc_send_def log_conn_def grpc_cancel_def IncrementSent_def IncrementReceived_def
      on_base_def)

lemma stream_open_errors [simp]:
  "stream_open scope S c \<Longrightarrow> stream_open scope S (sendError e c)"
  "stream_open scope S c \<Longrightarrow> stream_open scope S (sendStreamEnd c)"
  by (simp_all add: sendError_def sendStreamEnd_def)

lemma stream_open_ping: "stream_open scope S c \<Longrightarrow> stream_open scope S (snd (grpc_SendPing c))"
  by (simp add: grpc_SendPing_def Let_def) (auto simp: stream_open_def on_base_def grpc_send_def)

lemma stream_open_close: "stream_open scope S c \<Longrightarrow> stream_closed scope S (grpc_OnClose rnd c)"
  by (auto simp: stream_open_def stream_closed_def grpc_OnClose_def grpc_cancel_def)

text \<open>What a handler of client messages must leave alone for its connection to be closed properly.\<close>

locale stream_kind =
  fixes handle :: "'d control_message \<Rightarrow> ('d, 'g) grpc_conn \<Rightarrow> string option \<times> ('d, 'g) grpc_conn"
    and rnd :: string and scope :: nat and S :: "nat set"
  assumes stays_open: "stream_open scope S c \<Longrightarrow> handle m c = (e, c') \<Longrightarrow> stream_open scope S c'"

sublocale stream_kind \<subseteq> ws_contract "grpc_ops rnd handle" "stream_open scope S" "stream_closed scope S"
proof unfold_locales
  fix c c' e
  assume "stream_open scope S c" and "op_SendPing (grpc_ops rnd handle) c = (e, c')"
  then show "stream_open scope S c'" using stream_open_ping [of scope S c] by (simp add: grpc_ops_def)
qed (auto simp: grpc_ops_def stream_open_close dest: stays_open)

interpretation server_kind: stream_kind "ServerStream_HandleMessage rnd" rnd scope S
  by unfold_locales (auto simp: ServerStream_HandleMessage_def split: if_splits)

interpretation client_kind: stream_kind "ClientStream_HandleMessage codec ops rnd" rnd scope S
  by unfold_locales (auto simp: ClientStream_HandleMessage_def handle_data_def
    split: if_splits prod.splits option.splits sum.splits)

interpretation bidi_kind: stream_kind "BidiStream_HandleMessage codec ops rnd" rnd scope S
  by unfold_locales (auto simp: BidiStream_HandleMessage_def handle_data_def
    split: if_splits prod.splits option.splits)

section \<open>OnStart and OnClose of the three kinds\<close>

text \<open>The second component says that the forwarding goroutine has been started.\<close>

definition ServerStream_OnStart :: "string \<Rightarrow> ('d, 'g) grpc_conn \<Rightarrow> string option \<times> bool \<times> ('d, 'g) grpc_conn" where
  "ServerStream_OnStart rnd c = (case grpc_OnStart rnd c of (Some e, c) \<Rightarrow> (Some e, False, c) | (None, c) \<Rightarrow> (None, True, c))"

definition ClientStream_OnStart :: "string \<Rightarrow> ('d, 'g) grpc_conn \<Rightarrow> string option \<times> ('d, 'g) grpc_conn" where
  "ClientStream_OnStart rnd c = grpc_OnStart rnd c"

definition BidiStream_OnStart :: "string \<Rightarrow> ('d, 'g) grpc_conn \<Rightarrow> string option \<times> bool \<times> ('d, 'g) grpc_conn" where
  "BidiStream_OnStart rnd c = (case grpc_OnStart rnd c of (Some e, c) \<Rightarrow> (Some e, False, c) | (None, c) \<Rightarrow> (None, True, c))"

text \<open>Each OnClose ends by logging the connection's id.\<close>

definition ServerStream_OnClose :: "string \<Rightarrow> ('d, 'g) grpc_conn \<Rightarrow> ('d, 'g) grpc_conn" where
  "ServerStream_OnClose rnd c = log_conn rnd (grpc_OnClose rnd c)"

definition ClientStream_OnClose :: "string \<Rightarrow> ('d, 'g) grpc_conn \<Rightarrow> ('d, 'g) grpc_conn" where
  "ClientStream_OnClose rnd c = log_conn rnd (grpc_OnClose rnd c)"

definition BidiStream_OnClose :: "string \<Rightarrow> ('d, 'g) grpc_conn \<Rightarrow> ('d, 'g) grpc_conn" where
  "BidiStream_OnClose rnd c = log_conn rnd (grpc_OnClose rnd c)"

text \<open>
  The base connection's OnClose has logged the id before, so that it exists: the three are the base
  connection's.
\<close>

lemma WSConnId_again:
  "rnd \<noteq> [] \<Longrightarrow> snd (WSConnId rnd (WSOnClose rnd b)) = WSOnClose rnd b"
  by (simp add: WSOnClose_def WSConnId_def Let_def)

lemma OnClose_kinds:
  assumes "rnd \<noteq> []"
  shows "ServerStream_OnClose rnd c = grpc_OnClose rnd c" "ClientStream_OnClose rnd c = grpc_OnClose rnd c"
    "BidiStream_OnClose rnd c = grpc_OnClose rnd c"
  using assms
  by (simp_all add: ServerStream_OnClose_def ClientStream_OnClose_def BidiStream_OnClose_def grpc_OnClose_def
      log_conn_def on_base_def WSConnId_again)

lemma OnStart_kinds:
  "fst (ServerStream_OnStart rnd c) = fst (grpc_OnStart rnd c)"
  "snd (snd (ServerStream_OnStart rnd c)) = snd (grpc_OnStart rnd c)"
  "BidiStream_OnStart rnd c = ServerStream_OnStart rnd c"
  by (simp_all add: ServerStream_OnStart_def BidiStream_OnStart_def split: prod.split option.split)

section \<open>Handlers\<close>

text \<open>The options of protojson are part of the codec and of no interest here.\<close>

record ('req, 'g) server_handler =
  sh_CreateStream :: "nat list \<Rightarrow> 'req \<Rightarrow> string + 'g"
  sh_ParseRequest :: "request \<Rightarrow> string + 'req"

record ('req, 'g) client_handler =
  ch_CreateStream :: "nat list \<Rightarrow> string + 'g"
  ch_NewRequest :: 'req

record ('req, 'g) bidi_handler =
  bh_CreateStream :: "nat list \<Rightarrow> string + 'g"
  bh_NewRequest :: 'req

definition NewServerStreamHandler ::
  "(nat list \<Rightarrow> 'req \<Rightarrow> string + 'g) \<Rightarrow> (request \<Rightarrow> string + 'req) \<Rightarrow> ('req, 'g) server_handler" where
  "NewServerStreamHandler createStream parseRequest = \<lparr>sh_CreateStream = createStream, sh_ParseRequest = parseRequest\<rparr>"

definition NewClientStreamHandler :: "(nat list \<Rightarrow> string + 'g) \<Rightarrow> 'req \<Rightarrow> ('req, 'g) client_handler" where
  "NewClientStreamHandler createStream newRequest = \<lparr>ch_CreateStream = createStream, ch_NewRequest = newRequest\<rparr>"

definition NewBidiStreamHandler :: "(nat list \<Rightarrow> string + 'g) \<Rightarrow> 'req \<Rightarrow> ('req, 'g) bidi_handler" where
  "NewBidiStreamHandler createStream newRequest = \<lparr>bh_CreateStream = createStream, bh_NewRequest = newRequest\<rparr>"

text \<open>
  The handlers as WSServe calls them: the cancelled scopes are the part \<open>app\<close> of the world, and the
  context of the request is \<open>reqCtx\<close>.
\<close>

definition as_validate ::
  "(request \<Rightarrow> nat list \<Rightarrow> nat \<Rightarrow> int \<Rightarrow> nat set \<Rightarrow> ('b, nat set) world \<Rightarrow>
     ('d, 'g) grpc_conn option \<times> nat set \<times> ('b, nat set) world) \<Rightarrow>
   nat list \<Rightarrow> nat \<Rightarrow> int \<Rightarrow> request \<Rightarrow> ('b, nat set) world \<Rightarrow> ('d, 'g) grpc_conn option \<times> ('b, nat set) world"
where
  "as_validate validate reqCtx scope now r w =
     (case validate r reqCtx scope now (app w) w of (c, cancelled, w) \<Rightarrow> (c, w\<lparr>app := cancelled\<rparr>))"

definition server_validate where
  "server_validate h = as_validate (ServerStream_Validate (sh_ParseRequest h) (sh_CreateStream h))"

definition client_validate where
  "client_validate h = as_validate (ClientStream_Validate (ch_CreateStream h))"

definition bidi_validate where
  "bidi_validate h = as_validate (BidiStream_Validate (bh_CreateStream h))"

section \<open>An endpoint\<close>

text \<open>
  \<open>WSServe\<close> to its end: the outcome of the validation and the upgrade, and for an upgraded
  connection the run of the loop.
\<close>

definition serve_endpoint ::
  "(request \<Rightarrow> ('b, 'x) world \<Rightarrow> 'c option \<times> ('b, 'x) world) \<Rightarrow>
   (request \<Rightarrow> ('b, 'x) world \<Rightarrow> bool \<times> ('b, 'x) world) \<Rightarrow> ('i, 'c) ws_ops \<Rightarrow> ws_conn_config option \<Rightarrow>
   (ws_error \<Rightarrow> int list \<Rightarrow> bool) \<Rightarrow> int \<Rightarrow> 'i ws_event list \<Rightarrow> request \<Rightarrow> ('b, 'x) world \<Rightarrow>
   (ws_end \<times> 'i ws_call list \<times> 'c) upgraded \<times> ('b, 'x) world"
where
  "serve_endpoint validate upgrade ops config u now es req w =
     (case WSServe validate upgrade req w of
        (NotValid, w) \<Rightarrow> (NotValid, w)
      | (UpgradeFailed, w) \<Rightarrow> (UpgradeFailed, w)
      | (Upgraded c, w) \<Rightarrow> (Upgraded (WSHandleConn ops config u now es c), w))"

lemma new_conn_open:
  assumes "scope \<notin> S"
  shows "stream_open scope S (snd (grpc_OnStart rnd (new_grpc_conn name ctx scope now g S)))"
    "op_OnStart (grpc_ops rnd handle) (new_grpc_conn name ctx scope now g S) =
       (None, snd (grpc_OnStart rnd (new_grpc_conn name ctx scope now g S)))"
  by (auto simp: stream_open_def grpc_ops_def grpc_OnStart_def WSOnStart_def Let_def new_grpc_conn_def initContext_def)

context stream_kind
begin

lemma fresh_run:
  assumes "periods_ok config" and "scope \<notin> S"
    and "WSHandleConn (grpc_ops rnd handle) config u now es (new_grpc_conn name ctx scope t g S) = (e, tr, c')"
  shows "(e = Waiting \<and> stream_open scope S c') \<or> (e = Ended \<and> stream_closed scope S c')"
proof -
  have "kept e c'" by (rule handler_kept [OF assms(1) new_conn_open(2) new_conn_open(1) assms(3)]) (rule assms(2))+
  then show ?thesis by (cases e) (simp_all add: kept_def)
qed

end

text \<open>How a validation that ends in \<open>create_or_fail\<close>, or refuses before it, goes on.\<close>

definition validation_ok ::
  "nat \<Rightarrow> nat list \<Rightarrow> (request \<Rightarrow> ('b, nat set) world \<Rightarrow> ('d, 'g) grpc_conn option \<times> ('b, nat set) world) \<Rightarrow> bool" where
  "validation_ok scope reqCtx validate \<longleftrightarrow> (\<forall>r w c w'. validate r w = (c, w') \<longrightarrow> sent w = None \<longrightarrow>
     (case c of
        None \<Rightarrow> (final_status w' = 400 \<and> app w' = app w) \<or> (final_status w' = 500 \<and> app w' = insert scope (app w))
      | Some c \<Rightarrow> w' = w \<and> (\<exists>name t g. c = new_grpc_conn name reqCtx scope t g (app w))))"

lemma final_status_app [simp]: "final_status (w\<lparr>app := a\<rparr>) = final_status w"
  by (simp add: final_status_def)

lemma world_same_app [simp]: "(w :: ('b, 'x) world)\<lparr>app := app w\<rparr> = w"
  by simp

lemma kind_validations:
  "validation_ok scope reqCtx (client_validate hc reqCtx scope t)"
  "validation_ok scope reqCtx (bidi_validate hb reqCtx scope t)"
  "validation_ok scope reqCtx (server_validate hs reqCtx scope t)"
  by (auto simp: validation_ok_def client_validate_def bidi_validate_def server_validate_def as_validate_def
      ClientStream_Validate_def BidiStream_Validate_def ServerStream_Validate_def create_or_fail_def split: sum.splits)

lemma endpoint_run:
  assumes "validation_ok scope reqCtx validate" and "sent w = None"
    and "\<And>w. app (snd (upgrade req w)) = app w"
    and "serve_endpoint validate upgrade ops config u now es req w = (r, w')"
  shows "case r of
      NotValid \<Rightarrow> (final_status w' = 400 \<and> app w' = app w) \<or> (final_status w' = 500 \<and> app w' = insert scope (app w))
    | UpgradeFailed \<Rightarrow> app w' = app w
    | Upgraded run \<Rightarrow> app w' = app w \<and>
        (\<exists>name t g. run = WSHandleConn ops config u now es (new_grpc_conn name reqCtx scope t g (app w)))"
proof -
  obtain c w1 where v: "validate req w = (c, w1)" by (cases "validate req w")
  note ok = assms(1) [unfolded validation_ok_def, rule_format, OF v assms(2)]
  show ?thesis
  proof (cases c)
    case None
    have "(NotValid, w1) = (r, w')" unfolding assms(4) [symmetric] by (simp add: serve_endpoint_def WSServe_def v None)
    then have "r = NotValid" "w' = w1" by simp_all
    then show ?thesis using ok unfolding None by simp
  next
    case (Some k)
    then have w1: "w1 = w" and "\<exists>name t g. k = new_grpc_conn name reqCtx scope t g (app w)" using ok by simp_all
    then obtain name t g where k: "k = new_grpc_conn name reqCtx scope t g (app w)" by blast
    obtain b w2 where up: "upgrade req w = (b, w2)" by (cases "upgrade req w")
    have a: "app w2 = app w" using assms(3) [of w] up by simp
    have "(if b then Upgraded (WSHandleConn ops config u now es k) else UpgradeFailed,
        if b then w2 else http_Error ''WS Upgrade failed'' 400 w2) = (r, w')"
      unfolding assms(4) [symmetric] by (simp add: serve_endpoint_def WSServe_def v Some w1 up)
    then have r: "r = (if b then Upgraded (WSHandleConn ops config u now es k) else UpgradeFailed)"
      and w': "w' = (if b then w2 else http_Error ''WS Upgrade failed'' 400 w2)"
      by (blast dest: Pair_inject)+
    have "app w' = app w" unfolding w' by (simp add: a)
    moreover have "\<exists>name t g. WSHandleConn ops config u now es k =
        WSHandleConn ops config u now es (new_grpc_conn name reqCtx scope t g (app w))"
      unfolding k by (intro exI) (rule refl)
    ultimately show ?thesis unfolding r by (cases b) simp_all
  qed
qed


section \<open>The demo's endpoints\<close>

record subscribe_request =
  sr_GameId :: string
  sr_PlayerId :: string

text \<open>
  The three functions that main gives to the constructors. \<open>vars\<close> are the route's variables, \<open>n\<close> the
  random number of a player without a name. The stream of a subscription is known by the calls that
  it has made to the rooms.
\<close>

definition subscribe_parse :: "(string \<rightharpoonup> string) \<Rightarrow> query_values \<Rightarrow> int \<Rightarrow> request \<Rightarrow> string + subscribe_request" where
  "subscribe_parse vars query n r =
     (let playerId = Query_Get query ''player_id'';
          playerId = (if playerId = [] then ''player-'' @ dec_int n else playerId)
      in Inr \<lparr>sr_GameId = (case vars ''gameId'' of Some g \<Rightarrow> g | None \<Rightarrow> []), sr_PlayerId = playerId\<rparr>)"

definition subscribe_create :: "nat list \<Rightarrow> subscribe_request \<Rightarrow> string + 'f room_call list" where
  "subscribe_create ctx req = Inr [JoinRoom (sr_GameId req) (sr_PlayerId req)]"

definition SharedServerStream_CloseSend :: "subscribe_request \<Rightarrow> 'f room_call list \<Rightarrow> string option \<times> 'f room_call list" where
  "SharedServerStream_CloseSend req calls = (None, calls @ [LeaveRoom (sr_GameId req) (sr_PlayerId req)])"

definition subscribe_handler ::
  "(string \<rightharpoonup> string) \<Rightarrow> query_values \<Rightarrow> int \<Rightarrow> (subscribe_request, 'f room_call list) server_handler" where
  "subscribe_handler vars query n = NewServerStreamHandler subscribe_create (subscribe_parse vars query n)"

definition commands_handler :: "(string, string list) client_handler" where
  "commands_handler = NewClientStreamHandler NewMockClientStream []"

definition sync_handler :: "('f player_action, shared_bidi_stream \<times> 'f room_call list) bidi_handler" where
  "sync_handler = NewBidiStreamHandler (\<lambda>ctx. Inr (NewSharedBidiStream, []))
     \<lparr>pa_ActionId = [], pa_PlayerId = [], pa_Action = NoAction\<rparr>"

text \<open>The pages: the test page, and the redirect to a game of its own, \<open>n\<close> the random number.\<close>

definition index_page :: "string \<Rightarrow> request \<Rightarrow> ('b, 'x) world \<Rightarrow> ('b, 'x) world" where
  "index_page indexHTML r w = Write_resp indexHTML (SetHeader ''Content-Type'' ''text/html'' w)"

definition root_redirect ::
  "(request \<Rightarrow> string \<Rightarrow> string) \<Rightarrow> (request \<Rightarrow> string \<Rightarrow> bytes) \<Rightarrow> int \<Rightarrow> request \<Rightarrow> ('b, 'x) world \<Rightarrow> ('b, 'x) world" where
  "root_redirect location page n r w = http_Redirect location page r (''/game-'' @ dec_int n) 307 w"

text \<open>
  The program says that all windows with the same game id see each other's actions. A subscriber
  joins the room of its route; a sync client never does, whatever its route: its actions go to the
  room of its first action, \<open>shared-game\<close> or \<open>default\<close>.
\<close>

lemma sync_ignores_route:
  "k \<in> set (room_calls acts shut) \<Longrightarrow> call_room k \<in> {''shared-game'', ''default''}"
  by (cases acts) (auto simp: room_calls_def room_for_def split: if_splits)

lemma subscriber_room:
  assumes "vars ''gameId'' = Some g" and "subscribe_parse vars query n r = Inr req" and "subscribe_create ctx req = Inr calls"
  shows "map call_room calls = [g]"
  using assms by (auto simp: subscribe_parse_def subscribe_create_def Let_def)

text \<open>
  The subscription is made, and its player joins the room, before the upgrade. When the upgrade then
  fails nothing calls the connection's OnClose, and nobody is left to make the player leave.
\<close>

lemma subscriber_joins_before_upgrade:
  assumes "vars ''gameId'' = Some g" and "query ''player_id'' = Some [p]" and "p \<noteq> []"
    and "upgrade r w = (False, w1)"
  shows "\<exists>c. server_validate (subscribe_handler vars query n) ctx scope t r w = (Some c, w) \<and>
      gc_stream c = [JoinRoom g p] \<and>
      serve_endpoint (server_validate (subscribe_handler vars query n) ctx scope t) upgrade ops config u now es r w =
        (UpgradeFailed, http_Error ''WS Upgrade failed'' 400 w1)"
  using assms
  by (simp add: serve_endpoint_def WSServe_def server_validate_def as_validate_def ServerStream_Validate_def
      subscribe_handler_def NewServerStreamHandler_def subscribe_parse_def subscribe_create_def Query_Get_def
      create_or_fail_def new_grpc_conn_def initContext_def)

text \<open>
  The upgrader answers a failed upgrade itself; the second answer of WSServe cannot change the status
  and is appended to the body.
\<close>

lemma failed_upgrade_answered_twice:
  assumes "validate r w = (Some c, w1)" and "upgrade r w1 = (False, w2)" and "sent w2 = Some (code, h)" and "body_allowed code"
  shows "\<exists>w'. WSServe validate upgrade r w = (UpgradeFailed, w') \<and> final_status w' = code \<and>
    resp_body w' = resp_body w2 @ ''WS Upgrade failed'' @ [LF]"
  using assms
  by (simp add: WSServe_def http_Error_def Let_def WriteHeader_def send_header_def SetHeader_def Write_resp_def
      final_status_def)

text \<open>A client of the sync endpoint that goes away at once.\<close>

definition demo_serve :: "(ws_end \<times> string control_message ws_call list \<times>
    (string, shared_bidi_stream \<times> int room_call list) grpc_conn) upgraded \<times> (unit, nat set) world" where
  "demo_serve = serve_endpoint (bidi_validate sync_handler [0] 1 5) (\<lambda>r w. (True, w))
     (grpc_ops ''r'' (BidiStream_HandleMessage ann_codec sync_ops ''r'')) None any_close 0
     [PingTick, Arrived 1 (Inr (data_of ''a1'')), Arrived 2 (Inl (CloseError 1001))] undefined (fresh_world {})"

lemma demo_serve_ends: "\<exists>tr c w'. demo_serve = (Upgraded (Ended, tr, c), w')"
  by (simp add: demo_serve_def serve_endpoint_def WSServe_def bidi_validate_def as_validate_def BidiStream_Validate_def
      create_or_fail_def sync_handler_def NewBidiStreamHandler_def WSHandleConn_def DefaultWSConnConfig_def
      DefaultBiDirStreamConfig_def grpc_ops_def grpc_OnStart_def WSOnStart_def Let_def read_result_def any_close_def
      ws_finish_def split: prod.split)


end
