(* ===== verification/Spec2Isabelle.thy ===== *)
theory Spec2Isabelle
  imports LspFraming EventStore AuthRetry HubStream Stack WsStream Streamable Graceful Helpers Utils UrlWaiter
    GrpcProps AuthDB GameHub TimeWs Endpoints
begin

text \<open>
  Verification of servicekit, a Go toolkit for HTTP services: Server-Sent Events, WebSockets, gRPC
  streams over WebSockets, authentication retry, graceful shutdown and a middleware chain.

  The program and its theories. Paths are under src/; a definition has the name of the function or
  method it models, with the type in front where two methods share a name.

  \<open>Prelude\<close>, \<open>GoStrings\<close>, \<open>Bufio\<close>, \<open>HttpModel\<close>: the Go values and the parts of strings, strconv,
  bufio and net/http that the code uses. A string or byte slice is a list of bytes; a handler is a
  function on a request and a \<open>world\<close> (response written so far, clock, log, random bytes and an
  application part) with an outcome, Returned or Panicked; header maps have canonical keys.

  Server-Sent Events. \<open>SseReader\<close> (http/sse_reader.go): the accumulator of fields and the loop of
  ReadEvent; it refines the split of the stream into blocks. \<open>SseWriter\<close> (the write side of
  http/sseconn.go and http/streamable.go): events on the wire, and the round trip with the reader.
  \<open>SseConn\<close> and \<open>SseServe\<close> (http/sseconn.go): the connection with its channels and once flags, and
  its handler as a step relation beside the client, the ticker and other goroutines; the interface
  is the locale \<open>sse_connection\<close>, which BaseSSEConn keeps. \<open>SseHub\<close> (http/ssehub.go): the hub over a
  heap of connections, since connections are shared by pointer; \<open>HubStream\<close>: the hub, one of its
  connections, the wire and the client's reader in one statement. \<open>EventStore\<close> (http/event_store.go):
  the replay store as an instance of a locale of stores, refined against an unbounded history.
  \<open>Streamable\<close> (http/streamable.go): one request answered by a value or by a stream of events.

  WebSockets. \<open>BaseConn\<close> (http/codec.go, http/baseconn.go): codecs, message union, writer.
  \<open>WsServe\<close> (http/ws.go, http/bidir.go): upgrade and loop, a function of the order in which the
  cases of its select fire; the locale \<open>pinging\<close> is the contract of a connection that numbers its
  pings. \<open>WsStream\<close>: one side's methods, the frames its writer emits, and the other side's loop, end
  to end. \<open>GrpcConn\<close>, \<open>GrpcStreams\<close>, \<open>GrpcProps\<close> (grpcws/): envelopes, the three kinds of streams and
  their sessions, a step relation of the WebSocket loop, the forwarding goroutine and the owners of
  the enclosing contexts; the locales \<open>control_only\<close> and \<open>ping_neutral\<close> are the contracts of the
  message handlers. \<open>Endpoints\<close>: the handlers and their constructors under WSServe, from the request
  to the end of the connection, with the locale \<open>ws_contract\<close> of what a connection keeps until it is
  closed. \<open>TimeWs\<close> (cmd/timews): connections that come and go on a fan-out, as a step relation.

  HTTP clients and servers. \<open>LspFraming\<close> (http/lsp_framing.go), \<open>AuthRetry\<close>
  (http/www_authenticate.go, http/auth_retry.go), \<open>Caller\<close> (http/caller.go), \<open>UrlWaiter\<close>
  (http/ping.go), \<open>Graceful\<close> (http/graceful.go), \<open>Helpers\<close> (http/idgen.go, session.go, accept.go,
  jsonrpc.go, resolve.go, status.go, local.go), \<open>Utils\<close> (http/utils.go).

  Middleware (middleware/). \<open>Middleware\<close> holds the chain of guard.go and its small links, with the
  contract of a link as the locale \<open>gate_contract\<close>; \<open>ClientIP\<close>, \<open>Origin\<close>, \<open>RateLimit\<close>, \<open>ConnLimit\<close> the
  others, each an interpretation of it where it is a gate; \<open>Stack\<close> the links put together.

  Login and demo. \<open>Auth\<close>, \<open>AuthDB\<close> (auth/): identities, login gate, database operations. \<open>GameRoom\<close>,
  \<open>GameProps\<close> (cmd/grpcws-demo/main.go): a room with its lock, bounded channel and broadcast
  goroutine as a step relation, its invariant, its deadlock, and the demo streams. \<open>GameStream\<close>: a
  subscriber's gRPC session composed with the room, both with all their goroutines. \<open>DemoStreams\<close>: what
  the messages of a player do to the rooms, and what a client gets for its commands. \<open>GameState\<close>: the
  state of a game is the replay of its events. \<open>GameHub\<close>: any number of rooms side by side under the
  hub, whose reachable states are the products of those of the rooms, and a sync client whose calls
  run in them among those of everybody else.

  What the lemmas show. Every theory states what its component promises and proves it of the code:
  round trips of the wire formats; refinement of the reader, the event store and the upload of a
  stream against specifications; invariants of the hub, the SSE handler, the connection limiter, the
  gRPC session and the room in every interleaving; the order of lifecycle calls on every path out of
  a loop; the exact result of each operation on each branch, errors included; termination of the
  waiter exactly when a round ends the wait. Some properties join components: in this theory, a
  graceful shutdown empties the hub and frees every stream handler before the server drains; in
  \<open>HubStream\<close> and \<open>WsStream\<close>, what is sent on one side is what the other side gets; in \<open>Endpoints\<close>,
  every path of an endpoint releases the stream's context; in \<open>GameStream\<close> and \<open>GameHub\<close>, a browser
  sees the events of its room in order, and the log of a room has the actions of a player in the order
  of its WebSocket messages; in \<open>TimeWs\<close>, each
  open connection hears each broadcast. The lemmas that show a
  behaviour at odds with a comment or with the evident intent stand beside the definitions.

  Concurrency. Mutexes and atomic operations make single steps; a select is a choice among its ready
  cases, by a step relation or by the order of events given; ranging over a Go map takes the visiting
  order as an argument, constrained by \<open>visits\<close> or \<open>room_visits\<close>.

  Termination and bounds. Recursion is structural or has a measure (the bytes left, the retries not
  yet used, the events left to scan). Nothing is given fuel. \<open>waiter_loop\<close>, the loop of URLWaiter, is
  unbounded and a partial function into option, whose None is a loop that never ends. Counters of 64
  and 32 bits are words; a Go int is int with the bounds that matter stated where they are used.

  Parameters, not modelled because their code is not in the repository: JSON and protobuf
  marshalling, gRPC streams, gorm, the token bucket, URL and address parsing, the WebSocket library
  and its upgrader, the HTTP transport, Shutdown of the server, the fan-out and writer goroutines of
  gocurrent (a connection records what it hands to its writer). Theorems that rely on the behaviour
  of one of them say so in a hypothesis and have a witness with a concrete instance.

  Not modelled: the doc.go files, comments only; the generated protobuf code, whose fields are
  records here; the router of the demos, of another library, and the one route that serves a file;
  the options of the marshallers and of the upgrader, which only reach other libraries; the
  TypeScript client. Log lines are kept only where the code's
  behaviour is the log (request logging).
\<close>

section \<open>Graceful shutdown with open streams\<close>

text \<open>The options of a server that closes its hub on shutdown; the hub visits its map in the order \<open>order\<close>.\<close>

definition hub_settings :: "string \<Rightarrow> ('o hub_state \<Rightarrow> string list) \<Rightarrow> int \<Rightarrow> 'o hub_state setting list" where
  "hub_settings rnd order d = [SetDrain d, AddCallback (\<lambda>s. CloseAll rnd (order s) s)]"

lemma CloseAll_done:
  assumes "hub_inv s" and "visits order s"
  obtains s' where "CloseAll rnd order s = (Returned, s')" and "Count s' = 0"
    and "\<And>i a. conns s i = Some a \<Longrightarrow> started (heap s a) \<Longrightarrow> Done (heap s' a) = ClosedChan"
proof -
  have sub: "distinct order" "set order = dom (conns s)" using assms(2) by (simp_all add: visits_def)
  obtain p s' where run: "CloseAll rnd order s = (p, s')" by (cases "CloseAll rnd order s")
  have spec: "p = Returned" "conns s' = (\<lambda>i. if i \<in> set order then None else conns s i)"
    "\<And>a. heap s' a = (if \<exists>i \<in> set order. conns s i = Some a then snd (OnClose rnd (heap s a)) else heap s a)"
    using CloseAll_spec [OF assms(1), of order rnd] sub run by simp_all
  have "dom (conns s') = {}" using spec(2) sub(2) by (auto simp: dom_def)
  then have "Count s' = 0" by (simp add: Count_def)
  moreover have "Done (heap s' a) = ClosedChan" if "conns s i = Some a" "started (heap s a)" for i a
    using conn_step_started [OF that(2), of "OpOnClose rnd"] spec(3) [of a] that(1) sub(2) by auto
  ultimately show ?thesis using that run spec(1) by simp
qed

text \<open>
  C9: A graceful shutdown releases every open stream before it drains. For a server whose hub is
  closed by a WithOnShutdown callback, when the first trigger is SIGTERM or SIGINT: the call returns
  with the result of Shutdown, called with the configured drain timeout on a state in which the hub
  is empty; and in that state the handler of every started connection that was in the hub can run to
  its end, wherever in its loop or its deferred calls it stands and although its client stays, so
  that nothing of the hub holds up the drain.
\<close>

theorem graceful_releases_streams:
  assumes "hub_inv s" and "visits (order s) s"
    and "\<forall>e \<in> set before. \<not> triggers (apply_options (map option_of (hub_settings rnd order d))) e"
    and "sig \<in> {''SIGTERM'', ''SIGINT''}"
  shows "\<exists>s'. ListenAndServeGraceful shutdown (map option_of (hub_settings rnd order d)) (before @ SignalArrives sig # after) s =
      (ReturnedErr (fst (shutdown d s')), snd (shutdown d s')) \<and> Count s' = 0 \<and>
    (\<forall>rnd' i a sv. conns s i = Some a \<and> started (heap s a) \<and> sv_conn sv = heap s' a \<longrightarrow>
      (\<exists>sv'. rtranclp (serve_step (base_ops rnd') base_app) sv sv' \<and> sv_phase sv' = Left))"
proof -
  let ?cfg = "apply_options (map option_of (hub_settings rnd order d))"
  obtain s' where s': "CloseAll rnd (order s) s = (Returned, s')" "Count s' = 0"
    "\<And>i a. conns s i = Some a \<Longrightarrow> started (heap s a) \<Longrightarrow> Done (heap s' a) = ClosedChan"
    using CloseAll_done [OF assms(1,2)] by blast
  have "await_shutdown ?cfg (before @ SignalArrives sig # after) = await_shutdown ?cfg (SignalArrives sig # after)"
    by (rule await_skips [OF assms(3)])
  moreover have "signals ?cfg = [''SIGTERM'', ''SIGINT'']" "drainTimeout ?cfg = d"
    "onShutdown ?cfg = [\<lambda>s. CloseAll rnd (order s) s]"
    unfolding apply_options_settings
    by (simp_all add: hub_settings_def last_of_def signal_lists_def drains_def callbacks_def)
  ultimately have "ListenAndServeGraceful shutdown (map option_of (hub_settings rnd order d)) (before @ SignalArrives sig # after) s =
      (ReturnedErr (fst (shutdown d s')), snd (shutdown d s'))"
    using assms(4) s'(1) by (auto simp: ListenAndServeGraceful_def Let_def relayed_def split: prod.split)
  moreover have "\<exists>sv'. rtranclp (serve_step (base_ops rnd') base_app) sv sv' \<and> sv_phase sv' = Left"
    if "conns s i = Some a \<and> started (heap s a) \<and> sv_conn sv = heap s' a" for rnd' i a sv
  proof (rule done_handler_leaves)
    show "if_Done (base_ops rnd') (sv_conn sv) = ClosedChan" using that s'(3) [of i a] by simp
  qed
  ultimately show ?thesis using s'(2) by blast
qed

theorem graceful_releases_streams_witness:
  "\<exists>s'. ListenAndServeGraceful (\<lambda>d s. (if Count s = 0 then None else Some ''busy'', s))
      (map option_of (hub_settings ''r'' (\<lambda>s. [''b'', ''a'']) 5)) [SignalArrives ''SIGHUP'', SignalArrives ''SIGTERM''] demo_hub =
    (ReturnedErr None, s')"
proof -
  have "\<forall>e \<in> set [SignalArrives ''SIGHUP'']. \<not> triggers (apply_options (map option_of
      (hub_settings ''r'' (\<lambda>s. [''b'', ''a'']) 5 :: int hub_state setting list))) e"
    unfolding apply_options_settings
    by (simp add: triggers_def relayed_def hub_settings_def last_of_def signal_lists_def)
  from graceful_releases_streams [OF demo_hub_inv demo_hub_visits this, of "''SIGTERM''"
      "\<lambda>d s. (if Count s = 0 then None else Some ''busy'', s)" "[]"]
  obtain s' where "ListenAndServeGraceful (\<lambda>d s. (if Count s = 0 then None else Some ''busy'', s))
      (map option_of (hub_settings ''r'' (\<lambda>s. [''b'', ''a'']) 5)) ([SignalArrives ''SIGHUP''] @ SignalArrives ''SIGTERM'' # []) demo_hub =
    (ReturnedErr (if Count s' = 0 then None else Some ''busy''), s')" "Count s' = 0"
    unfolding fst_conv snd_conv by blast
  then show ?thesis by (intro exI [of _ s']) simp
qed

end
